(* ===== verification/Go_Prelude.thy ===== *)
theory Go_Prelude
  imports Main "HOL-Library.Word" "HOL-Library.Sublist" "HOL-Library.Char_ord"
    "HOL-Library.List_Lexorder" "HOL-Library.Product_Lexorder"
begin

text \<open>
  What the components share: the Go values and the standard-library functions the modelled
  code calls, the three-way comparison interface, and the generic lemmas about lists and
  numbers.

  A Go \<open>string\<close> and a \<open>[]byte\<close> are byte sequences, so both are HOL strings (one
  \<open>char\<close> is one byte). A loop over an index \<open>i\<close> into a string is a recursion over the
  suffix from \<open>i\<close>: \<open>i >= len(s)\<close> is the empty suffix, and stepping past the end leaves it
  empty (\<open>tl [] = []\<close>).
\<close>

section \<open>Collections of facts\<close>

named_theorems frame \<open>what an operation leaves as it was\<close>

section \<open>Types\<close>

type_synonym int64 = "64 word"
type_synonym uint32 = "32 word"
type_synonym uuid = "128 word"

text \<open>
  An instant is its distance in nanoseconds from the zero value of \<open>time.Time\<close>; a duration is
  a number of nanoseconds. Both are kept unbounded.
\<close>

type_synonym time = int
type_synonym duration = int

abbreviation (input) uuid_Nil :: uuid where "uuid_Nil \<equiv> 0"
abbreviation (input) IsZero :: "time \<Rightarrow> bool" where "IsZero t \<equiv> t = 0"

section \<open>Bytes\<close>

abbreviation byte :: "char \<Rightarrow> int" where "byte c \<equiv> of_char c"

lemma byte_bounds [simp]: "0 \<le> byte c" "byte c < 256"
  by (simp_all add: of_char_def)

lemma byte_char_of [simp]: "byte (char_of (n :: nat)) = int (n mod 256)"
  by (metis of_char_of of_nat_of_char)

lemma byte_inject [simp]: "byte c = byte d \<longleftrightarrow> c = d"
  by (simp add: of_char_eq_iff)

definition isDigit :: "char \<Rightarrow> bool" where
  "isDigit c \<longleftrightarrow> byte (CHR ''0'') \<le> byte c \<and> byte c \<le> byte (CHR ''9'')"

definition isLower :: "char \<Rightarrow> bool" where
  "isLower c \<longleftrightarrow> byte (CHR ''a'') \<le> byte c \<and> byte c \<le> byte (CHR ''z'')"

definition isUpper :: "char \<Rightarrow> bool" where
  "isUpper c \<longleftrightarrow> byte (CHR ''A'') \<le> byte c \<and> byte c \<le> byte (CHR ''Z'')"

text \<open>\<open>int(c - '0')\<close>.\<close>

definition digitVal :: "char \<Rightarrow> nat" where
  "digitVal c = nat (byte c - byte (CHR ''0''))"

lemma digitVal_less [simp]: "isDigit c \<Longrightarrow> digitVal c < 10"
  by (auto simp: isDigit_def digitVal_def)

lemma digitVal_byte: "isDigit c \<Longrightarrow> int (digitVal c) = byte c - 48"
  by (auto simp: isDigit_def digitVal_def)

section \<open>Functions of package strings\<close>

text \<open>
  \<open>strings.IndexByte\<close> followed by the two slices around the hit: the part before the first
  occurrence and the part after it.
\<close>

fun cutByte :: "char \<Rightarrow> string \<Rightarrow> (string \<times> string) option" where
  "cutByte b [] = None"
| "cutByte b (c # s) =
     (if c = b then Some ([], s) else map_option (\<lambda>(l, r). (c # l, r)) (cutByte b s))"

text \<open>The same around the last occurrence (\<open>strings.LastIndexByte\<close>).\<close>

definition cutLastByte :: "char \<Rightarrow> string \<Rightarrow> (string \<times> string) option" where
  "cutLastByte b s = map_option (\<lambda>(l, r). (rev r, rev l)) (cutByte b (rev s))"

lemma cutByte_Some: "cutByte b s = Some (l, r) \<Longrightarrow> s = l @ b # r \<and> b \<notin> set l"
  by (induction s arbitrary: l) (auto split: if_splits)

lemma cutByte_None: "cutByte b s = None \<longleftrightarrow> b \<notin> set s"
  by (induction s) (auto split: if_splits)

lemma cutByte_append [simp]: "b \<notin> set l \<Longrightarrow> cutByte b (l @ b # r) = Some (l, r)"
  by (induction l) auto

lemma cutLastByte_append [simp]: "b \<notin> set r \<Longrightarrow> cutLastByte b (l @ b # r) = Some (l, r)"
  by (simp add: cutLastByte_def)

lemma cutLastByte_None: "cutLastByte b s = None \<longleftrightarrow> b \<notin> set s"
  by (simp add: cutLastByte_def cutByte_None)

text \<open>
  \<open>strings.TrimSpace\<close> drops the runes \<open>unicode.IsSpace\<close> accepts, at both ends. These are their
  UTF-8 encodings: six ASCII bytes, then U+0085, U+00A0, U+1680, U+2000 to U+200A, U+2028,
  U+2029, U+202F, U+205F and U+3000.
\<close>

definition spaceSeqs :: "string list" where
  "spaceSeqs =
     map (map char_of)
      ([[9], [10], [11], [12], [13], [32], [194, 133], [194, 160], [225, 154, 128]] @
       map (\<lambda>k. [226, 128, k]) [128, 129, 130, 131, 132, 133, 134, 135, 136, 137, 138, 168, 169, 175] @
       [[226, 129, 159], [227, 128, 128 :: nat]])"

function stripSeqs :: "string list \<Rightarrow> string \<Rightarrow> string" where
  "stripSeqs qs s =
     (case find (\<lambda>q. q \<noteq> [] \<and> prefix q s) qs of
        None \<Rightarrow> s
      | Some q \<Rightarrow> stripSeqs qs (drop (length q) s))"
  by pat_completeness auto
termination
  by (relation "measure (\<lambda>(qs, s). length s)") (auto simp: find_Some_iff diff_less dest!: prefix_length_le
      intro!: diff_less)

declare stripSeqs.simps [simp del]

definition TrimSpace :: "string \<Rightarrow> string" where
  "TrimSpace s = rev (stripSeqs (map rev spaceSeqs) (rev (stripSeqs spaceSeqs s)))"

text \<open>Nothing is trimmed from a string that starts and ends with a printing ASCII byte.\<close>

definition graphic :: "char \<Rightarrow> bool" where
  "graphic c \<longleftrightarrow> 32 < byte c \<and> byte c < 127"

lemma spaceSeqs_ends:
  "q \<in> set spaceSeqs \<Longrightarrow> \<not> graphic (hd q) \<and> \<not> graphic (last q)"
  by (auto simp: spaceSeqs_def graphic_def)

lemma stripSeqs_id:
  assumes "s \<noteq> []" and "\<And>q. q \<in> set qs \<Longrightarrow> q \<noteq> [] \<Longrightarrow> hd q \<noteq> hd s"
  shows "stripSeqs qs s = s"
proof -
  have "find (\<lambda>q. q \<noteq> [] \<and> prefix q s) qs = None"
    using assms by (fastforce simp: find_None_iff prefix_def)
  then show ?thesis by (simp add: stripSeqs.simps)
qed

lemma TrimSpace_id [simp]:
  assumes "s \<noteq> []" "graphic (hd s)" "graphic (last s)"
  shows "TrimSpace s = s"
proof -
  have 1: "stripSeqs spaceSeqs s = s"
    using assms by (intro stripSeqs_id) (auto dest: spaceSeqs_ends)
  have "stripSeqs (map rev spaceSeqs) (rev s) = rev s"
    using assms by (intro stripSeqs_id) (auto simp: hd_rev dest: spaceSeqs_ends)
  with 1 show ?thesis by (simp add: TrimSpace_def)
qed

lemma TrimSpace_Nil [simp]: "TrimSpace [] = []"
proof -
  have "find (\<lambda>q. q \<noteq> [] \<and> prefix q []) qs = None" for qs :: "string list"
    by (auto simp: find_None_iff)
  then have "stripSeqs qs [] = []" for qs
    by (simp add: stripSeqs.simps [of qs "[]"])
  then show ?thesis by (simp add: TrimSpace_def)
qed

text \<open>
  Case folding, byte by byte over ASCII letters. It is \<open>strings.EqualFold\<close> and
  \<open>strings.ToLower\<close> on ASCII arguments.
\<close>

definition lowerByte :: "char \<Rightarrow> char" where
  "lowerByte c = (if isUpper c then char_of (nat (byte c) + 32) else c)"

definition ToLower :: "string \<Rightarrow> string" where
  "ToLower s = map lowerByte s"

definition EqualFold :: "string \<Rightarrow> string \<Rightarrow> bool" where
  "EqualFold s t \<longleftrightarrow> ToLower s = ToLower t"

lemma EqualFold_refl [simp]: "EqualFold s s"
  by (simp add: EqualFold_def)

lemma EqualFold_sym: "EqualFold s t \<Longrightarrow> EqualFold t s"
  by (simp add: EqualFold_def)

lemma EqualFold_trans: "EqualFold s t \<Longrightarrow> EqualFold t u \<Longrightarrow> EqualFold s u"
  by (simp add: EqualFold_def)

text \<open>\<open>strings.TrimSuffix\<close> with a one-byte suffix, and \<open>strings.HasPrefix\<close>.\<close>

definition trimSuffixByte :: "char \<Rightarrow> string \<Rightarrow> string" where
  "trimSuffixByte b s = (if s \<noteq> [] \<and> last s = b then butlast s else s)"

abbreviation HasPrefix :: "string \<Rightarrow> string \<Rightarrow> bool" where
  "HasPrefix s p \<equiv> prefix p s"

section \<open>Decimal numbers\<close>

text \<open>The value of a run of decimal digits, most significant first.\<close>

definition numVal :: "string \<Rightarrow> nat" where
  "numVal s = foldl (\<lambda>n c. n * 10 + digitVal c) 0 s"

lemma foldl_dec: "foldl (\<lambda>n c. n * 10 + digitVal c) k s = k * 10 ^ length s + numVal s"
proof (induction s arbitrary: k)
  case (Cons c s)
  show ?case
    using Cons.IH [of "k * 10 + digitVal c"] Cons.IH [of "digitVal c"]
    by (simp add: numVal_def algebra_simps)
qed (simp add: numVal_def)

lemma numVal_Nil [simp]: "numVal [] = 0"
  by (simp add: numVal_def)

lemma numVal_Cons: "numVal (c # s) = digitVal c * 10 ^ length s + numVal s"
  using foldl_dec [of "digitVal c" s] by (simp add: numVal_def)

lemma numVal_less: "list_all isDigit s \<Longrightarrow> numVal s < 10 ^ length s"
proof (induction s)
  case (Cons c s)
  then have "digitVal c \<le> 9" and IH: "numVal s < 10 ^ length s"
    by (simp_all add: less_Suc_eq_le [symmetric])
  then have "digitVal c * 10 ^ length s \<le> 9 * 10 ^ length s" by (intro mult_le_mono1)
  with IH have "digitVal c * 10 ^ length s + numVal s < 10 * 10 ^ length s" by linarith
  then show ?case by (simp add: numVal_Cons)
qed simp

text \<open>\<open>strconv.Atoi\<close>: an optional sign and decimal digits, within the range of \<open>int64\<close>.\<close>

definition atoi :: "string \<Rightarrow> int option" where
  "atoi s =
     (let (neg, ds) = (case s of c # r \<Rightarrow> if c = CHR ''-'' then (True, r)
                                 else if c = CHR ''+'' then (False, r) else (False, s)
                        | [] \<Rightarrow> (False, s));
          n = (if neg then - int (numVal ds) else int (numVal ds))
      in if ds = [] \<or> \<not> list_all isDigit ds then None
         else if n < - (2 ^ 63) \<or> n \<ge> 2 ^ 63 then None else Some n)"

text \<open>\<open>strconv.Itoa\<close> and the verb \<open>%d\<close>.\<close>

fun utoa :: "nat \<Rightarrow> string" where
  "utoa n = (if n < 10 then [char_of (48 + n)] else utoa (n div 10) @ [char_of (48 + n mod 10)])"

declare utoa.simps [simp del]

definition itoa :: "int \<Rightarrow> string" where
  "itoa n = (if n < 0 then CHR ''-'' # utoa (nat (- n)) else utoa (nat n))"

lemma digit_char: "n < 10 \<Longrightarrow> isDigit (char_of (48 + n)) \<and> digitVal (char_of (48 + n)) = n"
  by (simp add: isDigit_def digitVal_def)

lemma utoa_digits: "list_all isDigit (utoa n)"
  by (induction n rule: utoa.induct) (subst utoa.simps, simp add: digit_char)

lemma numVal_snoc: "numVal (s @ [c]) = numVal s * 10 + digitVal c"
  by (simp add: numVal_def)

lemma numVal_utoa [simp]: "numVal (utoa n) = n"
proof (induction n rule: utoa.induct)
  case (1 n)
  show ?case
    using 1 by (subst utoa.simps) (auto simp: numVal_snoc numVal_Cons digit_char)
qed

lemma utoa_inject [simp]: "utoa m = utoa n \<longleftrightarrow> m = n"
  by (metis numVal_utoa)

end
