(* ===== verification/Three_Way.thy ===== *)
theory Three_Way
  imports Go_Prelude
begin

text \<open>
  The contract of a three-way comparison, the Go convention of a negative, zero or positive
  \<open>int\<close>. Everything that ranks versions (\<open>internal/version\<close>) is a client of it: the affected
  range of an advisory means what it says only if the comparison behind it is an ordering.
  The combinators below build such comparisons from smaller ones, which is how the dpkg and
  rpm comparators are shown to be orderings.
\<close>

section \<open>The interface\<close>

locale three_way =
  fixes cmp :: "'a \<Rightarrow> 'a \<Rightarrow> int"
    and ok :: "'a \<Rightarrow> bool"
  assumes swap: "ok a \<Longrightarrow> ok b \<Longrightarrow> cmp b a = - cmp a b"
    and le_trans: "ok a \<Longrightarrow> ok b \<Longrightarrow> ok c \<Longrightarrow> cmp a b \<le> 0 \<Longrightarrow> cmp b c \<le> 0 \<Longrightarrow> cmp a c \<le> 0"
begin

lemma same: "ok a \<Longrightarrow> cmp a a = 0"
  using swap [of a a] by simp

lemma le_total: "ok a \<Longrightarrow> ok b \<Longrightarrow> cmp a b \<le> 0 \<or> cmp b a \<le> 0"
  using swap [of a b] by linarith

lemma lt_le_trans: "ok a \<Longrightarrow> ok b \<Longrightarrow> ok c \<Longrightarrow> cmp a b < 0 \<Longrightarrow> cmp b c \<le> 0 \<Longrightarrow> cmp a c < 0"
  using le_trans [of b c a] swap [of a b] swap [of a c] by force

lemma le_lt_trans: "ok a \<Longrightarrow> ok b \<Longrightarrow> ok c \<Longrightarrow> cmp a b \<le> 0 \<Longrightarrow> cmp b c < 0 \<Longrightarrow> cmp a c < 0"
  using le_trans [of c a b] swap [of b c] swap [of a c] by force

lemma eq_trans:
  assumes "ok a" "ok b" "ok c" "cmp a b = 0" "cmp b c = 0"
  shows "cmp a c = 0"
proof -
  have "cmp a c \<le> 0" using le_trans [of a b c] assms by simp
  moreover have "cmp c a \<le> 0" using le_trans [of c b a] swap [of a b] swap [of b c] assms by simp
  ultimately show ?thesis using swap [of a c] assms by simp
qed

text \<open>An equal version can stand for another one in every comparison.\<close>

lemma eq_cong:
  assumes "ok a" "ok b" "ok c" "cmp a b = 0"
  shows "cmp a c < 0 \<longleftrightarrow> cmp b c < 0"
    and "cmp a c \<le> 0 \<longleftrightarrow> cmp b c \<le> 0"
proof -
  have ba: "cmp b a = 0" using assms swap [of a b] by simp
  show "cmp a c < 0 \<longleftrightarrow> cmp b c < 0"
    using le_lt_trans [of b a c] le_lt_trans [of a b c] assms ba by linarith
  show "cmp a c \<le> 0 \<longleftrightarrow> cmp b c \<le> 0"
    using le_trans [of b a c] le_trans [of a b c] assms ba by linarith
qed

end

section \<open>Building comparisons\<close>

text \<open>\<open>if c := f(); c != 0 { return c }; return g()\<close>.\<close>

definition then_cmp :: "int \<Rightarrow> int \<Rightarrow> int" where
  "then_cmp c d = (if c \<noteq> 0 then c else d)"

lemma then_cmp_simps [simp]: "then_cmp 0 d = d" "c \<noteq> 0 \<Longrightarrow> then_cmp c d = c"
  by (simp_all add: then_cmp_def)

lemma three_way_pullback: "three_way c p \<Longrightarrow> three_way (\<lambda>x y. c (f x) (f y)) (\<lambda>x. p (f x))"
  unfolding three_way_def by blast

lemma three_way_weaken: "three_way c p \<Longrightarrow> (\<And>x. q x \<Longrightarrow> p x) \<Longrightarrow> three_way c q"
  unfolding three_way_def by blast

lemma three_way_cong:
  assumes "three_way c p" and eq: "\<And>x y. p x \<Longrightarrow> p y \<Longrightarrow> d x y = c x y"
  shows "three_way d p"
proof (rule three_way.intro)
  show "d b a = - d a b" if "p a" "p b" for a b
    using three_way.swap [OF assms(1), of a b] eq that by simp
  show "d x z \<le> 0" if "p x" "p y" "p z" "d x y \<le> 0" "d y z \<le> 0" for x y z
    using three_way.le_trans [OF assms(1), of x y z] eq that by simp
qed

lemma three_way_then:
  assumes "three_way c p" and "three_way d p"
  shows "three_way (\<lambda>x y. then_cmp (c x y) (d x y)) p"
proof -
  note C = assms(1) and D = assms(2)
  show ?thesis
  proof (rule three_way.intro)
    fix a b assume "p a" "p b"
    then show "then_cmp (c b a) (d b a) = - then_cmp (c a b) (d a b)"
      using three_way.swap [OF C, of a b] three_way.swap [OF D, of a b] by (simp add: then_cmp_def)
  next
    fix x y z assume p: "p x" "p y" "p z"
      and 1: "then_cmp (c x y) (d x y) \<le> 0" and 2: "then_cmp (c y z) (d y z) \<le> 0"
    then have le: "c x y \<le> 0" "c y z \<le> 0" by (auto simp: then_cmp_def split: if_splits)
    show "then_cmp (c x z) (d x z) \<le> 0"
    proof (cases "c x y < 0 \<or> c y z < 0")
      case True
      then have "c x z < 0"
        using three_way.lt_le_trans [OF C, of x y z] three_way.le_lt_trans [OF C, of x y z] p le by blast
      then show ?thesis by simp
    next
      case False
      with le have z: "c x y = 0" "c y z = 0" by auto
      then have "c x z = 0" using three_way.eq_trans [OF C, of x y z] p by blast
      moreover have "d x z \<le> 0" using three_way.le_trans [OF D, of x y z] p 1 2 z by simp
      ultimately show ?thesis by simp
    qed
  qed
qed

text \<open>Comparing lists element by element; a proper prefix is smaller.\<close>

fun lexList :: "('a \<Rightarrow> 'a \<Rightarrow> int) \<Rightarrow> 'a list \<Rightarrow> 'a list \<Rightarrow> int" where
  "lexList c [] [] = 0"
| "lexList c [] (y # ys) = - 1"
| "lexList c (x # xs) [] = 1"
| "lexList c (x # xs) (y # ys) = then_cmp (c x y) (lexList c xs ys)"

lemma lexList_swap:
  assumes C: "three_way c p"
  shows "list_all p xs \<Longrightarrow> list_all p ys \<Longrightarrow> lexList c ys xs = - lexList c xs ys"
proof (induction xs arbitrary: ys)
  case Nil
  then show ?case by (cases ys) simp_all
next
  case (Cons x xs)
  then show ?case
    using three_way.swap [OF C, of x "hd ys"] by (cases ys) (auto simp: then_cmp_def)
qed

lemma lexList_trans:
  assumes C: "three_way c p"
  shows "list_all p xs \<Longrightarrow> list_all p ys \<Longrightarrow> list_all p zs \<Longrightarrow>
    lexList c xs ys \<le> 0 \<Longrightarrow> lexList c ys zs \<le> 0 \<Longrightarrow> lexList c xs zs \<le> 0"
proof (induction xs arbitrary: ys zs)
  case Nil
  then show ?case by (cases zs) auto
next
  case (Cons x xs)
  from Cons.prems obtain y ys' where y: "ys = y # ys'" by (cases ys) auto
  with Cons.prems obtain z zs' where z: "zs = z # zs'" by (cases zs) auto
  have p: "p x" "p y" "p z" using Cons.prems y z by auto
  have le: "c x y \<le> 0" "c y z \<le> 0" using Cons.prems y z by (auto simp: then_cmp_def split: if_splits)
  show ?case
  proof (cases "c x y < 0 \<or> c y z < 0")
    case True
    then have "c x z < 0"
      using three_way.lt_le_trans [OF C, of x y z] three_way.le_lt_trans [OF C, of x y z] p le by blast
    then show ?thesis using z by simp
  next
    case False
    with le have e: "c x y = 0" "c y z = 0" by auto
    then have "c x z = 0" using three_way.eq_trans [OF C, of x y z] p by blast
    moreover have "lexList c xs zs' \<le> 0" using Cons y z e by auto
    ultimately show ?thesis using z by simp
  qed
qed

lemma three_way_lexList: "three_way c p \<Longrightarrow> three_way (lexList c) (list_all p)"
  by (rule three_way.intro) (auto intro: lexList_swap lexList_trans)

text \<open>
  Comparing integer lists as if both were followed by zeros for ever, which is what dpkg's
  end-of-string rank of 0 amounts to.
\<close>

fun padcmp :: "int list \<Rightarrow> int list \<Rightarrow> int" where
  "padcmp [] [] = 0"
| "padcmp [] (y # ys) = then_cmp (sgn (0 - y)) (padcmp [] ys)"
| "padcmp (x # xs) [] = then_cmp (sgn (x - 0)) (padcmp xs [])"
| "padcmp (x # xs) (y # ys) = then_cmp (sgn (x - y)) (padcmp xs ys)"

definition hd0 :: "int list \<Rightarrow> int" where
  "hd0 xs = (case xs of [] \<Rightarrow> 0 | x # _ \<Rightarrow> x)"

lemma hd0_simps [simp]: "hd0 [] = 0" "hd0 (x # xs) = x"
  by (simp_all add: hd0_def)

lemma padcmp_unfold: "padcmp xs ys = then_cmp (sgn (hd0 xs - hd0 ys)) (padcmp (tl xs) (tl ys))"
  by (cases xs; cases ys) simp_all

lemma padcmp_swap: "padcmp ys xs = - padcmp xs ys"
  by (induction xs ys rule: padcmp.induct) (auto simp: then_cmp_def sgn_if)

lemma padcmp_trans: "padcmp xs ys \<le> 0 \<Longrightarrow> padcmp ys zs \<le> 0 \<Longrightarrow> padcmp xs zs \<le> 0"
proof (induction "length xs + length ys + length zs" arbitrary: xs ys zs rule: less_induct)
  case less
  show ?case
  proof (cases "xs = [] \<and> ys = [] \<and> zs = []")
    case True
    then show ?thesis by simp
  next
    case False
    then have "length (tl xs) + length (tl ys) + length (tl zs) < length xs + length ys + length zs"
      by (cases xs; cases ys; cases zs) auto
    note IH = less.hyps [OF this]
    show ?thesis
      using less.prems IH padcmp_unfold [of xs ys] padcmp_unfold [of ys zs] padcmp_unfold [of xs zs]
      by (simp add: then_cmp_def sgn_if split: if_splits)
  qed
qed

interpretation padded: three_way padcmp "\<lambda>_. True"
  by unfold_locales (simp_all add: padcmp_swap [symmetric] padcmp_trans)

lemma padcmp_refl [simp]: "padcmp xs xs = 0"
  by (rule padded.same) simp

lemma padcmp_append: "padcmp (us @ xs) (us @ ys) = padcmp xs ys"
  by (induction us) simp_all

interpretation int_cmp: three_way "\<lambda>x y. sgn (x - y :: int)" "\<lambda>_. True"
  by unfold_locales (auto simp: sgn_if split: if_splits)

text \<open>\<open>bytes.Compare\<close>: lexicographic by byte value.\<close>

definition bytes_Compare :: "string \<Rightarrow> string \<Rightarrow> int" where
  "bytes_Compare = lexList (\<lambda>x y. sgn (byte x - byte y))"

lemma three_way_bytes: "three_way bytes_Compare (\<lambda>_. True)"
proof -
  have "three_way (\<lambda>x y. sgn (byte x - byte y)) (\<lambda>_. True)"
    using three_way_pullback [OF int_cmp.three_way_axioms, of byte] by simp
  from three_way_lexList [OF this] show ?thesis
    unfolding bytes_Compare_def by (rule three_way_weaken) (simp add: list_all_iff)
qed

interpretation bytes_cmp: three_way bytes_Compare "\<lambda>_. True"
  by (rule three_way_bytes)

lemma bytes_Compare_range: "bytes_Compare s t \<in> {- 1, 0, 1}"
  unfolding bytes_Compare_def
  by (induction "\<lambda>x y. sgn (byte x - byte y)" s t rule: lexList.induct) (auto simp: then_cmp_def sgn_if)

lemma bytes_Compare_eq_0: "bytes_Compare s t = 0 \<longleftrightarrow> s = t"
  unfolding bytes_Compare_def
  by (induction "\<lambda>x y. sgn (byte x - byte y)" s t rule: lexList.induct) (auto simp: then_cmp_def sgn_if)

end
