(* ===== verification/Version_Dpkg.thy ===== *)
theory Version_Dpkg
  imports Three_Way
begin

text \<open>
  \<open>internal/version/dpkg.go\<close>: the Debian comparator. The definitions follow the Go loops on
  the suffixes still to be read. The theory then gives the meaning of a version part as a
  list of integers (\<open>vkey\<close>), proves that the loops compare exactly these lists, padded with
  zeros, and derives that the comparator is an ordering as long as epochs stay inside
  \<open>int64\<close>. The Go \<open>int\<close> of the epoch is kept at 64 bits because it can overflow.
\<close>

section \<open>The code\<close>

definition sign :: "int \<Rightarrow> int" where
  "sign n = (if n < 0 then - 1 else if n > 0 then 1 else 0)"

definition compareInt :: "int64 \<Rightarrow> int64 \<Rightarrow> int" where
  "compareInt a b = sign (sint (a - b))"

text \<open>\<open>order\<close>: the collating rank of one byte of a non-digit run.\<close>

definition order_byte :: "char \<Rightarrow> int" where
  "order_byte c =
     (if isDigit c then 0
      else if isLower c \<or> isUpper c then byte c
      else if c = CHR ''~'' then - 1
      else byte c + 256)"

fun atoiOr0_loop :: "int64 \<Rightarrow> string \<Rightarrow> int64" where
  "atoiOr0_loop n [] = n"
| "atoiOr0_loop n (c # s) =
     (if \<not> isDigit c then n else atoiOr0_loop (n * 10 + word_of_nat (digitVal c)) s)"

definition atoiOr0 :: "string \<Rightarrow> int64" where
  "atoiOr0 s = atoiOr0_loop 0 s"

definition splitDpkg :: "string \<Rightarrow> int64 \<times> string \<times> string" where
  "splitDpkg v0 =
     (let v = TrimSpace v0;
          (epoch, v) = (case cutByte (CHR '':'') v of
                          Some (e, rest) \<Rightarrow> (atoiOr0 e, rest)
                        | None \<Rightarrow> (0, v))
      in case cutLastByte (CHR ''-'') v of
           Some (upstream, revision) \<Rightarrow> (epoch, upstream, revision)
         | None \<Rightarrow> (epoch, v, []))"

text \<open>
  The loop over a non-digit run: an early return, or the two suffixes it stops at.
  \<open>headRank\<close> is the \<open>ac\<close> and \<open>bc\<close> of one iteration.
\<close>

definition headRank :: "string \<Rightarrow> int" where
  "headRank s = (if s \<noteq> [] then order_byte (hd s) else 0)"

definition startsDigit :: "string \<Rightarrow> bool" where
  "startsDigit s \<longleftrightarrow> s \<noteq> [] \<and> isDigit (hd s)"

definition startsNonDigit :: "string \<Rightarrow> bool" where
  "startsNonDigit s \<longleftrightarrow> s \<noteq> [] \<and> \<not> isDigit (hd s)"

lemma starts_simps [simp]:
  "\<not> startsDigit []" "startsDigit (c # s) \<longleftrightarrow> isDigit c"
  "\<not> startsNonDigit []" "startsNonDigit (c # s) \<longleftrightarrow> \<not> isDigit c"
  "headRank [] = 0" "headRank (c # s) = order_byte c"
  by (simp_all add: startsDigit_def startsNonDigit_def headRank_def)

function nondigit_loop :: "string \<Rightarrow> string \<Rightarrow> int + string \<times> string" where
  "nondigit_loop a b =
     (if startsNonDigit a \<or> startsNonDigit b then
        let ac = headRank a; bc = headRank b
        in if ac \<noteq> bc then Inl (sign (ac - bc)) else nondigit_loop (tl a) (tl b)
      else Inr (a, b))"
  by pat_completeness auto
termination
  by (relation "measure (\<lambda>(a, b). length a + length b)") (auto simp: startsNonDigit_def neq_Nil_conv)

lemma nondigit_loop_simps:
  "\<not> startsNonDigit a \<Longrightarrow> \<not> startsNonDigit b \<Longrightarrow> nondigit_loop a b = Inr (a, b)"
  "startsNonDigit a \<or> startsNonDigit b \<Longrightarrow> headRank a \<noteq> headRank b \<Longrightarrow>
     nondigit_loop a b = Inl (sign (headRank a - headRank b))"
  "startsNonDigit a \<or> startsNonDigit b \<Longrightarrow> headRank a = headRank b \<Longrightarrow>
     nondigit_loop a b = nondigit_loop (tl a) (tl b)"
  by (subst nondigit_loop.simps; simp)+

declare nondigit_loop.simps [simp del]

definition skipZeros :: "string \<Rightarrow> string" where
  "skipZeros s = dropWhile (\<lambda>c. c = CHR ''0'') s"

text \<open>The loop over the common part of two digit runs, with \<open>firstDiff\<close>.\<close>

fun digit_loop :: "int \<Rightarrow> string \<Rightarrow> string \<Rightarrow> int \<times> string \<times> string" where
  "digit_loop firstDiff (x # a) (y # b) =
     (if isDigit x \<and> isDigit y
      then digit_loop (if firstDiff = 0 then byte x - byte y else firstDiff) a b
      else (firstDiff, x # a, y # b))"
| "digit_loop firstDiff a b = (firstDiff, a, b)"

text \<open>The lemmas the termination of the outer loop needs.\<close>

lemma nondigit_loop_Inr:
  "nondigit_loop a b = Inr (a', b') \<Longrightarrow>
     length a' \<le> length a \<and> length b' \<le> length b \<and>
     (a' = [] \<or> startsDigit a') \<and> (b' = [] \<or> startsDigit b') \<and>
     (length a' + length b' = length a + length b \<longrightarrow> a' = a \<and> b' = b)"
proof (induction a b rule: nondigit_loop.induct)
  case (1 a b)
  show ?case
  proof (cases "startsNonDigit a \<or> startsNonDigit b")
    case False
    with "1.prems" show ?thesis
      by (auto simp: nondigit_loop_simps startsDigit_def startsNonDigit_def)
  next
    case True
    with "1.prems" have e: "headRank a = headRank b"
      using nondigit_loop_simps(2) [of a b] by auto
    with True "1.prems" have r: "nondigit_loop (tl a) (tl b) = Inr (a', b')"
      by (simp add: nondigit_loop_simps)
    have "length (tl a) + length (tl b) < length a + length b"
      using True by (auto simp: startsNonDigit_def neq_Nil_conv)
    with "1.IH" [OF True refl refl] r e show ?thesis by auto
  qed
qed

lemma skipZeros_length: "skipZeros s = s \<or> length (skipZeros s) < length s"
  by (cases s) (auto simp: skipZeros_def less_Suc_eq_le length_dropWhile_le)

lemma digit_loop_length:
  "digit_loop d a b = (d', a', b') \<Longrightarrow> length a' \<le> length a \<and> length b' \<le> length b"
  by (induction d a b rule: digit_loop.induct) (auto split: if_splits)

lemma digit_loop_progress:
  "digit_loop d a b = (d', a', b') \<Longrightarrow> \<not> startsDigit a' \<Longrightarrow> \<not> startsDigit b' \<Longrightarrow>
     startsDigit a \<or> startsDigit b \<Longrightarrow> length a' + length b' < length a + length b"
  by (induction d a b rule: digit_loop.induct) (auto split: if_splits dest: digit_loop_length)

lemma verrevcmp_progress:
  assumes nd: "nondigit_loop a b = Inr (a1, b1)"
    and dl: "digit_loop 0 (skipZeros a1) (skipZeros b1) = (firstDiff, a2, b2)"
    and stop: "\<not> startsDigit a2" "\<not> startsDigit b2"
    and ne: "a \<noteq> [] \<or> b \<noteq> []"
  shows "length a2 + length b2 < length a + length b"
proof -
  have le: "length a2 \<le> length (skipZeros a1)" "length b2 \<le> length (skipZeros b1)"
    using digit_loop_length [OF dl] by auto
  consider "length a1 + length b1 < length a + length b" | "a1 = a" "b1 = b"
    using nondigit_loop_Inr [OF nd] by linarith
  then show ?thesis
  proof cases
    case 1
    with le skipZeros_length [of a1] skipZeros_length [of b1] show ?thesis by auto
  next
    case 2
    with nondigit_loop_Inr [OF nd] ne have st: "startsDigit a1 \<or> startsDigit b1" by auto
    show ?thesis
    proof (cases "skipZeros a1 = a1 \<and> skipZeros b1 = b1")
      case True
      with digit_loop_progress [OF dl stop] st 2 show ?thesis by simp
    next
      case False
      with le skipZeros_length [of a1] skipZeros_length [of b1] 2 show ?thesis by auto
    qed
  qed
qed

function verrevcmp :: "string \<Rightarrow> string \<Rightarrow> int" where
  "verrevcmp a b =
     (if a = [] \<and> b = [] then 0
      else case nondigit_loop a b of
        Inl r \<Rightarrow> r
      | Inr (a1, b1) \<Rightarrow>
          (case digit_loop 0 (skipZeros a1) (skipZeros b1) of
             (firstDiff, a2, b2) \<Rightarrow>
               if startsDigit a2 then 1
               else if startsDigit b2 then - 1
               else if firstDiff \<noteq> 0 then sign firstDiff
               else verrevcmp a2 b2))"
  by pat_completeness auto
termination
  by (relation "measure (\<lambda>(a, b). length a + length b)")
    (auto intro!: verrevcmp_progress [where firstDiff = 0])

declare verrevcmp.simps [simp del]

definition CompareDpkg :: "string \<Rightarrow> string \<Rightarrow> int" where
  "CompareDpkg a b =
     (case (splitDpkg a, splitDpkg b) of
        ((ea, ua, ra), (eb, ub, rb)) \<Rightarrow>
          let c = compareInt ea eb in
          if c \<noteq> 0 then c
          else let c = verrevcmp ua ub in
          if c \<noteq> 0 then c else verrevcmp ra rb)"

section \<open>What a version part means\<close>

text \<open>
  The reference: the ranks of a non-digit run, the end-of-run rank 0, the value of the digit
  run, and so on.
\<close>

abbreviation nonDigit :: "char \<Rightarrow> bool" where "nonDigit c \<equiv> \<not> isDigit c"

definition ndRun :: "string \<Rightarrow> string" where "ndRun s = takeWhile nonDigit s"
definition afterNd :: "string \<Rightarrow> string" where "afterNd s = dropWhile nonDigit s"
definition dgRun :: "string \<Rightarrow> string" where "dgRun s = takeWhile isDigit s"
definition afterDg :: "string \<Rightarrow> string" where "afterDg s = dropWhile isDigit s"

lemma afterDg_afterNd_less: "s \<noteq> [] \<Longrightarrow> length (afterDg (afterNd s)) < length s"
  by (cases s) (auto simp: afterDg_def afterNd_def less_Suc_eq_le intro: length_dropWhile_le
      order_trans [OF length_dropWhile_le length_dropWhile_le])

function vkey :: "string \<Rightarrow> int list" where
  "vkey s =
     (if s = [] then []
      else map order_byte (ndRun s) @ [0, int (numVal (dgRun (afterNd s)))]
           @ vkey (afterDg (afterNd s)))"
  by pat_completeness auto
termination
  by (relation "measure length") (simp_all add: afterDg_afterNd_less)

declare vkey.simps [simp del]

lemma sign_sgn: "sign n = sgn n"
  by (simp add: sign_def sgn_if)

lemma order_byte_nonzero: "nonDigit c \<Longrightarrow> order_byte c \<noteq> 0"
  using byte_bounds(1) [of c] unfolding order_byte_def isLower_def isUpper_def
  by (auto simp del: byte_bounds)

lemma order_byte_digit: "isDigit c \<Longrightarrow> order_byte c = 0"
  by (simp add: order_byte_def)

lemma order_byte_0: "order_byte c = 0 \<longleftrightarrow> isDigit c" "0 = order_byte c \<longleftrightarrow> isDigit c"
  using order_byte_nonzero [of c] order_byte_digit [of c] by auto

lemma padcmp_snoc0: "padcmp (xs @ [0]) ys = padcmp xs ys"
  by (induction xs ys rule: padcmp.induct) simp_all

lemma padcmp_00: "padcmp (0 # 0 # []) ys = padcmp [] ys"
  using padcmp_snoc0 [of "[0]" ys] padcmp_snoc0 [of "[]" ys] by simp

lemma vkey_unfold:
  "padcmp (vkey s) k =
     padcmp (map order_byte (ndRun s) @ [0, int (numVal (dgRun (afterNd s)))] @ vkey (afterDg (afterNd s))) k"
proof (cases "s = []")
  case True
  then show ?thesis by (simp add: vkey.simps ndRun_def afterNd_def dgRun_def afterDg_def padcmp_00)
qed (simp add: vkey.simps [of s])

text \<open>The non-digit loop stops early exactly where the rank lists differ.\<close>

lemma nondigit_loop_spec:
  "case nondigit_loop a b of
     Inl r \<Rightarrow> r \<noteq> 0 \<and> (\<forall>X Y. padcmp (map order_byte (ndRun a) @ 0 # X) (map order_byte (ndRun b) @ 0 # Y) = r)
   | Inr (a1, b1) \<Rightarrow> map order_byte (ndRun a) = map order_byte (ndRun b) \<and> a1 = afterNd a \<and> b1 = afterNd b"
proof (induction a b rule: nondigit_loop.induct)
  case (1 a b)
  show ?case
  proof (cases "startsNonDigit a \<or> startsNonDigit b")
    case False
    then have "ndRun a = []" "ndRun b = []" "afterNd a = a" "afterNd b = b"
      by (cases a; cases b; simp add: ndRun_def afterNd_def)+
    with False show ?thesis by (simp add: nondigit_loop_simps)
  next
    case True
    show ?thesis
    proof (cases "headRank a = headRank b")
      case False
      then have "padcmp (map order_byte (ndRun a) @ 0 # X) (map order_byte (ndRun b) @ 0 # Y)
          = sgn (headRank a - headRank b)" for X Y
        by (cases a; cases b) (auto simp: ndRun_def order_byte_digit sgn_0_0)
      with False True show ?thesis by (simp add: nondigit_loop_simps sign_sgn sgn_0_0)
    next
      case eq: True
      with True obtain x a' y b' where ab: "a = x # a'" "b = y # b'" "nonDigit x" "nonDigit y"
          "order_byte x = order_byte y"
        by (cases a; cases b) (auto simp: order_byte_0, (metis order_byte_0)+)
      then show ?thesis
        using "1.IH" [OF True refl refl] eq True
        by (simp add: nondigit_loop_simps ndRun_def afterNd_def split: sum.splits prod.splits)
    qed
  qed
qed

text \<open>Digit runs compare as numbers.\<close>

lemma numVal_skipZeros: "numVal (skipZeros s) = numVal s"
  by (induction s) (auto simp: skipZeros_def numVal_Cons digitVal_def)

lemma numVal_lead:
  assumes "list_all isDigit (c # s)" and "c \<noteq> CHR ''0''"
  shows "10 ^ length s \<le> numVal (c # s)"
proof -
  have "digitVal c \<noteq> 0"
    using assms digitVal_byte [of c] byte_inject [of c "CHR ''0''"] by (auto simp del: byte_inject)
  then have "1 * 10 ^ length s \<le> digitVal c * 10 ^ length s" by (intro mult_le_mono1) simp
  then show ?thesis unfolding numVal_Cons by linarith
qed

lemma numVal_longer:
  assumes "list_all isDigit a" "list_all isDigit b" "length b < length a" "hd a \<noteq> CHR ''0''"
  shows "numVal b < numVal a"
proof -
  obtain c s where a: "a = c # s" using assms by (cases a) auto
  have "numVal b < 10 ^ length b" using assms by (simp add: numVal_less)
  also have "\<dots> \<le> 10 ^ length s" using assms a by simp
  also have "\<dots> \<le> numVal a" using assms a numVal_lead [of c s] by simp
  finally show ?thesis .
qed

text \<open>Of two runs of equal length, the first differing digit decides.\<close>

lemma numVal_head_less:
  assumes "digitVal x < digitVal y" "length za = length zb" "list_all isDigit za"
  shows "numVal (x # za) < numVal (y # zb)"
proof -
  have "numVal (x # za) < Suc (digitVal x) * 10 ^ length za"
    using numVal_less [of za] assms by (simp add: numVal_Cons)
  also have "\<dots> \<le> digitVal y * 10 ^ length za" using assms by (intro mult_le_mono1) simp
  also have "\<dots> \<le> numVal (y # zb)" using assms by (simp add: numVal_Cons)
  finally show ?thesis .
qed

lemma numVal_Cons_sgn:
  assumes "length za = length zb" "list_all isDigit (x # za)" "list_all isDigit (y # zb)"
  shows "sgn (int (numVal (x # za)) - int (numVal (y # zb))) =
    then_cmp (sgn (byte x - byte y)) (sgn (int (numVal za) - int (numVal zb)))"
proof -
  have xy: "byte x - byte y = int (digitVal x) - int (digitVal y)"
    using assms by (simp add: digitVal_byte)
  show ?thesis
  proof (cases "digitVal x" "digitVal y" rule: linorder_cases)
    case less
    with assms xy numVal_head_less [of x y za zb] show ?thesis by (simp add: then_cmp_def)
  next
    case equal
    with assms xy show ?thesis by (simp add: numVal_Cons)
  next
    case greater
    with assms xy numVal_head_less [of y x zb za] show ?thesis by (simp add: then_cmp_def)
  qed
qed

lemma digit_loop_equal:
  "length za = length zb \<Longrightarrow> list_all isDigit za \<Longrightarrow> list_all isDigit zb \<Longrightarrow>
   \<not> startsDigit ra \<Longrightarrow> \<not> startsDigit rb \<Longrightarrow>
   \<exists>d'. digit_loop d (za @ ra) (zb @ rb) = (d', ra, rb) \<and>
     sgn d' = then_cmp (sgn d) (sgn (int (numVal za) - int (numVal zb)))"
proof (induction za zb arbitrary: d rule: list_induct2)
  case Nil
  then show ?case by (cases ra; cases rb) (auto simp: then_cmp_def)
next
  case (Cons x za y zb)
  define d1 where "d1 = (if d = 0 then byte x - byte y else d)"
  from Cons obtain d' where "digit_loop d1 (za @ ra) (zb @ rb) = (d', ra, rb)"
    "sgn d' = then_cmp (sgn d1) (sgn (int (numVal za) - int (numVal zb)))" by force
  moreover have "then_cmp (sgn d1) k = then_cmp (sgn d) (then_cmp (sgn (byte x - byte y)) k)" for k
    by (simp add: d1_def then_cmp_def sgn_0_0)
  ultimately show ?case
    using Cons.prems Cons.hyps numVal_Cons_sgn [of za zb x y] by (auto simp: d1_def)
qed

lemma digit_loop_longer:
  "length zb < length za \<Longrightarrow> list_all isDigit za \<Longrightarrow> list_all isDigit zb \<Longrightarrow>
   \<not> startsDigit ra \<Longrightarrow> \<not> startsDigit rb \<Longrightarrow>
   \<exists>d' a'. digit_loop d (za @ ra) (zb @ rb) = (d', a', rb) \<and> startsDigit a'"
proof (induction zb arbitrary: za d)
  case Nil
  then show ?case by (cases za; cases rb) auto
next
  case (Cons y zb)
  then show ?case by (cases za) auto
qed

lemma digit_loop_shorter:
  "length za < length zb \<Longrightarrow> list_all isDigit za \<Longrightarrow> list_all isDigit zb \<Longrightarrow>
   \<not> startsDigit ra \<Longrightarrow> \<not> startsDigit rb \<Longrightarrow>
   \<exists>d' b'. digit_loop d (za @ ra) (zb @ rb) = (d', ra, b') \<and> startsDigit b'"
proof (induction za arbitrary: zb d)
  case Nil
  then show ?case by (cases zb; cases ra) auto
next
  case (Cons x za)
  then show ?case by (cases zb) auto
qed

lemma skipZeros_digits:
  "list_all isDigit ds \<Longrightarrow> \<not> startsDigit r \<Longrightarrow>
     skipZeros (ds @ r) = skipZeros ds @ r \<and> list_all isDigit (skipZeros ds) \<and>
     (skipZeros ds \<noteq> [] \<longrightarrow> hd (skipZeros ds) \<noteq> CHR ''0'')"
proof (induction ds)
  case Nil
  then show ?case by (cases r) (auto simp: skipZeros_def isDigit_def)
qed (simp add: skipZeros_def)

text \<open>One round over two digit runs compares their values and moves past both.\<close>

lemma digit_round:
  assumes "digit_loop 0 (skipZeros a) (skipZeros b) = (d, a2, b2)"
  shows "startsDigit a2 \<Longrightarrow> numVal (dgRun b) < numVal (dgRun a)"
    and "\<not> startsDigit a2 \<Longrightarrow> startsDigit b2 \<Longrightarrow> numVal (dgRun a) < numVal (dgRun b)"
    and "\<not> startsDigit a2 \<Longrightarrow> \<not> startsDigit b2 \<Longrightarrow>
      sgn d = sgn (int (numVal (dgRun a)) - int (numVal (dgRun b))) \<and> a2 = afterDg a \<and> b2 = afterDg b"
proof -
  let ?za = "skipZeros (dgRun a)" and ?zb = "skipZeros (dgRun b)"
  have dg: "list_all isDigit (dgRun s)" "\<not> startsDigit (afterDg s)" "s = dgRun s @ afterDg s" for s
    using hd_dropWhile [of isDigit s]
    by (auto simp: dgRun_def afterDg_def startsDigit_def list_all_iff
        simp del: dropWhile_eq_Nil_conv dest: set_takeWhileD)
  note za = skipZeros_digits [OF dg(1) dg(2), of a] and zb = skipZeros_digits [OF dg(1) dg(2), of b]
  have eq: "digit_loop 0 (?za @ afterDg a) (?zb @ afterDg b) = (d, a2, b2)"
    using assms dg(3) [of a] dg(3) [of b] za zb by metis
  have num: "numVal ?za = numVal (dgRun a)" "numVal ?zb = numVal (dgRun b)"
    by (rule numVal_skipZeros)+
  consider (lt) "length ?za < length ?zb" | (gt) "length ?zb < length ?za" | (eq) "length ?za = length ?zb"
    by linarith
  then have "(startsDigit a2 \<longrightarrow> numVal (dgRun b) < numVal (dgRun a)) \<and>
    (\<not> startsDigit a2 \<longrightarrow> startsDigit b2 \<longrightarrow> numVal (dgRun a) < numVal (dgRun b)) \<and>
    (\<not> startsDigit a2 \<longrightarrow> \<not> startsDigit b2 \<longrightarrow>
      sgn d = sgn (int (numVal (dgRun a)) - int (numVal (dgRun b))) \<and> a2 = afterDg a \<and> b2 = afterDg b)"
  proof cases
    case lt
    then have "numVal ?za < numVal ?zb" using za zb by (intro numVal_longer) auto
    then show ?thesis using digit_loop_shorter [OF lt, of "afterDg a" "afterDg b" 0] eq za zb dg num by auto
  next
    case gt
    then have "numVal ?zb < numVal ?za" using za zb by (intro numVal_longer) auto
    then show ?thesis using digit_loop_longer [OF gt, of "afterDg a" "afterDg b" 0] eq za zb dg num by auto
  next
    case eq
    then show ?thesis
      using digit_loop_equal [OF eq, of "afterDg a" "afterDg b" 0] \<open>digit_loop 0 (?za @ afterDg a) (?zb @ afterDg b) = _\<close>
        za zb dg num by auto
  qed
  then show "startsDigit a2 \<Longrightarrow> numVal (dgRun b) < numVal (dgRun a)"
    and "\<not> startsDigit a2 \<Longrightarrow> startsDigit b2 \<Longrightarrow> numVal (dgRun a) < numVal (dgRun b)"
    and "\<not> startsDigit a2 \<Longrightarrow> \<not> startsDigit b2 \<Longrightarrow>
      sgn d = sgn (int (numVal (dgRun a)) - int (numVal (dgRun b))) \<and> a2 = afterDg a \<and> b2 = afterDg b"
    by blast+
qed

text \<open>One iteration of the outer loop, on the code's side and on the keys.\<close>

lemma vkey_round:
  "padcmp (vkey a) (vkey b) =
     padcmp (map order_byte (ndRun a) @ 0 # int (numVal (dgRun (afterNd a))) # vkey (afterDg (afterNd a)))
            (map order_byte (ndRun b) @ 0 # int (numVal (dgRun (afterNd b))) # vkey (afterDg (afterNd b)))"
  using vkey_unfold [of a] vkey_unfold [of b] padcmp_swap by (metis append_Cons append_Nil)

lemma vkey_round_Inr:
  "nondigit_loop a b = Inr (a1, b1) \<Longrightarrow>
   padcmp (vkey a) (vkey b) =
     then_cmp (sgn (int (numVal (dgRun a1)) - int (numVal (dgRun b1)))) (padcmp (vkey (afterDg a1)) (vkey (afterDg b1)))"
  using nondigit_loop_spec [of a b] vkey_round [of a b] by (simp add: padcmp_append)

lemma verrevcmp_Inr:
  "a \<noteq> [] \<or> b \<noteq> [] \<Longrightarrow> nondigit_loop a b = Inr (a1, b1) \<Longrightarrow>
   digit_loop 0 (skipZeros a1) (skipZeros b1) = (d, a2, b2) \<Longrightarrow>
   verrevcmp a b = (if startsDigit a2 then 1 else if startsDigit b2 then - 1
     else if d \<noteq> 0 then sign d else verrevcmp a2 b2)"
  by (auto simp: verrevcmp.simps [of a b])

text \<open>The comparator loop computes the padded comparison of the two keys.\<close>

lemma verrevcmp_vkey: "verrevcmp a b = padcmp (vkey a) (vkey b)"
proof (induction a b rule: verrevcmp.induct)
  case (1 a b)
  show ?case
  proof (cases "a = [] \<and> b = []")
    case True
    then show ?thesis by (simp add: verrevcmp.simps vkey.simps)
  next
    case ne: False
    show ?thesis
    proof (cases "nondigit_loop a b")
      case (Inl r)
      with nondigit_loop_spec [of a b] ne vkey_round [of a b] show ?thesis
        by (auto simp: verrevcmp.simps [of a b])
    next
      case (Inr ab)
      then obtain a1 b1 where ab: "nondigit_loop a b = Inr (a1, b1)" by (cases ab) auto
      obtain d a2 b2 where dl: "digit_loop 0 (skipZeros a1) (skipZeros b1) = (d, a2, b2)"
        by (metis prod_cases3)
      note key = vkey_round_Inr [OF ab] and round = digit_round [OF dl]
      have v: "verrevcmp a b = (if startsDigit a2 then 1 else if startsDigit b2 then - 1
          else if d \<noteq> 0 then sign d else verrevcmp a2 b2)"
        using ne ab dl by (intro verrevcmp_Inr) auto
      consider (gt) "startsDigit a2" | (lt) "\<not> startsDigit a2" "startsDigit b2"
        | (eq) "\<not> startsDigit a2" "\<not> startsDigit b2" "d = 0"
        | (ne) "\<not> startsDigit a2" "\<not> startsDigit b2" "d \<noteq> 0" by blast
      then show ?thesis
      proof cases
        case eq
        then have "verrevcmp a2 b2 = padcmp (vkey a2) (vkey b2)"
          using "1.IH" ne ab dl by auto
        with eq round(3) v key show ?thesis by (auto simp: sgn_0_0)
      next
        case ne
        with round(3) v key show ?thesis by (auto simp: sign_sgn then_cmp_def sgn_0_0)
      qed (use round v key in simp_all)
    qed
  qed
qed

section \<open>Epochs\<close>

definition epochVal :: "string \<Rightarrow> nat" where
  "epochVal v = (case cutByte (CHR '':'') (TrimSpace v) of
     Some (e, _) \<Rightarrow> numVal (dgRun e) | None \<Rightarrow> 0)"

text \<open>The epoch the string spells is one \<open>int64\<close> can hold.\<close>

definition epoch_fits :: "string \<Rightarrow> bool" where
  "epoch_fits v \<longleftrightarrow> epochVal v < 2 ^ 63"

definition dpkgUpstream :: "string \<Rightarrow> string" where
  "dpkgUpstream v = fst (snd (splitDpkg v))"

definition dpkgRevision :: "string \<Rightarrow> string" where
  "dpkgRevision v = snd (snd (splitDpkg v))"

lemma atoiOr0_loop_eq:
  "atoiOr0_loop n s = n * 10 ^ length (dgRun s) + word_of_nat (numVal (dgRun s))"
  by (induction n s rule: atoiOr0_loop.induct)
    (auto simp: dgRun_def numVal_Cons algebra_simps)

lemma epoch_word: "fst (splitDpkg v) = word_of_nat (epochVal v)"
proof (cases "cutByte (CHR '':'') (TrimSpace v)")
  case None
  then show ?thesis by (simp add: splitDpkg_def epochVal_def Let_def split: option.splits prod.splits)
next
  case (Some er)
  then show ?thesis
    by (cases er) (simp add: splitDpkg_def epochVal_def atoiOr0_def atoiOr0_loop_eq Let_def split: option.splits prod.splits)
qed

lemma compareInt_small:
  assumes "m < 2 ^ 63" and "n < 2 ^ 63"
  shows "compareInt (word_of_nat m) (word_of_nat n) = sgn (int m - int n)"
proof -
  have "word_of_nat m - word_of_nat n = (word_of_int (int m - int n) :: int64)" by simp
  then have "sint (word_of_nat m - word_of_nat n :: int64) = signed_take_bit 63 (int m - int n)"
    by (simp only: signed_of_int) simp
  also have "\<dots> = int m - int n"
    by (rule signed_take_bit_int_eq_self) (use assms in simp_all)
  finally show ?thesis by (simp add: compareInt_def sign_sgn)
qed

lemma CompareDpkg_parts:
  "CompareDpkg a b = then_cmp (compareInt (fst (splitDpkg a)) (fst (splitDpkg b)))
     (then_cmp (verrevcmp (dpkgUpstream a) (dpkgUpstream b)) (verrevcmp (dpkgRevision a) (dpkgRevision b)))"
  by (cases "splitDpkg a"; cases "splitDpkg b")
    (simp add: CompareDpkg_def Let_def then_cmp_def dpkgUpstream_def dpkgRevision_def)

lemma CompareDpkg_eq:
  "epoch_fits a \<Longrightarrow> epoch_fits b \<Longrightarrow>
   CompareDpkg a b = then_cmp (sgn (int (epochVal a) - int (epochVal b)))
     (then_cmp (padcmp (vkey (dpkgUpstream a)) (vkey (dpkgUpstream b)))
       (padcmp (vkey (dpkgRevision a)) (vkey (dpkgRevision b))))"
  unfolding CompareDpkg_parts epoch_word verrevcmp_vkey
  by (subst compareInt_small) (simp_all add: epoch_fits_def)

lemma dpkg_three_way: "three_way CompareDpkg epoch_fits"
proof (rule three_way_cong)
  let ?e = "\<lambda>a b. sgn (int (epochVal a) - int (epochVal b))"
  let ?u = "\<lambda>a b. padcmp (vkey (dpkgUpstream a)) (vkey (dpkgUpstream b))"
  let ?r = "\<lambda>a b. padcmp (vkey (dpkgRevision a)) (vkey (dpkgRevision b))"
  have "three_way ?e (\<lambda>_. True)"
    using three_way_pullback [OF int_cmp.three_way_axioms, of "\<lambda>v. int (epochVal v)"] by simp
  moreover have "three_way ?u (\<lambda>_. True)"
    using three_way_pullback [OF padded.three_way_axioms, of "\<lambda>v. vkey (dpkgUpstream v)"] by simp
  moreover have "three_way ?r (\<lambda>_. True)"
    using three_way_pullback [OF padded.three_way_axioms, of "\<lambda>v. vkey (dpkgRevision v)"] by simp
  ultimately have "three_way (\<lambda>a b. then_cmp (?e a b) (then_cmp (?u a b) (?r a b))) (\<lambda>_. True)"
    by (intro three_way_then)
  then show "three_way (\<lambda>a b. then_cmp (?e a b) (then_cmp (?u a b) (?r a b))) epoch_fits"
    by (rule three_way_weaken) simp
qed (rule CompareDpkg_eq)

interpretation dpkg: three_way CompareDpkg epoch_fits
  by (rule dpkg_three_way)

lemmas dpkg_eval = CompareDpkg_parts splitDpkg_def dpkgUpstream_def dpkgRevision_def graphic_def
  cutLastByte_def atoiOr0_def isDigit_def digitVal_def compareInt_def verrevcmp.simps nondigit_loop.simps
  startsDigit_def startsNonDigit_def headRank_def skipZeros_def order_byte_def isLower_def isUpper_def
  sign_def then_cmp_def

end
