(* ===== verification/Version_Rpm.thy ===== *)
theory Version_Rpm
  imports Version_Dpkg
begin

text \<open>
  \<open>internal/version/rpm.go\<close>: the rpm comparator, on the suffixes still to be read. The
  reference is a token list (\<open>rtokens\<close>): separators vanish, a tilde sorts before the end of
  the string, a caret after it, an alphabetic segment after that and a numeric one last. The
  loop is proved to compare these token lists, so it is an ordering on all byte strings.
\<close>

section \<open>The code\<close>

definition rpmAlpha :: "char \<Rightarrow> bool" where
  "rpmAlpha c \<longleftrightarrow> isLower c \<or> isUpper c"

definition rpmAlnum :: "char \<Rightarrow> bool" where
  "rpmAlnum c \<longleftrightarrow> rpmAlpha c \<or> isDigit c"

definition stripLeadingZeros :: "string \<Rightarrow> string" where
  "stripLeadingZeros b = dropWhile (\<lambda>c. c = CHR ''0'') b"

text \<open>The two loops that skip separators.\<close>

definition rpmSep :: "char \<Rightarrow> bool" where
  "rpmSep c \<longleftrightarrow> \<not> rpmAlnum c \<and> c \<noteq> CHR ''~'' \<and> c \<noteq> CHR ''^''"

definition skipSep :: "string \<Rightarrow> string" where
  "skipSep s = dropWhile rpmSep s"

definition startsWith :: "char \<Rightarrow> string \<Rightarrow> bool" where
  "startsWith b s \<longleftrightarrow> s \<noteq> [] \<and> hd s = b"

lemma startsWith_simps [simp]: "\<not> startsWith b []" "startsWith b (c # s) \<longleftrightarrow> c = b"
  by (simp_all add: startsWith_def)

text \<open>The \<open>switch\<close> after the loop, for the suffixes the loop stopped at.\<close>

definition rpmTail :: "string \<Rightarrow> string \<Rightarrow> int" where
  "rpmTail one two = (if one = [] \<and> two = [] then 0 else if one = [] then - 1 else 1)"

text \<open>
  What one iteration decides once both suffixes start with a letter or a digit: an early
  return, or the suffixes after the two segments.
\<close>

definition rpmSegment :: "string \<Rightarrow> string \<Rightarrow> int + string \<times> string" where
  "rpmSegment one two =
     (let isnum = isDigit (hd one);
          p = (if isnum then isDigit else rpmAlpha);
          segOne = takeWhile p one; segTwo = takeWhile p two;
          rest = (dropWhile p one, dropWhile p two)
      in if segTwo = [] then Inl (if isnum then 1 else - 1)
         else let segOne = (if isnum then stripLeadingZeros segOne else segOne);
                  segTwo = (if isnum then stripLeadingZeros segTwo else segTwo)
         in if isnum \<and> length segOne > length segTwo then Inl 1
            else if isnum \<and> length segTwo > length segOne then Inl (- 1)
            else let rc = bytes_Compare segOne segTwo
                 in if rc \<noteq> 0 then Inl (sign rc) else Inr rest)"

lemma rpmSegment_length:
  "one \<noteq> [] \<Longrightarrow> rpmAlnum (hd one) \<Longrightarrow> rpmSegment one two = Inr (a, b) \<Longrightarrow>
     length a < length one \<and> length b \<le> length two"
  by (cases one)
    (auto simp: rpmSegment_def Let_def rpmAlnum_def less_Suc_eq_le length_dropWhile_le split: if_splits)

lemma skipSep_length: "length (skipSep s) \<le> length s"
  by (simp add: skipSep_def length_dropWhile_le)

lemma skipSep_hd: "skipSep s \<noteq> [] \<Longrightarrow> \<not> rpmSep (hd (skipSep s))"
  unfolding skipSep_def by (rule hd_dropWhile) (simp add: dropWhile_eq_Nil_conv)

function rpmLoop :: "string \<Rightarrow> string \<Rightarrow> int" where
  "rpmLoop one0 two0 =
     (if one0 = [] \<and> two0 = [] then rpmTail one0 two0
      else
        let one = skipSep one0; two = skipSep two0;
            oneTilde = startsWith (CHR ''~'') one; twoTilde = startsWith (CHR ''~'') two;
            oneCaret = startsWith (CHR ''^'') one; twoCaret = startsWith (CHR ''^'') two
        in if oneTilde \<or> twoTilde then
             (if \<not> oneTilde then 1 else if \<not> twoTilde then - 1 else rpmLoop (tl one) (tl two))
           else if oneCaret \<or> twoCaret then
             (if one = [] then - 1 else if two = [] then 1
              else if \<not> oneCaret then 1 else if \<not> twoCaret then - 1
              else rpmLoop (tl one) (tl two))
           else if one = [] \<or> two = [] then rpmTail one two
           else case rpmSegment one two of
                  Inl r \<Rightarrow> r
                | Inr (one', two') \<Rightarrow> rpmLoop one' two')"
  by pat_completeness auto
termination
proof (relation "measure (\<lambda>(a, b). length a + length b)", goal_cases)
  case 1
  show ?case by simp
next
  case (2 a b)
  then have "skipSep a \<noteq> []" by (auto simp: startsWith_def)
  then have "length (tl (skipSep a)) < length a"
    using skipSep_length [of a] by (cases "skipSep a") auto
  moreover have "length (tl (skipSep b)) \<le> length b" using skipSep_length [of b] by simp
  ultimately show ?case using 2 by simp
next
  case (3 a b)
  then have "skipSep a \<noteq> []" by (auto simp: startsWith_def)
  then have "length (tl (skipSep a)) < length a"
    using skipSep_length [of a] by (cases "skipSep a") auto
  moreover have "length (tl (skipSep b)) \<le> length b" using skipSep_length [of b] by simp
  ultimately show ?case using 3 by simp
next
  case (4 a b)
  then have "rpmAlnum (hd (skipSep a))"
    using skipSep_hd [of a] by (auto simp: rpmSep_def startsWith_def)
  with 4 skipSep_length [of a] skipSep_length [of b] show ?case
    by (auto dest!: rpmSegment_length)
qed

declare rpmLoop.simps [simp del]

definition CompareRPM :: "string \<Rightarrow> string \<Rightarrow> int" where
  "CompareRPM a b = (if a = b then 0 else rpmLoop a b)"

section \<open>What an rpm version means\<close>

datatype rtok = RTilde | REnd | RCaret | RAlpha string | RNum nat

fun tokRank :: "rtok \<Rightarrow> int" where
  "tokRank RTilde = 0" | "tokRank REnd = 1" | "tokRank RCaret = 2"
| "tokRank (RAlpha _) = 3" | "tokRank (RNum _) = 4"

fun tokText :: "rtok \<Rightarrow> string" where
  "tokText (RAlpha s) = s" | "tokText _ = []"

fun tokNum :: "rtok \<Rightarrow> int" where
  "tokNum (RNum n) = int n" | "tokNum _ = 0"

definition tokcmp :: "rtok \<Rightarrow> rtok \<Rightarrow> int" where
  "tokcmp s t = then_cmp (sgn (tokRank s - tokRank t))
     (then_cmp (bytes_Compare (tokText s) (tokText t)) (sgn (tokNum s - tokNum t)))"

definition headTok :: "string \<Rightarrow> rtok" where
  "headTok s = (if isDigit (hd s) then RNum (numVal (takeWhile isDigit s))
                else RAlpha (takeWhile rpmAlpha s))"

definition afterTok :: "string \<Rightarrow> string" where
  "afterTok s = dropWhile (if isDigit (hd s) then isDigit else rpmAlpha) s"

lemma skipSep_head_alnum:
  "skipSep s = c # t \<Longrightarrow> c \<noteq> CHR ''~'' \<Longrightarrow> c \<noteq> CHR ''^'' \<Longrightarrow> rpmAlnum c"
  using skipSep_hd [of s] by (simp add: rpmSep_def)

lemma skipSep_tail: "skipSep s = c # t \<Longrightarrow> length t < length s"
  using skipSep_length [of s] by simp

lemma afterTok_less: "s \<noteq> [] \<Longrightarrow> rpmAlnum (hd s) \<Longrightarrow> length (afterTok s) < length s"
  by (cases s) (auto simp: afterTok_def rpmAlnum_def less_Suc_eq_le length_dropWhile_le)

function rtokens :: "string \<Rightarrow> rtok list" where
  "rtokens s =
     (case skipSep s of
        [] \<Rightarrow> [REnd]
      | c # t \<Rightarrow> if c = CHR ''~'' then RTilde # rtokens t
                 else if c = CHR ''^'' then RCaret # rtokens t
                 else headTok (c # t) # rtokens (afterTok (c # t)))"
  by pat_completeness auto
termination
proof (relation "measure length", goal_cases)
  case (4 s c t)
  with skipSep_length [of s] afterTok_less [of "c # t"] skipSep_head_alnum [of s c t] show ?case by simp
qed (auto dest: skipSep_tail)

declare rtokens.simps [simp del]

lemma tokcmp_three_way: "three_way tokcmp (\<lambda>_. True)"
proof -
  have "three_way (\<lambda>s t. sgn (tokRank s - tokRank t)) (\<lambda>_. True)"
    using three_way_pullback [OF int_cmp.three_way_axioms, of tokRank] by simp
  moreover have "three_way (\<lambda>s t. bytes_Compare (tokText s) (tokText t)) (\<lambda>_. True)"
    using three_way_pullback [OF bytes_cmp.three_way_axioms, of tokText] by simp
  moreover have "three_way (\<lambda>s t. sgn (tokNum s - tokNum t)) (\<lambda>_. True)"
    using three_way_pullback [OF int_cmp.three_way_axioms, of tokNum] by simp
  ultimately show ?thesis unfolding tokcmp_def [abs_def] by (intro three_way_then)
qed

text \<open>Zero-stripped digit runs compare by length, then by bytes, as their values do.\<close>

lemma digits_bytes_Compare:
  "length x = length y \<Longrightarrow> list_all isDigit x \<Longrightarrow> list_all isDigit y \<Longrightarrow>
     bytes_Compare x y = sgn (int (numVal x) - int (numVal y))"
proof (induction x y rule: list_induct2)
  case (Cons a x b y)
  with numVal_Cons_sgn [of x y a b] show ?case by (simp add: bytes_Compare_def)
qed (simp add: bytes_Compare_def)

lemma stripLeadingZeros_skipZeros: "stripLeadingZeros = skipZeros"
  by (simp add: stripLeadingZeros_def skipZeros_def fun_eq_iff)

lemma digits_strip:
  assumes "list_all isDigit x" and "list_all isDigit y"
  shows "(if length (stripLeadingZeros x) > length (stripLeadingZeros y) then 1
      else if length (stripLeadingZeros y) > length (stripLeadingZeros x) then - 1
      else bytes_Compare (stripLeadingZeros x) (stripLeadingZeros y)) = sgn (int (numVal x) - int (numVal y))"
proof -
  let ?x = "skipZeros x" and ?y = "skipZeros y"
  note x = skipZeros_digits [OF assms(1), of "[]", simplified] and y = skipZeros_digits [OF assms(2), of "[]", simplified]
  have n: "numVal ?x = numVal x" "numVal ?y = numVal y" by (rule numVal_skipZeros)+
  have gt: "length ?y < length ?x \<Longrightarrow> numVal y < numVal x"
    using numVal_longer [of ?x ?y] x y n by fastforce
  have lt: "length ?x < length ?y \<Longrightarrow> numVal x < numVal y"
    using numVal_longer [of ?y ?x] x y n by fastforce
  have eq: "length ?x = length ?y \<Longrightarrow> bytes_Compare ?x ?y = sgn (int (numVal x) - int (numVal y))"
    using digits_bytes_Compare [of ?x ?y] x y n by simp
  show ?thesis unfolding stripLeadingZeros_skipZeros
    using gt lt eq by (cases "length ?x" "length ?y" rule: linorder_cases) simp_all
qed

lemma digit_not_alpha: "isDigit c \<Longrightarrow> \<not> rpmAlpha c"
  by (auto simp: isDigit_def rpmAlpha_def isLower_def isUpper_def)

lemma bytes_Compare_sign: "sign (bytes_Compare s t) = bytes_Compare s t"
  using bytes_Compare_range [of s t] by (auto simp: sign_def)

text \<open>One segment comparison is one token comparison.\<close>

lemma rpmSegment_spec:
  assumes "one \<noteq> []" "two \<noteq> []" "rpmAlnum (hd one)" "rpmAlnum (hd two)"
  shows "rpmSegment one two =
    (if tokcmp (headTok one) (headTok two) \<noteq> 0 then Inl (tokcmp (headTok one) (headTok two))
     else Inr (afterTok one, afterTok two))"
proof -
  obtain x a y b where xy: "one = x # a" "two = y # b" "rpmAlnum x" "rpmAlnum y"
    using assms by (cases one; cases two) auto
  consider (nn) "isDigit x" "isDigit y" | (na) "isDigit x" "\<not> isDigit y" "rpmAlpha y"
    | (an) "\<not> isDigit x" "rpmAlpha x" "isDigit y" "\<not> rpmAlpha y"
    | (aa) "\<not> isDigit x" "rpmAlpha x" "\<not> isDigit y" "rpmAlpha y"
    using xy digit_not_alpha by (auto simp: rpmAlnum_def)
  then show ?thesis
  proof cases
    case nn
    let ?n1 = "takeWhile isDigit one" and ?n2 = "takeWhile isDigit two"
    have "list_all isDigit ?n1" "list_all isDigit ?n2" by (auto simp: list_all_iff dest: set_takeWhileD)
    note d = digits_strip [OF this]
    have t: "tokcmp (headTok one) (headTok two) = sgn (int (numVal ?n1) - int (numVal ?n2))"
      using nn xy by (simp add: tokcmp_def headTok_def bytes_Compare_def)
    have ne: "?n2 \<noteq> []" using nn xy by simp
    have h: "isDigit (hd one)" "isDigit (hd two)" using nn xy by auto
    show ?thesis unfolding rpmSegment_def t d [symmetric] afterTok_def using ne h
      by (simp add: Let_def bytes_Compare_sign)
  next
    case aa
    let ?t1 = "takeWhile rpmAlpha one" and ?t2 = "takeWhile rpmAlpha two"
    have t: "tokcmp (headTok one) (headTok two) = bytes_Compare ?t1 ?t2"
      using aa xy by (simp add: tokcmp_def headTok_def then_cmp_def)
    have "?t2 \<noteq> []" "\<not> isDigit (hd one)" "\<not> isDigit (hd two)" using aa xy by auto
    then show ?thesis unfolding rpmSegment_def t afterTok_def by (simp add: Let_def bytes_Compare_sign)
  qed (use xy in \<open>simp_all add: rpmSegment_def tokcmp_def headTok_def\<close>)
qed

text \<open>The first token of a suffix with its separators skipped, and what follows it.\<close>

definition tokHead :: "string \<Rightarrow> rtok" where
  "tokHead t = (if t = [] then REnd else if startsWith (CHR ''~'') t then RTilde
                else if startsWith (CHR ''^'') t then RCaret else headTok t)"

definition tokRest :: "string \<Rightarrow> string" where
  "tokRest t = (if startsWith (CHR ''~'') t \<or> startsWith (CHR ''^'') t then tl t else afterTok t)"

lemma rtokens_step:
  "rtokens s = (if skipSep s = [] then [REnd] else tokHead (skipSep s) # rtokens (tokRest (skipSep s)))"
  by (cases "skipSep s") (auto simp: rtokens.simps [of s] tokHead_def tokRest_def)

lemma skipSep_cases:
  obtains (ends) "skipSep s = []" | (tilde) t where "skipSep s = CHR ''~'' # t"
    | (caret) t where "skipSep s = CHR ''^'' # t"
    | (alnum) c t where "skipSep s = c # t" "rpmAlnum c" "c \<noteq> CHR ''~''" "c \<noteq> CHR ''^''"
  using skipSep_head_alnum [of s] by (cases "skipSep s") blast+

lemma tokHead_simps [simp]:
  "tokHead [] = REnd" "tokHead (CHR ''~'' # t) = RTilde" "tokHead (CHR ''^'' # t) = RCaret"
  "tokRest (CHR ''~'' # t) = t" "tokRest (CHR ''^'' # t) = t"
  by (simp_all add: tokHead_def tokRest_def)

lemma tokHead_alnum:
  "c \<noteq> CHR ''~'' \<Longrightarrow> c \<noteq> CHR ''^'' \<Longrightarrow>
     tokHead (c # t) = headTok (c # t) \<and> tokRest (c # t) = afterTok (c # t) \<and> 3 \<le> tokRank (headTok (c # t))"
  by (simp add: tokHead_def tokRest_def headTok_def)

lemma tokcmp_rank: "tokRank s \<noteq> tokRank t \<Longrightarrow> tokcmp s t = sgn (tokRank s - tokRank t)"
  by (simp add: tokcmp_def then_cmp_def sgn_0_0)

lemma tokcmp_same [simp]: "tokcmp t t = 0"
  by (rule three_way.same [OF tokcmp_three_way]) simp

lemma skipSep_Nil [simp]: "skipSep [] = []"
  by (simp add: skipSep_def)

lemma rpmLoop_skip:
  assumes "skipSep a = one" and "skipSep b = two"
  shows "rpmLoop a b =
    (if startsWith (CHR ''~'') one \<or> startsWith (CHR ''~'') two then
       (if \<not> startsWith (CHR ''~'') one then 1 else if \<not> startsWith (CHR ''~'') two then - 1
        else rpmLoop (tl one) (tl two))
     else if startsWith (CHR ''^'') one \<or> startsWith (CHR ''^'') two then
       (if one = [] then - 1 else if two = [] then 1
        else if \<not> startsWith (CHR ''^'') one then 1 else if \<not> startsWith (CHR ''^'') two then - 1
        else rpmLoop (tl one) (tl two))
     else if one = [] \<or> two = [] then rpmTail one two
     else case rpmSegment one two of Inl r \<Rightarrow> r | Inr (one', two') \<Rightarrow> rpmLoop one' two')"
proof (cases "a = [] \<and> b = []")
  case True
  with assms show ?thesis by (auto simp: rpmLoop.simps [of "[]" "[]"] rpmTail_def)
next
  case False
  show ?thesis unfolding assms [symmetric]
    by (subst rpmLoop.simps) (simp only: False if_False Let_def)
qed

lemma rpmLoop_step:
  "rpmLoop a b =
     (let s = skipSep a; t = skipSep b; c = tokcmp (tokHead s) (tokHead t)
      in if c \<noteq> 0 then c else if s = [] then 0 else rpmLoop (tokRest s) (tokRest t))"
proof (cases a rule: skipSep_cases; cases b rule: skipSep_cases)
  fix x s y t
  assume xy: "skipSep a = x # s" "rpmAlnum x" "x \<noteq> CHR ''~''" "x \<noteq> CHR ''^''"
    "skipSep b = y # t" "rpmAlnum y" "y \<noteq> CHR ''~''" "y \<noteq> CHR ''^''"
  then show ?thesis using rpmSegment_spec [of "x # s" "y # t"]
    unfolding rpmLoop_skip [OF xy(1) xy(5)] by (auto simp: tokHead_alnum)
qed (simp_all add: rpmLoop_skip [OF refl refl, of a b] tokcmp_def tokHead_alnum rpmTail_def headTok_def
    bytes_Compare_eq_0 [THEN iffD2] Let_def)

lemma tokRank_End: "tokRank (tokHead t) = 1 \<longleftrightarrow> t = []"
  by (auto simp: tokHead_def headTok_def)

lemma tokcmp_0_rank: "tokcmp s t = 0 \<Longrightarrow> tokRank s = tokRank t"
  by (simp add: tokcmp_def then_cmp_def sgn_0_0 split: if_splits)

lemma tokRest_less: "skipSep s \<noteq> [] \<Longrightarrow> length (tokRest (skipSep s)) < length s"
  using skipSep_length [of s] afterTok_less [of "skipSep s"]
  by (cases s rule: skipSep_cases) (auto simp: tokHead_alnum)

text \<open>The comparator loop compares the two token lists.\<close>

lemma rpmLoop_rtokens: "rpmLoop a b = lexList tokcmp (rtokens a) (rtokens b)"
proof (induction "length a + length b" arbitrary: a b rule: less_induct)
  case less
  let ?s = "skipSep a" and ?t = "skipSep b"
  show ?case
  proof (cases "tokcmp (tokHead ?s) (tokHead ?t) = 0 \<and> ?s \<noteq> []")
    case False
    then show ?thesis
      using rpmLoop_step [of a b] rtokens_step [of a] rtokens_step [of b]
        tokRank_End [of ?s] tokRank_End [of ?t] tokcmp_0_rank [of "tokHead ?s" "tokHead ?t"]
      by (auto simp: Let_def)
  next
    case True
    with tokRank_End [of ?s] tokRank_End [of ?t] tokcmp_0_rank [of "tokHead ?s" "tokHead ?t"]
    have ne: "?s \<noteq> []" "?t \<noteq> []" by auto
    then have "rpmLoop (tokRest ?s) (tokRest ?t) = lexList tokcmp (rtokens (tokRest ?s)) (rtokens (tokRest ?t))"
      by (intro less.hyps) (simp add: add_strict_mono tokRest_less)
    with True ne show ?thesis
      using rpmLoop_step [of a b] rtokens_step [of a] rtokens_step [of b] by (simp add: Let_def)
  qed
qed

lemma CompareRPM_eq: "CompareRPM a b = lexList tokcmp (rtokens a) (rtokens b)"
proof -
  have "lexList tokcmp xs xs = 0" for xs
    by (induction xs) simp_all
  then show ?thesis by (simp add: CompareRPM_def rpmLoop_rtokens)
qed

lemma rpm_three_way: "three_way CompareRPM (\<lambda>_. True)"
proof -
  have "three_way (lexList tokcmp) (\<lambda>_. True)"
    by (rule three_way_weaken [OF three_way_lexList [OF tokcmp_three_way]]) (simp add: list_all_iff)
  from three_way_pullback [OF this, of rtokens] show ?thesis
    by (simp add: CompareRPM_eq [abs_def])
qed

interpretation rpm: three_way CompareRPM "\<lambda>_. True"
  by (rule rpm_three_way)

lemmas rpm_eval = CompareRPM_def rpmLoop.simps skipSep_def rpmSep_def rpmAlnum_def rpmAlpha_def
  rpmSegment_def rpmTail_def startsWith_def isDigit_def isLower_def isUpper_def stripLeadingZeros_def
  bytes_Compare_def then_cmp_def sign_def

end
