(* ===== verification/Version_Compare.thy ===== *)
theory Version_Compare
  imports Version_Rpm
begin

text \<open>
  \<open>internal/version/compare.go\<close>: the choice of scheme, the epoch:version-release layer around
  the rpm comparator, and the operators and ranges advisories are written in. The range
  lemmas are proved once for any three-way comparison and reach the code through the
  interpretation for each scheme.
\<close>

section \<open>The code\<close>

datatype Scheme = SchemeDpkg | SchemeRPM

definition SchemeByName :: "string \<Rightarrow> Scheme option" where
  "SchemeByName name =
     (if name = ''dpkg'' then Some SchemeDpkg
      else if name = ''rpm'' then Some SchemeRPM else None)"

definition splitEVR :: "string \<Rightarrow> int \<times> string \<times> string" where
  "splitEVR s0 =
     (let (epoch, s) = (case cutByte (CHR '':'') s0 of
                          Some (e, rest) \<Rightarrow> (case atoi e of Some n \<Rightarrow> (n, rest) | None \<Rightarrow> (0, rest))
                        | None \<Rightarrow> (0, s0))
      in case cutByte (CHR ''-'') s of
           Some (version, release) \<Rightarrow> (epoch, version, release)
         | None \<Rightarrow> (epoch, s, []))"

definition compareRPMEVR :: "string \<Rightarrow> string \<Rightarrow> int" where
  "compareRPMEVR a b =
     (case (splitEVR a, splitEVR b) of
        ((ea, va, ra), (eb, vb, rb)) \<Rightarrow>
          if ea \<noteq> eb then (if ea < eb then - 1 else 1)
          else let c = CompareRPM va vb in
          if c \<noteq> 0 then c else CompareRPM ra rb)"

definition Compare :: "Scheme \<Rightarrow> string \<Rightarrow> string \<Rightarrow> int" where
  "Compare s a b = (if s = SchemeRPM then compareRPMEVR a b else CompareDpkg a b)"

datatype Op = OpLT | OpLE | OpGT | OpGE | OpEQ

fun Satisfies :: "Scheme \<Rightarrow> string \<Rightarrow> Op \<Rightarrow> string \<Rightarrow> bool" where
  "Satisfies s version OpLT ref = (Compare s version ref < 0)"
| "Satisfies s version OpLE ref = (Compare s version ref \<le> 0)"
| "Satisfies s version OpGT ref = (Compare s version ref > 0)"
| "Satisfies s version OpGE ref = (Compare s version ref \<ge> 0)"
| "Satisfies s version OpEQ ref = (Compare s version ref = 0)"

record AffectedRange =
  Introduced :: string
  Fixed :: string

definition Vulnerable :: "AffectedRange \<Rightarrow> Scheme \<Rightarrow> string \<Rightarrow> bool" where
  "Vulnerable r s installed =
     (if Introduced r \<noteq> [] \<and> Compare s installed (Introduced r) < 0 then False
      else if Fixed r \<noteq> [] \<and> Compare s installed (Fixed r) \<ge> 0 then False
      else True)"

section \<open>The rpm scheme is an ordering\<close>

lemma compareRPMEVR_eq:
  "compareRPMEVR a b =
     then_cmp (sgn (fst (splitEVR a) - fst (splitEVR b)))
       (then_cmp (CompareRPM (fst (snd (splitEVR a))) (fst (snd (splitEVR b))))
         (CompareRPM (snd (snd (splitEVR a))) (snd (snd (splitEVR b)))))"
  by (cases "splitEVR a"; cases "splitEVR b") (auto simp: compareRPMEVR_def then_cmp_def sgn_if Let_def)

lemma evr_three_way: "three_way compareRPMEVR (\<lambda>_. True)"
proof -
  have "three_way (\<lambda>a b. sgn (fst (splitEVR a) - fst (splitEVR b))) (\<lambda>_. True)"
    using three_way_pullback [OF int_cmp.three_way_axioms, of "\<lambda>v. fst (splitEVR v)"] by simp
  moreover have "three_way (\<lambda>a b. CompareRPM (fst (snd (splitEVR a))) (fst (snd (splitEVR b)))) (\<lambda>_. True)"
    using three_way_pullback [OF rpm_three_way, of "\<lambda>v. fst (snd (splitEVR v))"] by simp
  moreover have "three_way (\<lambda>a b. CompareRPM (snd (snd (splitEVR a))) (snd (snd (splitEVR b)))) (\<lambda>_. True)"
    using three_way_pullback [OF rpm_three_way, of "\<lambda>v. snd (snd (splitEVR v))"] by simp
  ultimately show ?thesis unfolding compareRPMEVR_eq [abs_def] by (intro three_way_then)
qed

text \<open>The versions a scheme can rank: all of them, but for dpkg epochs that overflow.\<close>

definition comparable :: "Scheme \<Rightarrow> string \<Rightarrow> bool" where
  "comparable s v = (case s of SchemeDpkg \<Rightarrow> epoch_fits v | SchemeRPM \<Rightarrow> True)"

interpretation scheme: three_way "Compare s" "comparable s" for s
  using evr_three_way dpkg_three_way
  by (cases s) (auto simp: Compare_def [abs_def] comparable_def [abs_def])

section \<open>Affected ranges, for any comparison\<close>

context three_way
begin

lemma between:
  assumes "ok lo" "ok v" "ok w" "ok u" "ok hi"
    and "0 \<le> cmp v lo" "cmp u hi < 0" "cmp v w \<le> 0" "cmp w u \<le> 0"
  shows "0 \<le> cmp w lo \<and> cmp w hi < 0"
proof -
  have "cmp lo v \<le> 0" using swap [of lo v] assms by simp
  with assms le_trans [of lo v w] have "cmp lo w \<le> 0" by simp
  then have "0 \<le> cmp w lo" using swap [of lo w] assms by simp
  moreover have "cmp w hi < 0" using le_lt_trans [of w u hi] assms by simp
  ultimately show ?thesis by simp
qed

lemma above_fixed: "ok f \<Longrightarrow> ok v \<Longrightarrow> ok w \<Longrightarrow> 0 \<le> cmp v f \<Longrightarrow> cmp v w \<le> 0 \<Longrightarrow> 0 \<le> cmp w f"
  using le_lt_trans [of v w f] by force

end

lemma Vulnerable_iff:
  "Vulnerable r s v \<longleftrightarrow>
     (Introduced r = [] \<or> 0 \<le> Compare s v (Introduced r)) \<and> (Fixed r = [] \<or> Compare s v (Fixed r) < 0)"
  by (auto simp: Vulnerable_def)

section \<open>Properties\<close>

text \<open>
  C27. The dpkg comparator is an ordering on versions whose epoch fits in 64 bits: every version
  equals itself, comparing the other way round negates the result, and at-most is transitive.
  Nothing is assumed about the rest of the version string.
\<close>

theorem CompareDpkg_ordering:
  assumes "epoch_fits a" and "epoch_fits b" and "epoch_fits c"
  shows "CompareDpkg a a = 0 \<and> CompareDpkg b a = - CompareDpkg a b \<and>
    (CompareDpkg a b \<le> 0 \<and> CompareDpkg b c \<le> 0 \<longrightarrow> CompareDpkg a c \<le> 0)"
  using assms dpkg.same [of a] dpkg.swap [of a b] dpkg.le_trans [of a b c] by simp

lemmas epoch_eval = epoch_fits_def epochVal_def graphic_def

theorem CompareDpkg_ordering_witness:
  "CompareDpkg ''2.2.8'' ''2.2.8-1ubuntu0.22'' = - 1 \<and> CompareDpkg ''2.2.8-1ubuntu0.22'' ''1:0.9~rc1'' = - 1 \<and>
   CompareDpkg ''2.2.8'' ''1:0.9~rc1'' \<le> 0"
proof -
  have ok: "epoch_fits ''2.2.8''" "epoch_fits ''2.2.8-1ubuntu0.22''" "epoch_fits ''1:0.9~rc1''"
    by (simp_all add: epoch_eval dgRun_def isDigit_def numVal_def digitVal_def)
  have "CompareDpkg ''2.2.8'' ''2.2.8-1ubuntu0.22'' = - 1" "CompareDpkg ''2.2.8-1ubuntu0.22'' ''1:0.9~rc1'' = - 1"
    by (simp_all add: dpkg_eval)
  with CompareDpkg_ordering [OF ok] show ?thesis by simp
qed

text \<open>
  C28. The non-digit and digit loops of the dpkg comparator compute the comparison of what the
  two version parts mean: the ranks of each non-digit run, ended by 0, and the value of each
  digit run, read as lists followed by zeros for ever. They return on all inputs.
\<close>

theorem verrevcmp_reference: "verrevcmp a b = padcmp (vkey a) (vkey b)"
  by (rule verrevcmp_vkey)

text \<open>
  The rpm comparator returns on all byte strings and is the lexicographic comparison of
  their token lists; in particular it negates under swapping and at-most is transitive, with
  no condition on the versions.
\<close>

theorem CompareRPM_ordering:
  "CompareRPM a b = lexList tokcmp (rtokens a) (rtokens b) \<and> CompareRPM b a = - CompareRPM a b \<and>
   (CompareRPM a b \<le> 0 \<and> CompareRPM b c \<le> 0 \<longrightarrow> CompareRPM a c \<le> 0)"
  using rpm.swap [of a b] rpm.le_trans [of a b c] by (simp add: CompareRPM_eq)

theorem CompareRPM_ordering_witness:
  "CompareRPM ''1.0~rc1'' ''1.0'' = - 1 \<and> CompareRPM ''1.0'' ''1.0^20240501'' = - 1 \<and>
   CompareRPM ''1.0~rc1'' ''1.0^20240501'' \<le> 0"
proof -
  have "CompareRPM ''1.0~rc1'' ''1.0'' = - 1" "CompareRPM ''1.0'' ''1.0^20240501'' = - 1"
    by (simp_all add: rpm_eval)
  with CompareRPM_ordering [of "''1.0~rc1''" "''1.0''" "''1.0^20240501''"] show ?thesis by simp
qed



text \<open>
  An rpm version with no epoch and the same version written with epoch 0 are equal, for
  every version without a colon: the case that made patched hosts look vulnerable.
\<close>

theorem rpm_epoch_zero:
  assumes "CHR '':'' \<notin> set v"
  shows "Compare SchemeRPM (''0:'' @ v) v = 0 \<and> Compare SchemeRPM v (''0:'' @ v) = 0"
proof -
  have "cutByte (CHR '':'') v = None" using assms by (simp add: cutByte_None)
  then have "splitEVR (''0:'' @ v) = splitEVR v"
    by (simp add: splitEVR_def atoi_def isDigit_def numVal_def digitVal_def)
  then show ?thesis by (simp add: Compare_def compareRPMEVR_eq CompareRPM_def)
qed

theorem rpm_epoch_zero_witness: "Compare SchemeRPM ''0:9.9p1-25.el9'' ''9.9p1-25.el9'' = 0"
  using rpm_epoch_zero [of "''9.9p1-25.el9''"] by simp

text \<open>
  Outside that bound the dpkg comparator is not an ordering. The epoch is accumulated in an
  \<open>int\<close> without an overflow check and compared by subtraction, so of these two versions each
  is reported older than the other.
\<close>

theorem CompareDpkg_epoch_overflow:
  "CompareDpkg ''9223372036854775808:1'' ''0:1'' = - 1 \<and> CompareDpkg ''0:1'' ''9223372036854775808:1'' = - 1"
  by (simp add: dpkg_eval)

end
