(* ===== verification/Identity.thy ===== *)
theory Identity
  imports Go_Prelude
begin

text \<open>
  \<open>internal/domain/identity.go\<close>: which asset an observation's evidence belongs to. The model
  is the whole of \<open>Resolve\<close>: the scoring loop over the candidates is a fold of
  \<open>resolve_step\<close> over the accumulated lists and maps, and \<open>resolve_verdict\<close> is the final
  switch. Key types are strings, as in the code, so a type this build does not know is a value
  of strength 0. Human-readable reasons are kept as structured values instead of rendered text.
\<close>

section \<open>Keys\<close>

type_synonym IdentityKeyType = string

abbreviation (input) KeyAgentUUID :: IdentityKeyType where "KeyAgentUUID \<equiv> ''agent_uuid''"
abbreviation (input) KeyCloudID :: IdentityKeyType where "KeyCloudID \<equiv> ''cloud_id''"
abbreviation (input) KeyDMIUUID :: IdentityKeyType where "KeyDMIUUID \<equiv> ''dmi_uuid''"
abbreviation (input) KeyTPMCertFP :: IdentityKeyType where "KeyTPMCertFP \<equiv> ''tpm_cert_fp''"
abbreviation (input) KeyHostCert :: IdentityKeyType where "KeyHostCert \<equiv> ''host_cert_fp''"
abbreviation (input) KeySSHHostKey :: IdentityKeyType where "KeySSHHostKey \<equiv> ''ssh_hostkey''"
abbreviation (input) KeyServiceCert :: IdentityKeyType where "KeyServiceCert \<equiv> ''service_cert_fp''"
abbreviation (input) KeyHostnameOS :: IdentityKeyType where "KeyHostnameOS \<equiv> ''hostname_domain_os''"
abbreviation (input) KeyMAC :: IdentityKeyType where "KeyMAC \<equiv> ''mac''"
abbreviation (input) KeyNetBIOS :: IdentityKeyType where "KeyNetBIOS \<equiv> ''netbios''"
abbreviation (input) KeyIPWindow :: IdentityKeyType where "KeyIPWindow \<equiv> ''ip_window''"

definition Strength :: "IdentityKeyType \<Rightarrow> nat" where
  "Strength t =
     (if t \<in> {KeyAgentUUID, KeyCloudID, KeyDMIUUID, KeyTPMCertFP, KeyHostCert} then 3
      else if t \<in> {KeySSHHostKey, KeyServiceCert, KeyHostnameOS} then 2
      else if t \<in> {KeyMAC, KeyNetBIOS, KeyIPWindow} then 1
      else 0)"

record IdentityKey =
  kType :: IdentityKeyType
  kValue :: string
  kSource :: string
  kObservationID :: uuid
  kPayload :: string

record KeyContinuity =
  NewKeyScans :: int
  NewKeyFirstSeen :: time
  HeldKeySighted :: bool
  HeldKeyLastSeen :: time
  NewKeyHeldElsewhere :: bool

record ServiceSeen =
  ssPort :: int
  ssProtocol :: string
  ssProduct :: string

record Continuity =
  cKeys :: "string \<rightharpoonup> KeyContinuity"
  HeldServices :: "ServiceSeen list"
  ObservedServices :: "ServiceSeen list"
  HeldFamily :: string
  ObservedFamily :: string

record Candidate =
  AssetID :: uuid
  Keys :: "IdentityKey list"
  HeldAddress :: string
  AddressLastSeen :: time
  PendingContested :: bool
  ContradictionLastSeen :: time
  CandContinuity :: "Continuity option"

section \<open>Comparing evidence\<close>

text \<open>
  \<open>dedupe\<close> keys its \<open>seen\<close> map by type, value and source, joined by NUL bytes.
\<close>

definition keyID :: "IdentityKey \<Rightarrow> string" where
  "keyID k = kType k @ [char_of (0 :: nat)] @ kValue k @ [char_of (0 :: nat)] @ kSource k"

fun dedupe_loop :: "string set \<Rightarrow> IdentityKey list \<Rightarrow> IdentityKey list" where
  "dedupe_loop seen [] = []"
| "dedupe_loop seen (k # ks) =
     (if keyID k \<in> seen then dedupe_loop seen ks
      else k # dedupe_loop (insert (keyID k) seen) ks)"

definition dedupe :: "IdentityKey list \<Rightarrow> IdentityKey list" where
  "dedupe ks = dedupe_loop {} ks"

text \<open>The inner loop of \<open>compare\<close> over the held keys, for one observed key.\<close>

fun compare_held :: "IdentityKey \<Rightarrow> IdentityKey list \<Rightarrow> IdentityKey list \<times> IdentityKey list" where
  "compare_held ob [] = ([], [])"
| "compare_held ob (h # hs) =
     (let (ag, co) = compare_held ob hs
      in if kType h \<noteq> kType ob then (ag, co)
         else if kValue h = kValue ob then (ob # ag, co)
         else if kSource h = kSource ob then (ag, ob # co)
         else (ag, co))"

fun compare_loop :: "IdentityKey list \<Rightarrow> IdentityKey list \<Rightarrow> IdentityKey list \<times> IdentityKey list" where
  "compare_loop [] held = ([], [])"
| "compare_loop (ob # obs) held =
     (let (ag, co) = compare_loop obs held
      in if Strength (kType ob) = 0 then (ag, co)
         else let (a, c) = compare_held ob held in (a @ ag, c @ co))"

definition compare_keys :: "IdentityKey list \<Rightarrow> IdentityKey list \<Rightarrow> IdentityKey list \<times> IdentityKey list" where
  "compare_keys observed held =
     (let (agreeing, conflicts) = compare_loop observed held in (dedupe agreeing, dedupe conflicts))"

definition moderateOrStronger :: "IdentityKey list \<Rightarrow> IdentityKey list" where
  "moderateOrStronger keys = filter (\<lambda>k. 2 \<le> Strength (kType k)) keys"

fun maxStrength :: "IdentityKey list \<Rightarrow> nat" where
  "maxStrength [] = 0"
| "maxStrength (k # ks) = max (Strength (kType k)) (maxStrength ks)"

text \<open>Why a candidate qualifying or was contested: the values the code's \<open>why\<close> takes.\<close>

datatype why =
    WhyNone
  | WhyStrong
  | WhyTwoModerate "string list"
  | WhyModerateWeak
  | WhyRotation
  | WhyHandover
  | WhyContested

definition mergeRule :: "IdentityKey list \<Rightarrow> bool \<times> why" where
  "mergeRule agreeing =
     (let strong = length (filter (\<lambda>k. Strength (kType k) = 3) agreeing);
          weak = length (filter (\<lambda>k. Strength (kType k) = 1) agreeing);
          moderate = remdups (map kSource (filter (\<lambda>k. Strength (kType k) = 2) agreeing))
      in if strong > 0 then (True, WhyStrong)
         else if length moderate \<ge> 2 then (True, WhyTwoModerate (sort moderate))
         else if length moderate = 1 \<and> weak > 0 then (True, WhyModerateWeak)
         else (False, WhyNone))"

text \<open>The loop of \<open>twoValuesOnOneService\<close>; its \<open>seen\<close> map goes from type and source to value.\<close>

fun twoValues_loop :: "(string \<rightharpoonup> string) \<Rightarrow> IdentityKey list \<Rightarrow> string" where
  "twoValues_loop seen [] = []"
| "twoValues_loop seen (k # ks) =
     (if Strength (kType k) < 2 \<or> kSource k = [] then twoValues_loop seen ks
      else let ident = kType k @ ''|'' @ kSource k
           in if (case seen ident of Some v \<Rightarrow> v \<noteq> kValue k | None \<Rightarrow> False) then kSource k
              else twoValues_loop (seen(ident \<mapsto> kValue k)) ks)"

definition twoValuesOnOneService :: "IdentityKey list \<Rightarrow> string" where
  "twoValuesOnOneService observed = twoValues_loop Map.empty observed"

section \<open>Windows, continuity and lapse\<close>

definition holdsAddressInWindow :: "Candidate \<Rightarrow> time \<Rightarrow> duration \<Rightarrow> bool" where
  "holdsAddressInWindow c now window =
     (if IsZero (AddressLastSeen c) then False else \<not> AddressLastSeen c < now - window)"

definition ContestFresh :: "Candidate \<Rightarrow> time \<Rightarrow> duration \<Rightarrow> bool" where
  "ContestFresh c now window \<longleftrightarrow>
     PendingContested c \<and> \<not> IsZero (ContradictionLastSeen c) \<and> \<not> ContradictionLastSeen c < now - window"

definition RotationScans :: int where "RotationScans = 2"

definition serviceID :: "ServiceSeen \<Rightarrow> string" where
  "serviceID s = itoa (ssPort s) @ ''/'' @ ssProtocol s"

definition servicesContinuous :: "ServiceSeen list \<Rightarrow> ServiceSeen list \<Rightarrow> bool" where
  "servicesContinuous held observed =
     (if held = [] then False
      else let seen = foldl (\<lambda>m ob. m(serviceID ob \<mapsto> TrimSpace (ssProduct ob))) Map.empty observed
           in list_all (\<lambda>h. case seen (serviceID h) of
                              Some got \<Rightarrow> EqualFold got (TrimSpace (ssProduct h))
                            | None \<Rightarrow> False) held)"

definition osAgrees :: "string \<Rightarrow> string \<Rightarrow> bool" where
  "osAgrees held observed \<longleftrightarrow> held = [] \<or> (observed \<noteq> [] \<and> EqualFold observed held)"

text \<open>Why a contradiction is not a rotation: one constructor per message.\<close>

datatype rotFailure =
    NothingContradicts
  | NotMeasured
  | NotClassifiable IdentityKeyType
  | HeldAnswered string
  | NoMeasurement string
  | TooFewScans int string
  | HeldUnsighted string
  | HeldSince string
  | HeldElsewhere string
  | ServicesNotContinuous
  | OSDisagrees

text \<open>The body of the loop over the conflicts.\<close>

definition conflictFailures :: "IdentityKey list \<Rightarrow> Continuity \<Rightarrow> IdentityKey \<Rightarrow> rotFailure list" where
  "conflictFailures agreeing f k =
     (if kType k \<noteq> KeySSHHostKey then [NotClassifiable (kType k)]
      else map (\<lambda>a. HeldAnswered (kSource k))
             (filter (\<lambda>a. kType a = kType k \<and> kSource a = kSource k) agreeing)
           @ (case cKeys f (kSource k) of
                None \<Rightarrow> [NoMeasurement (kSource k)]
              | Some kc \<Rightarrow>
                  (if NewKeyScans kc < RotationScans then [TooFewScans (NewKeyScans kc) (kSource k)] else [])
                  @ (if \<not> HeldKeySighted kc then [HeldUnsighted (kSource k)]
                     else if \<not> HeldKeyLastSeen kc < NewKeyFirstSeen kc then [HeldSince (kSource k)] else [])
                  @ (if NewKeyHeldElsewhere kc then [HeldElsewhere (kSource k)] else [])))"

definition rotationFailures ::
  "IdentityKey list \<Rightarrow> IdentityKey list \<Rightarrow> Continuity option \<Rightarrow> rotFailure list" where
  "rotationFailures conflicts agreeing fo =
     (if conflicts = [] then [NothingContradicts]
      else case fo of
        None \<Rightarrow> [NotMeasured]
      | Some f \<Rightarrow>
          concat (map (conflictFailures agreeing f) conflicts)
          @ (if \<not> servicesContinuous (HeldServices f) (ObservedServices f) then [ServicesNotContinuous] else [])
          @ (if \<not> osAgrees (HeldFamily f) (ObservedFamily f) then [OSDisagrees] else []))"

definition occupantLapsed ::
  "IdentityKey list \<Rightarrow> Continuity option \<Rightarrow> time \<Rightarrow> duration \<Rightarrow> bool" where
  "occupantLapsed conflicts fo now window =
     (case fo of
        None \<Rightarrow> False
      | Some f \<Rightarrow>
          if conflicts = [] then False
          else let cutoff = now - window
               in list_all (\<lambda>k. case cKeys f (kSource k) of
                    None \<Rightarrow> False
                  | Some kc \<Rightarrow> \<not> (\<not> HeldKeySighted kc \<or> \<not> HeldKeyLastSeen kc < cutoff
                                   \<or> NewKeyScans kc < RotationScans \<or> NewKeyHeldElsewhere kc)) conflicts)"

section \<open>The resolver\<close>

datatype Decision = DecisionNewAsset | DecisionAttach | DecisionMerge | DecisionQueue

definition Decision_String :: "Decision \<Rightarrow> string" where
  "Decision_String d =
     (case d of DecisionNewAsset \<Rightarrow> ''new_asset'' | DecisionAttach \<Rightarrow> ''attach''
      | DecisionMerge \<Rightarrow> ''merge'' | _ \<Rightarrow> ''queue'')"

text \<open>The sentences \<open>Resolve\<close> writes for an operator, with the values it puts into them.\<close>

datatype Reason =
    TwoHostsOneService string
  | NotOutvoted uuid nat nat
  | AddressHandover uuid nat
  | AddressContested uuid
  | NotARotation Reason "rotFailure list"
  | ManyQualified nat
  | MergedBecause why
  | OccupantLapsed uuid duration int
  | ManyHolders
  | KeyRotation
  | WeakAttach duration
  | NoCandidateMatched

record Verdict =
  vDecision :: Decision
  vAssetID :: uuid
  vAgreeing :: "IdentityKey list"
  vCandidates :: "uuid list"
  vContradicted :: "IdentityKey list"
  vCorroborated :: "IdentityKey list"
  vHandover :: "IdentityKey list"
  vLapsed :: uuid
  vRotated :: "IdentityKey list"
  vReason :: Reason

text \<open>A composite literal \<open>Verdict{Decision: d, Reason: r}\<close>: the other fields are zero.\<close>

definition verdict :: "Decision \<Rightarrow> Reason \<Rightarrow> Verdict" where
  "verdict d r =
     \<lparr>vDecision = d, vAssetID = uuid_Nil, vAgreeing = [], vCandidates = [], vContradicted = [],
      vCorroborated = [], vHandover = [], vLapsed = uuid_Nil, vRotated = [], vReason = r\<rparr>"

record scored =
  sc :: Candidate
  agreeing :: "IdentityKey list"
  conflicts :: "IdentityKey list"
  merges :: bool
  swhy :: why
  handover :: bool
  slapsed :: bool

text \<open>
  The variables the scoring loop updates. A Go map read at a missing key gives the nil slice,
  so the three maps are total functions that start at \<open>[]\<close>.
\<close>

record resolve_vars =
  contested :: "scored list"
  qualifying :: "scored list"
  attachable :: "Candidate list"
  lapsed :: "scored list"
  contradicted :: "uuid \<Rightarrow> IdentityKey list"
  corroborated :: "uuid \<Rightarrow> IdentityKey list"
  rotated :: "uuid \<Rightarrow> IdentityKey list"

definition resolve_init :: resolve_vars where
  "resolve_init =
     \<lparr>contested = [], qualifying = [], attachable = [], lapsed = [],
      contradicted = \<lambda>_. [], corroborated = \<lambda>_. [], rotated = \<lambda>_. []\<rparr>"

fun observedAddress :: "IdentityKey list \<Rightarrow> string" where
  "observedAddress [] = []"
| "observedAddress (k # ks) = (if kType k = KeyIPWindow then kValue k else observedAddress ks)"

definition assetIDs :: "Candidate list \<Rightarrow> uuid list" where
  "assetIDs cs = map AssetID cs"

definition scoredIDs :: "scored list \<Rightarrow> uuid list" where
  "scoredIDs ss = map (\<lambda>s. AssetID (sc s)) ss"

definition atHeldAddress :: "string \<Rightarrow> Candidate \<Rightarrow> time \<Rightarrow> duration \<Rightarrow> bool" where
  "atHeldAddress addr c now window \<longleftrightarrow>
     addr \<noteq> [] \<and> HeldAddress c = addr \<and> (holdsAddressInWindow c now window \<or> ContestFresh c now window)"

text \<open>The head of the loop body: compare, apply the merge rule, set certificates aside.\<close>

definition score :: "IdentityKey list \<Rightarrow> Candidate \<Rightarrow> scored" where
  "score observed c =
     (let (ag, co) = compare_keys observed (Keys c); (m, w) = mergeRule ag
      in \<lparr>sc = c, agreeing = ag, conflicts = co, merges = m, swhy = w, handover = False, slapsed = False\<rparr>)"

definition splitCerts :: "bool \<Rightarrow> scored \<times> resolve_vars \<Rightarrow> scored \<times> resolve_vars" where
  "splitCerts atHeld = (\<lambda>(s, v).
     if atHeld then
       let certs = filter (\<lambda>k. kType k = KeyServiceCert) (conflicts s);
           rest = filter (\<lambda>k. kType k \<noteq> KeyServiceCert) (conflicts s)
       in if certs \<noteq> []
          then (s\<lparr>conflicts := rest\<rparr>, v\<lparr>contradicted := (contradicted v)(AssetID (sc s) := certs)\<rparr>)
          else (s, v)
     else (s, v))"

text \<open>The guard, the merge and the weak attach: what follows when nothing was classified.\<close>

definition step_guard :: "bool \<Rightarrow> time \<Rightarrow> duration \<Rightarrow> scored \<Rightarrow> resolve_vars \<Rightarrow> resolve_vars" where
  "step_guard atHeld now window s v =
     (let c = sc s in
      if agreeing s \<noteq> [] \<and> maxStrength (agreeing s) \<le> maxStrength (conflicts s)
      then v\<lparr>contested := contested v @ [s]\<rparr>
      else if merges s then v\<lparr>qualifying := qualifying v @ [s]\<rparr>
      else if atHeld then
        (if conflicts s \<noteq> [] then v\<lparr>contested := contested v @ [s\<lparr>swhy := WhyHandover\<rparr>]\<rparr>
         else let v1 = v\<lparr>corroborated := (corroborated v)(AssetID c := moderateOrStronger (agreeing s))\<rparr>
              in if ContestFresh c now window
                 then v1\<lparr>contested := contested v1 @ [s\<lparr>swhy := WhyContested\<rparr>]\<rparr>
                 else v1\<lparr>attachable := attachable v1 @ [c]\<rparr>)
      else v)"

definition resolve_step ::
  "IdentityKey list \<Rightarrow> time \<Rightarrow> duration \<Rightarrow> Candidate \<Rightarrow> resolve_vars \<Rightarrow> resolve_vars" where
  "resolve_step observed now window c v0 =
     (let atHeld = atHeldAddress (observedAddress observed) c now window;
          (s, v) = splitCerts atHeld (score observed c, v0)
      in if atHeld \<and> conflicts s \<noteq> [] then
           let s = s\<lparr>handover := True\<rparr>
           in if agreeing s = [] \<and> \<not> holdsAddressInWindow c now window
                 \<and> occupantLapsed (conflicts s) (CandContinuity c) now window
              then v\<lparr>lapsed := lapsed v @ [s\<lparr>slapsed := True\<rparr>]\<rparr>
              else if rotationFailures (conflicts s) (agreeing s) (CandContinuity c) = []
              then v\<lparr>rotated := (rotated v)(AssetID c := conflicts s),
                     corroborated := (corroborated v)(AssetID c := moderateOrStronger (agreeing s)),
                     attachable := attachable v @ [c]\<rparr>
              else step_guard atHeld now window s v
         else step_guard atHeld now window s v)"

definition contestedReason :: "scored \<Rightarrow> Reason" where
  "contestedReason s =
     (let c = sc s;
          reason = (case swhy s of
              WhyHandover \<Rightarrow> AddressHandover (AssetID c) (maxStrength (conflicts s))
            | WhyContested \<Rightarrow> AddressContested (AssetID c)
            | _ \<Rightarrow> NotOutvoted (AssetID c) (maxStrength (agreeing s)) (maxStrength (conflicts s)))
      in if handover s \<and> CandContinuity c \<noteq> None
         then NotARotation reason (rotationFailures (conflicts s) (agreeing s) (CandContinuity c))
         else reason)"

text \<open>The switch that ends \<open>Resolve\<close>.\<close>

definition resolve_verdict :: "duration \<Rightarrow> resolve_vars \<Rightarrow> Verdict" where
  "resolve_verdict window v =
     (if contested v \<noteq> [] then
        let s = hd (contested v)
        in (verdict DecisionQueue (contestedReason s))
             \<lparr>vCandidates := scoredIDs (contested v), vAgreeing := agreeing s,
              vHandover := (if handover s then conflicts s else [])\<rparr>
      else if length (qualifying v) > 1 then
        (verdict DecisionQueue (ManyQualified (length (qualifying v))))
          \<lparr>vCandidates := scoredIDs (qualifying v)\<rparr>
      else if length (qualifying v) = 1 then
        let s = hd (qualifying v)
        in (verdict DecisionMerge (MergedBecause (swhy s)))
             \<lparr>vAssetID := AssetID (sc s), vAgreeing := agreeing s,
              vContradicted := contradicted v (AssetID (sc s)),
              vCorroborated := moderateOrStronger (agreeing s)\<rparr>
      else if length (lapsed v) = 1 \<and> attachable v = [] then
        let l = AssetID (sc (hd (lapsed v)))
        in (verdict DecisionNewAsset (OccupantLapsed l window RotationScans))\<lparr>vLapsed := l\<rparr>
      else if length (attachable v) > 1 then
        (verdict DecisionQueue ManyHolders)\<lparr>vCandidates := assetIDs (attachable v)\<rparr>
      else if length (attachable v) = 1 then
        let i = AssetID (hd (attachable v))
        in if rotated v i \<noteq> [] then
             (verdict DecisionAttach KeyRotation)
               \<lparr>vAssetID := i, vRotated := rotated v i, vContradicted := contradicted v i,
                vCorroborated := corroborated v i\<rparr>
           else
             (verdict DecisionAttach (WeakAttach window))
               \<lparr>vAssetID := i, vContradicted := contradicted v i, vCorroborated := corroborated v i\<rparr>
      else verdict DecisionNewAsset NoCandidateMatched)"

definition Resolve :: "IdentityKey list \<Rightarrow> Candidate list \<Rightarrow> time \<Rightarrow> duration \<Rightarrow> Verdict" where
  "Resolve observed candidates now window =
     (let src = twoValuesOnOneService observed
      in if src \<noteq> []
         then (verdict DecisionQueue (TwoHostsOneService src))\<lparr>vCandidates := assetIDs candidates\<rparr>
         else resolve_verdict window (fold (resolve_step observed now window) candidates resolve_init))"

section \<open>Release tokens\<close>

definition MaxReleaseTokenLen :: nat where "MaxReleaseTokenLen = 64"

definition ReleaseTokenValid :: "string \<Rightarrow> bool" where
  "ReleaseTokenValid v =
     (if MaxReleaseTokenLen < length v then False
      else list_all (\<lambda>c. isLower c \<or> isDigit c \<or> c = CHR ''.'' \<or> c = CHR ''_'' \<or> c = CHR ''-'') v)"

section \<open>Facts about evidence\<close>

lemma Strength_cases:
  "Strength t = 3 \<longleftrightarrow> t \<in> {KeyAgentUUID, KeyCloudID, KeyDMIUUID, KeyTPMCertFP, KeyHostCert}"
  "Strength t = 2 \<longleftrightarrow> t \<in> {KeySSHHostKey, KeyServiceCert, KeyHostnameOS}"
  "Strength t = 1 \<longleftrightarrow> t \<in> {KeyMAC, KeyNetBIOS, KeyIPWindow}"
  by (auto simp: Strength_def)

lemma Strength_le_3: "Strength t \<le> 3"
  by (simp add: Strength_def)

lemma set_dedupe_loop: "set (dedupe_loop seen ks) \<subseteq> set ks"
  by (induction seen ks rule: dedupe_loop.induct) auto

lemma dedupe_subset: "set (dedupe ks) \<subseteq> set ks"
  by (simp add: dedupe_def set_dedupe_loop)

lemma dedupe_loop_covers:
  "k \<in> set ks \<Longrightarrow> keyID k \<notin> seen \<Longrightarrow> \<exists>k' \<in> set (dedupe_loop seen ks). keyID k' = keyID k"
proof (induction seen ks rule: dedupe_loop.induct)
  case (2 seen k' ks)
  then show ?case by (cases "keyID k' = keyID k") auto
qed simp

lemma dedupe_eq_Nil [simp]: "dedupe ks = [] \<longleftrightarrow> ks = []"
proof (cases ks)
  case (Cons k ks')
  then show ?thesis
    using dedupe_loop_covers [of k ks "{}"] by (auto simp: dedupe_def)
qed (simp add: dedupe_def)

lemma compare_held_sets:
  "set (fst (compare_held ob hs)) = {k. k = ob \<and> (\<exists>h \<in> set hs. kType h = kType ob \<and> kValue h = kValue ob)}"
  "set (snd (compare_held ob hs)) =
     {k. k = ob \<and> (\<exists>h \<in> set hs. kType h = kType ob \<and> kValue h \<noteq> kValue ob \<and> kSource h = kSource ob)}"
  by (induction hs) (auto split: prod.splits)

text \<open>
  \<open>agrees k held\<close>: the candidate holds the observed key's type and value. \<open>contradicts k held\<close>: it
  holds another value of that type from the same service.
\<close>

definition agrees :: "IdentityKey \<Rightarrow> IdentityKey list \<Rightarrow> bool" where
  "agrees k held \<longleftrightarrow> (\<exists>h \<in> set held. kType h = kType k \<and> kValue h = kValue k)"

definition contradicts :: "IdentityKey \<Rightarrow> IdentityKey list \<Rightarrow> bool" where
  "contradicts k held \<longleftrightarrow>
     (\<exists>h \<in> set held. kType h = kType k \<and> kValue h \<noteq> kValue k \<and> kSource h = kSource k)"

lemma compare_loop_sets:
  "set (fst (compare_loop obs held)) = {k \<in> set obs. 0 < Strength (kType k) \<and> agrees k held}
   \<and> set (snd (compare_loop obs held)) = {k \<in> set obs. 0 < Strength (kType k) \<and> contradicts k held}"
proof (induction obs)
  case (Cons ob obs)
  have "set (fst (compare_held ob held)) = {k. k = ob \<and> agrees k held}"
    "set (snd (compare_held ob held)) = {k. k = ob \<and> contradicts k held}"
    unfolding compare_held_sets agrees_def contradicts_def by auto
  with Cons show ?case
    by (cases "Strength (kType ob) = 0")
       (simp_all add: case_prod_beta, auto)
qed simp

lemma compare_keys_agreeing:
  assumes "k \<in> set (fst (compare_keys obs held))"
  shows "k \<in> set obs \<and> 0 < Strength (kType k) \<and> agrees k held"
  using assms compare_loop_sets [of obs held] dedupe_subset [of "fst (compare_loop obs held)"]
  by (auto simp: compare_keys_def split: prod.splits)

lemma compare_keys_conflicts:
  assumes "k \<in> set (snd (compare_keys obs held))"
  shows "k \<in> set obs \<and> 0 < Strength (kType k) \<and> contradicts k held"
  using assms compare_loop_sets [of obs held] dedupe_subset [of "snd (compare_loop obs held)"]
  by (auto simp: compare_keys_def split: prod.splits)

lemma compare_keys_Nil:
  "fst (compare_keys obs held) = [] \<longleftrightarrow> (\<forall>k \<in> set obs. 0 < Strength (kType k) \<longrightarrow> \<not> agrees k held)"
  "snd (compare_keys obs held) = [] \<longleftrightarrow> (\<forall>k \<in> set obs. 0 < Strength (kType k) \<longrightarrow> \<not> contradicts k held)"
  using compare_loop_sets [of obs held] set_empty [of "fst (compare_loop obs held)"]
    set_empty [of "snd (compare_loop obs held)"]
  by (auto simp: compare_keys_def case_prod_beta)

lemma maxStrength_ge: "k \<in> set ks \<Longrightarrow> Strength (kType k) \<le> maxStrength ks"
  by (induction ks) auto

lemma maxStrength_le: "(\<forall>k \<in> set ks. Strength (kType k) \<le> n) \<longleftrightarrow> maxStrength ks \<le> n"
  by (induction ks) auto

lemma maxStrength_attained: "ks \<noteq> [] \<Longrightarrow> \<exists>k \<in> set ks. Strength (kType k) = maxStrength ks"
proof (induction ks)
  case (Cons k ks)
  then show ?case by (cases ks) (auto simp: max_def split: if_splits)
qed simp

text \<open>The rule of ADR-007 as a proposition over the agreeing keys.\<close>

definition sufficient :: "IdentityKey list \<Rightarrow> bool" where
  "sufficient ks \<longleftrightarrow>
     (\<exists>k \<in> set ks. Strength (kType k) = 3)
     \<or> (\<exists>j \<in> set ks. \<exists>k \<in> set ks. Strength (kType j) = 2 \<and> Strength (kType k) = 2 \<and> kSource j \<noteq> kSource k)
     \<or> (\<exists>j \<in> set ks. \<exists>k \<in> set ks. Strength (kType j) = 2 \<and> Strength (kType k) = 1)"

lemma two_distinct: "2 \<le> length (remdups xs) \<longleftrightarrow> (\<exists>x \<in> set xs. \<exists>y \<in> set xs. x \<noteq> y)"
proof
  assume "2 \<le> length (remdups xs)"
  then obtain x y zs where r: "remdups xs = x # y # zs"
    by (cases "remdups xs"; cases "tl (remdups xs)") auto
  then have "x \<noteq> y" "x \<in> set xs" "y \<in> set xs"
    using distinct_remdups [of xs] set_remdups [of xs] by auto
  then show "\<exists>x \<in> set xs. \<exists>y \<in> set xs. x \<noteq> y" by blast
next
  assume "\<exists>x \<in> set xs. \<exists>y \<in> set xs. x \<noteq> y"
  then obtain x y where "{x, y} \<subseteq> set xs" "x \<noteq> y" by auto
  then show "2 \<le> length (remdups xs)"
    using card_mono [of "set xs" "{x, y}"] by (simp add: length_remdups_card_conv)
qed

lemma mergeRule_sufficient: "fst (mergeRule ks) \<longleftrightarrow> sufficient ks"
proof -
  let ?m = "map kSource (filter (\<lambda>k. Strength (kType k) = 2) ks)"
  have one: "remdups ?m \<noteq> [] \<longleftrightarrow> (\<exists>j \<in> set ks. Strength (kType j) = 2)"
    by (auto simp: filter_empty_conv)
  have two: "2 \<le> length (remdups ?m) \<longleftrightarrow>
      (\<exists>j \<in> set ks. \<exists>k \<in> set ks. Strength (kType j) = 2 \<and> Strength (kType k) = 2 \<and> kSource j \<noteq> kSource k)"
    unfolding two_distinct by auto
  have pos: "0 < length (filter P ks) \<longleftrightarrow> (\<exists>k \<in> set ks. P k)" for P
    by (auto simp: filter_empty_conv)
  have len: "length (remdups ?m) = 1 \<or> 2 \<le> length (remdups ?m) \<longleftrightarrow> remdups ?m \<noteq> []"
    by (cases "remdups ?m"; cases "tl (remdups ?m)") auto
  show ?thesis
    unfolding mergeRule_def sufficient_def Let_def pos two [symmetric]
    using one len by (simp split: if_splits) blast
qed

lemma sufficient_moderate: "sufficient ks \<Longrightarrow> 2 \<le> maxStrength ks"
  by (fastforce simp: sufficient_def dest: maxStrength_ge)

lemma sufficient_mono: "set ks \<subseteq> set ks' \<Longrightarrow> sufficient ks \<Longrightarrow> sufficient ks'"
  unfolding sufficient_def by blast

end
