(* ===== verification/Identity_Rules.thy ===== *)
theory Identity_Rules
  imports Identity "HOL-Library.Multiset"
begin

text \<open>
  The rules of ADR-007, ADR-094 and ADR-096 as an abstract judgement of one candidate, the proof
  that the scoring loop of \<open>Resolve\<close> refines it (each list the loop builds is the candidates of one
  judgement), and the properties of the resolver: what a merge, an attach and a rotation imply,
  what always queues, and that the verdict does not depend on the order of the candidates.
\<close>

section \<open>The judgement of one candidate\<close>

datatype judgement = JLapsed | JRotated | JOutvoted | JQualified | JNothing | JHandover | JContested | JAttached

definition keptConflicts :: "IdentityKey list \<Rightarrow> time \<Rightarrow> duration \<Rightarrow> Candidate \<Rightarrow> IdentityKey list" where
  "keptConflicts obs now window c =
     (let co = snd (compare_keys obs (Keys c))
      in if atHeldAddress (observedAddress obs) c now window
         then filter (\<lambda>k. kType k \<noteq> KeyServiceCert) co else co)"

definition agreement :: "IdentityKey list \<Rightarrow> Candidate \<Rightarrow> IdentityKey list" where
  "agreement obs c = fst (compare_keys obs (Keys c))"

definition judge :: "IdentityKey list \<Rightarrow> time \<Rightarrow> duration \<Rightarrow> Candidate \<Rightarrow> judgement" where
  "judge obs now window c =
     (let held = atHeldAddress (observedAddress obs) c now window;
          ag = agreement obs c; co = keptConflicts obs now window c
      in if held \<and> co \<noteq> [] \<and> ag = [] \<and> \<not> holdsAddressInWindow c now window
            \<and> occupantLapsed co (CandContinuity c) now window then JLapsed
         else if held \<and> co \<noteq> [] \<and> rotationFailures co ag (CandContinuity c) = [] then JRotated
         else if ag \<noteq> [] \<and> maxStrength ag \<le> maxStrength co then JOutvoted
         else if sufficient ag then JQualified
         else if \<not> held then JNothing
         else if co \<noteq> [] then JHandover
         else if ContestFresh c now window then JContested
         else JAttached)"

definition contest :: "judgement \<Rightarrow> bool" where
  "contest j \<longleftrightarrow> j = JOutvoted \<or> j = JHandover \<or> j = JContested"

definition attach :: "judgement \<Rightarrow> bool" where
  "attach j \<longleftrightarrow> j = JRotated \<or> j = JAttached"

text \<open>What the loop records of a candidate when it appends it to one of its lists.\<close>

definition recorded :: "IdentityKey list \<Rightarrow> time \<Rightarrow> duration \<Rightarrow> Candidate \<Rightarrow> scored" where
  "recorded obs now window c =
     (let ag = agreement obs c; co = keptConflicts obs now window c; j = judge obs now window c
      in \<lparr>sc = c, agreeing = ag, conflicts = co, merges = sufficient ag,
          swhy = (if j = JHandover then WhyHandover else if j = JContested then WhyContested
                  else snd (mergeRule ag)),
          handover = (atHeldAddress (observedAddress obs) c now window \<and> co \<noteq> []),
          slapsed = (j = JLapsed)\<rparr>)"

section \<open>The loop refines the judgement\<close>

lemma score_simps [simp]:
  "sc (score obs c) = c" "agreeing (score obs c) = agreement obs c"
  "conflicts (score obs c) = snd (compare_keys obs (Keys c))"
  "merges (score obs c) = sufficient (agreement obs c)"
  "swhy (score obs c) = snd (mergeRule (agreement obs c))"
  "handover (score obs c) = False" "slapsed (score obs c) = False"
  by (simp_all add: score_def agreement_def case_prod_beta mergeRule_sufficient [symmetric])

definition certConflicts :: "IdentityKey list \<Rightarrow> time \<Rightarrow> duration \<Rightarrow> Candidate \<Rightarrow> IdentityKey list" where
  "certConflicts obs now window c =
     (if atHeldAddress (observedAddress obs) c now window
      then filter (\<lambda>k. kType k = KeyServiceCert) (snd (compare_keys obs (Keys c))) else [])"

lemma splitCerts_score:
  "splitCerts (atHeldAddress (observedAddress obs) c now window) (score obs c, v) =
     ((score obs c)\<lparr>conflicts := keptConflicts obs now window c\<rparr>,
      if certConflicts obs now window c = [] then v
      else v\<lparr>contradicted := (contradicted v)(AssetID c := certConflicts obs now window c)\<rparr>)"
proof -
  have "(score obs c)\<lparr>conflicts := snd (compare_keys obs (Keys c))\<rparr> = score obs c"
    by (simp add: score_def case_prod_beta)
  moreover have "filter (\<lambda>k. kType k = KeyServiceCert) xs = [] \<Longrightarrow> filter (\<lambda>k. kType k \<noteq> KeyServiceCert) xs = xs"
    for xs by (auto simp: filter_empty_conv filter_id_conv)
  ultimately have "filter (\<lambda>k. kType k = KeyServiceCert) (snd (compare_keys obs (Keys c))) = [] \<Longrightarrow>
      (score obs c)\<lparr>conflicts := filter (\<lambda>k. kType k \<noteq> KeyServiceCert) (snd (compare_keys obs (Keys c)))\<rparr>
        = score obs c"
    by metis
  with \<open>(score obs c)\<lparr>conflicts := snd (compare_keys obs (Keys c))\<rparr> = score obs c\<close> show ?thesis
    by (simp add: splitCerts_def keptConflicts_def certConflicts_def Let_def)
qed

lemmas step_unfold = resolve_step_def Let_def splitCerts_score prod.case

lemma step_lists:
  "contested (resolve_step obs now window c v) =
     contested v @ (if contest (judge obs now window c) then [recorded obs now window c] else [])"
  "qualifying (resolve_step obs now window c v) =
     qualifying v @ (if judge obs now window c = JQualified then [recorded obs now window c] else [])"
  "lapsed (resolve_step obs now window c v) =
     lapsed v @ (if judge obs now window c = JLapsed then [recorded obs now window c] else [])"
  "attachable (resolve_step obs now window c v) =
     attachable v @ (if attach (judge obs now window c) then [c] else [])"
  unfolding step_unfold
  by (auto simp: Let_def step_guard_def judge_def recorded_def contest_def attach_def)

lemma step_maps:
  "rotated (resolve_step obs now window c v) =
     (if judge obs now window c = JRotated
      then (rotated v)(AssetID c := keptConflicts obs now window c) else rotated v)"
  "corroborated (resolve_step obs now window c v) =
     (if attach (judge obs now window c) \<or> judge obs now window c = JContested
      then (corroborated v)(AssetID c := moderateOrStronger (agreement obs c)) else corroborated v)"
  "contradicted (resolve_step obs now window c v) =
     (if certConflicts obs now window c = [] then contradicted v
      else (contradicted v)(AssetID c := certConflicts obs now window c))"
  unfolding step_unfold
  by (auto simp: Let_def step_guard_def judge_def attach_def)

text \<open>The loop as a whole: every list is the candidates of one judgement, in order.\<close>

abbreviation loop :: "IdentityKey list \<Rightarrow> time \<Rightarrow> duration \<Rightarrow> Candidate list \<Rightarrow> resolve_vars" where
  "loop obs now window cs \<equiv> fold (resolve_step obs now window) cs resolve_init"

lemma fold_lists:
  "contested (fold (resolve_step obs now window) cs v) =
     contested v @ map (recorded obs now window) (filter (\<lambda>c. contest (judge obs now window c)) cs)"
  "qualifying (fold (resolve_step obs now window) cs v) =
     qualifying v @ map (recorded obs now window) (filter (\<lambda>c. judge obs now window c = JQualified) cs)"
  "lapsed (fold (resolve_step obs now window) cs v) =
     lapsed v @ map (recorded obs now window) (filter (\<lambda>c. judge obs now window c = JLapsed) cs)"
  "attachable (fold (resolve_step obs now window) cs v) =
     attachable v @ filter (\<lambda>c. attach (judge obs now window c)) cs"
  by (induction cs arbitrary: v) (simp_all add: step_lists)

lemma resolve_init_simps [simp]:
  "contested resolve_init = []" "qualifying resolve_init = []" "lapsed resolve_init = []"
  "attachable resolve_init = []" "rotated resolve_init = (\<lambda>_. [])"
  "contradicted resolve_init = (\<lambda>_. [])" "corroborated resolve_init = (\<lambda>_. [])"
  by (simp_all add: resolve_init_def)

lemma fold_upd_sound:
  assumes step: "\<forall>c v. f (step c v) = (if P c then (f v)(k c := g c) else f v)"
    and "f (fold step cs v) i \<noteq> f v i"
  shows "\<exists>c \<in> set cs. P c \<and> k c = i \<and> f (fold step cs v) i = g c"
  using assms(2)
proof (induction cs arbitrary: v)
  case (Cons c cs)
  show ?case
  proof (cases "f (fold step cs (step c v)) i = f (step c v) i")
    case True
    with Cons.prems step show ?thesis by (auto split: if_splits)
  next
    case False
    then show ?thesis using Cons.IH by auto
  qed
qed simp

lemma loop_rotated:
  assumes "rotated (loop obs now window cs) i \<noteq> []"
  shows "\<exists>c \<in> set cs. judge obs now window c = JRotated \<and> AssetID c = i
           \<and> rotated (loop obs now window cs) i = keptConflicts obs now window c"
  using fold_upd_sound [where f = rotated and step = "resolve_step obs now window" and v = resolve_init] assms
  by (simp add: step_maps(1))

section \<open>The decision\<close>

text \<open>Which decision a list of judgements gives.\<close>

definition decide :: "judgement list \<Rightarrow> Decision" where
  "decide js =
     (let n = (\<lambda>P. length (filter P js))
      in if n contest > 0 then DecisionQueue
         else if n (\<lambda>j. j = JQualified) > 1 then DecisionQueue
         else if n (\<lambda>j. j = JQualified) = 1 then DecisionMerge
         else if n (\<lambda>j. j = JLapsed) = 1 \<and> n attach = 0 then DecisionNewAsset
         else if n attach > 1 then DecisionQueue
         else if n attach = 1 then DecisionAttach
         else DecisionNewAsset)"

lemma filter_judge: "filter P (map f cs) = map f (filter (\<lambda>c. P (f c)) cs)"
  by (simp add: filter_map o_def)

lemma Resolve_decision:
  "vDecision (Resolve obs cs now window) =
     (if twoValuesOnOneService obs \<noteq> [] then DecisionQueue else decide (map (judge obs now window) cs))"
  by (simp add: Resolve_def resolve_verdict_def verdict_def decide_def Let_def fold_lists filter_judge)

lemma fold_upd_present:
  assumes step: "\<forall>c v. f (step c v) = (if P c then (f v)(k c := g c) else f v)"
    and "c \<in> set cs" "P c" "\<forall>d. P d \<longrightarrow> g d \<noteq> []"
  shows "f (fold step cs v) (k c) \<noteq> []"
  using assms(2)
proof (induction cs rule: rev_induct)
  case (snoc d cs)
  then show ?case using step assms(3,4) by (cases "c = d") auto
qed simp

lemma judge_rotated:
  assumes "judge obs now window c = JRotated"
  shows "atHeldAddress (observedAddress obs) c now window" "keptConflicts obs now window c \<noteq> []"
    "rotationFailures (keptConflicts obs now window c) (agreement obs c) (CandContinuity c) = []"
  using assms by (auto simp: judge_def Let_def split: if_splits)

lemma judge_attached:
  assumes "judge obs now window c = JAttached"
  shows "atHeldAddress (observedAddress obs) c now window" "keptConflicts obs now window c = []"
    "\<not> ContestFresh c now window" "holdsAddressInWindow c now window" "\<not> sufficient (agreement obs c)"
  using assms by (auto simp: judge_def Let_def atHeldAddress_def split: if_splits)

lemma judge_qualified:
  assumes "judge obs now window c = JQualified"
  shows "sufficient (agreement obs c)"
    "maxStrength (keptConflicts obs now window c) < maxStrength (agreement obs c)"
  using assms sufficient_moderate [of "agreement obs c"]
  by (auto simp: judge_def Let_def split: if_splits)

lemma judge_sufficient:
  assumes "sufficient (agreement obs c)"
  shows "judge obs now window c \<in> {JQualified, JRotated, JOutvoted}"
  using assms by (auto simp: judge_def Let_def sufficient_def)

lemma loop_rotated_present:
  assumes "c \<in> set cs" "judge obs now window c = JRotated"
  shows "rotated (loop obs now window cs) (AssetID c) \<noteq> []"
proof -
  have upd: "\<forall>c v. rotated (resolve_step obs now window c v) =
      (if judge obs now window c = JRotated
       then (rotated v)(AssetID c := keptConflicts obs now window c) else rotated v)"
    by (simp add: step_maps(1))
  show ?thesis
    by (rule fold_upd_present [OF upd assms(1)]) (use assms(2) judge_rotated(2) in auto)
qed

lemma filter_singleton: "length (filter P xs) = 1 \<Longrightarrow> \<exists>x. filter P xs = [x] \<and> x \<in> set xs \<and> P x"
proof -
  assume "length (filter P xs) = 1"
  then obtain x where "filter P xs = [x]" by (cases "filter P xs") auto
  then have "x \<in> {x \<in> set xs. P x}" by (metis list.set_intros(1) set_filter)
  with \<open>filter P xs = [x]\<close> show ?thesis by blast
qed

text \<open>The shape of a verdict for each decision it can take.\<close>

lemma Resolve_no_two:
  assumes "vDecision (Resolve obs cs now window) \<noteq> DecisionQueue"
  shows "Resolve obs cs now window = resolve_verdict window (loop obs now window cs)"
    "filter (\<lambda>c. contest (judge obs now window c)) cs = []"
  using assms
  by (auto simp: Resolve_def resolve_verdict_def verdict_def Let_def fold_lists split: if_splits)

lemma Resolve_mergeE:
  assumes "vDecision (Resolve obs cs now window) = DecisionMerge"
  obtains c where "filter (\<lambda>c. judge obs now window c = JQualified) cs = [c]" "c \<in> set cs"
    "judge obs now window c = JQualified"
    "Resolve obs cs now window = (verdict DecisionMerge (MergedBecause (swhy (recorded obs now window c))))
       \<lparr>vAssetID := AssetID c, vAgreeing := agreement obs c,
        vContradicted := contradicted (loop obs now window cs) (AssetID c),
        vCorroborated := moderateOrStronger (agreement obs c)\<rparr>"
proof -
  have R: "Resolve obs cs now window = resolve_verdict window (loop obs now window cs)"
    "filter (\<lambda>c. contest (judge obs now window c)) cs = []"
    using Resolve_no_two assms by simp_all
  with assms have "length (filter (\<lambda>c. judge obs now window c = JQualified) cs) = 1"
    by (auto simp: resolve_verdict_def verdict_def Let_def fold_lists split: if_splits)
  then obtain c where c: "filter (\<lambda>c. judge obs now window c = JQualified) cs = [c]" "c \<in> set cs"
      "judge obs now window c = JQualified"
    by (blast dest: filter_singleton)
  show ?thesis
  proof (rule that [OF c])
    show "Resolve obs cs now window = (verdict DecisionMerge (MergedBecause (swhy (recorded obs now window c))))
       \<lparr>vAssetID := AssetID c, vAgreeing := agreement obs c,
        vContradicted := contradicted (loop obs now window cs) (AssetID c),
        vCorroborated := moderateOrStronger (agreement obs c)\<rparr>"
      using R c(1) by (simp add: resolve_verdict_def Let_def fold_lists recorded_def)
  qed
qed

lemma Resolve_attachE:
  assumes "vDecision (Resolve obs cs now window) = DecisionAttach"
  obtains c where "filter (\<lambda>c. attach (judge obs now window c)) cs = [c]" "c \<in> set cs"
    "attach (judge obs now window c)" "vAssetID (Resolve obs cs now window) = AssetID c"
    "vRotated (Resolve obs cs now window) = rotated (loop obs now window cs) (AssetID c)"
proof -
  have R: "Resolve obs cs now window = resolve_verdict window (loop obs now window cs)"
    "filter (\<lambda>c. contest (judge obs now window c)) cs = []"
    using Resolve_no_two assms by simp_all
  with assms have q: "\<not> 1 < length (filter (\<lambda>c. judge obs now window c = JQualified) cs)
        \<and> length (filter (\<lambda>c. judge obs now window c = JQualified) cs) \<noteq> 1"
      and l: "length (filter (\<lambda>c. attach (judge obs now window c)) cs) = 1"
    by (auto simp: resolve_verdict_def verdict_def Let_def fold_lists split: if_splits)
  then obtain c where "filter (\<lambda>c. attach (judge obs now window c)) cs = [c]" "c \<in> set cs"
      "attach (judge obs now window c)"
    by (blast dest: filter_singleton)
  then show ?thesis
    using that R q by (simp add: resolve_verdict_def verdict_def Let_def fold_lists)
qed

section \<open>Keys that survive deduplication\<close>

lemma char_of_zero: "char_of (0 :: nat) = CHR 0x00"
  by (simp add: char_of_def)

lemma ranked_type_no_sep:
  assumes "0 < Strength t"
  shows "char_of (0 :: nat) \<notin> set t" "CHR ''|'' \<notin> set t"
proof -
  have t: "t \<in> {KeyAgentUUID, KeyCloudID, KeyDMIUUID, KeyTPMCertFP, KeyHostCert, KeySSHHostKey,
      KeyServiceCert, KeyHostnameOS, KeyMAC, KeyNetBIOS, KeyIPWindow}"
    using assms by (auto simp: Strength_def split: if_splits)
  show "char_of (0 :: nat) \<notin> set t" "CHR ''|'' \<notin> set t"
    using t by (auto simp: char_of_zero)
qed

lemma append_sep_inject:
  "x \<notin> set as \<Longrightarrow> x \<notin> set bs \<Longrightarrow> as @ x # cs = bs @ x # ds \<longleftrightarrow> as = bs \<and> cs = ds"
proof (induction as arbitrary: bs)
  case Nil
  then show ?case by (cases bs) auto
next
  case (Cons a as)
  then show ?case by (cases bs) auto
qed

lemma keyID_type:
  assumes "keyID j = keyID k" "0 < Strength (kType j)" "0 < Strength (kType k)"
  shows "kType j = kType k"
  using assms ranked_type_no_sep append_sep_inject unfolding keyID_def
  by (metis append_Cons append_Nil)

lemma compare_keys_conflict_covered:
  assumes "k \<in> set obs" "0 < Strength (kType k)" "contradicts k held"
  shows "\<exists>k' \<in> set (snd (compare_keys obs held)). keyID k' = keyID k \<and> kType k' = kType k"
proof -
  have "k \<in> set (snd (compare_loop obs held))" using assms compare_loop_sets by simp
  then obtain k' where k': "k' \<in> set (snd (compare_keys obs held))" "keyID k' = keyID k"
    using dedupe_loop_covers [of k "snd (compare_loop obs held)" "{}"]
    by (auto simp: compare_keys_def dedupe_def case_prod_beta)
  with compare_keys_conflicts [OF k'(1)] keyID_type assms(2) show ?thesis by blast
qed

lemma keptConflicts_weaker:
  assumes "maxStrength (keptConflicts obs now window c) < n" "k \<in> set obs" "contradicts k (Keys c)"
  shows "Strength (kType k) < n
     \<or> (kType k = KeyServiceCert \<and> atHeldAddress (observedAddress obs) c now window)"
proof (cases "Strength (kType k) = 0")
  case False
  then obtain k' where "k' \<in> set (snd (compare_keys obs (Keys c)))" "kType k' = kType k"
    using compare_keys_conflict_covered assms(2,3) by blast
  then show ?thesis
    using assms(1) maxStrength_ge [of k' "keptConflicts obs now window c"]
    by (auto simp: keptConflicts_def Let_def split: if_splits)
qed (use assms(1) in simp)

lemma keptConflicts_Nil:
  assumes "keptConflicts obs now window c = []" "k \<in> set obs" "0 < Strength (kType k)"
    "contradicts k (Keys c)"
  shows "kType k = KeyServiceCert \<and> atHeldAddress (observedAddress obs) c now window"
  using compare_keys_conflict_covered [OF assms(2-4)] assms(1)
  by (auto simp: keptConflicts_def Let_def filter_empty_conv split: if_splits)

section \<open>Two hosts behind one service\<close>

lemma ident_inject:
  assumes "2 \<le> Strength (kType j)" "2 \<le> Strength (kType k)"
  shows "kType j @ ''|'' @ kSource j = kType k @ ''|'' @ kSource k \<longleftrightarrow>
         kType j = kType k \<and> kSource j = kSource k"
  using ranked_type_no_sep [of "kType j"] ranked_type_no_sep [of "kType k"] assms
  by (simp add: append_sep_inject)

definition sees :: "(string \<rightharpoonup> string) \<Rightarrow> IdentityKey \<Rightarrow> bool" where
  "sees m k \<longleftrightarrow> 2 \<le> Strength (kType k) \<and> kSource k \<noteq> []
     \<and> (\<exists>v. m (kType k @ ''|'' @ kSource k) = Some v \<and> v \<noteq> kValue k)"

definition twoValues :: "IdentityKey list \<Rightarrow> bool" where
  "twoValues ks \<longleftrightarrow> (\<exists>j \<in> set ks. \<exists>k \<in> set ks. 2 \<le> Strength (kType j) \<and> kSource j \<noteq> []
     \<and> kType j = kType k \<and> kSource j = kSource k \<and> kValue j \<noteq> kValue k)"

lemma twoValues_skip:
  assumes "Strength (kType k) < 2 \<or> kSource k = []"
  shows "twoValues (k # ks) \<longleftrightarrow> twoValues ks" "\<not> sees m k"
  using assms by (auto simp: twoValues_def sees_def)

lemma twoValues_Cons:
  assumes "\<not> (Strength (kType k) < 2 \<or> kSource k = [])"
  shows "twoValues (k # ks) \<longleftrightarrow> twoValues ks
     \<or> (\<exists>x \<in> set ks. kType x = kType k \<and> kSource x = kSource k \<and> kValue x \<noteq> kValue k)"
  using assms by (auto simp: twoValues_def)

lemma sees_upd:
  assumes "\<not> (Strength (kType k) < 2 \<or> kSource k = [])"
  shows "sees (m(kType k @ ''|'' @ kSource k \<mapsto> kValue k)) x \<longleftrightarrow>
     (if kType x = kType k \<and> kSource x = kSource k then kValue x \<noteq> kValue k else sees m x)"
proof (cases "2 \<le> Strength (kType x)")
  case True
  then have "kType x @ ''|'' @ kSource x = kType k @ ''|'' @ kSource k \<longleftrightarrow>
      kType x = kType k \<and> kSource x = kSource k"
    using ident_inject [of x k] assms by (simp add: not_less)
  with True assms show ?thesis by (auto simp: sees_def)
qed (use assms in \<open>auto simp: sees_def\<close>)

lemma sees_same:
  assumes "\<not> sees m k" "sees m x" "kType x = kType k" "kSource x = kSource k"
  shows "kValue x \<noteq> kValue k"
  using assms by (auto simp: sees_def)

lemma twoValues_loop_iff:
  "twoValues_loop m ks \<noteq> [] \<longleftrightarrow> (\<exists>k \<in> set ks. sees m k) \<or> twoValues ks"
proof (induction ks arbitrary: m)
  case (Cons k ks)
  show ?case
  proof (cases "Strength (kType k) < 2 \<or> kSource k = []")
    case True
    then have "twoValues_loop m (k # ks) = twoValues_loop m ks" by simp
    with Cons.IH [of m] twoValues_skip [OF True] show ?thesis by simp
  next
    case ranked: False
    show ?thesis
    proof (cases "sees m k")
      case True
      with ranked have "twoValues_loop m (k # ks) = kSource k" by (auto simp: sees_def Let_def)
      with True show ?thesis by (auto simp: sees_def)
    next
      case False
      with ranked have "twoValues_loop m (k # ks) =
          twoValues_loop (m(kType k @ ''|'' @ kSource k \<mapsto> kValue k)) ks"
        by (auto simp: sees_def Let_def split: option.split)
      then have "twoValues_loop m (k # ks) \<noteq> [] \<longleftrightarrow>
          (\<exists>x \<in> set ks. if kType x = kType k \<and> kSource x = kSource k
             then kValue x \<noteq> kValue k else sees m x) \<or> twoValues ks"
        by (simp only: Cons.IH sees_upd [OF ranked])
      then show ?thesis
        unfolding twoValues_Cons [OF ranked]
        using False sees_same [OF False] by (metis (no_types, lifting) set_ConsD list.set_intros(2))
    qed
  qed
qed (simp add: twoValues_def)

lemma twoValuesOnOneService_iff: "twoValuesOnOneService ks \<noteq> [] \<longleftrightarrow> twoValues ks"
  by (simp add: twoValuesOnOneService_def twoValues_loop_iff sees_def)

section \<open>What the facts of a rotation are\<close>

text \<open>The four continuity facts of ADR-096 for one contradicting key.\<close>

definition rotationFacts :: "IdentityKey list \<Rightarrow> Continuity \<Rightarrow> IdentityKey \<Rightarrow> bool" where
  "rotationFacts ag f k \<longleftrightarrow>
     kType k = KeySSHHostKey
     \<and> (\<forall>a \<in> set ag. kType a = kType k \<longrightarrow> kSource a \<noteq> kSource k)
     \<and> (\<exists>kc. cKeys f (kSource k) = Some kc \<and> 2 \<le> NewKeyScans kc \<and> HeldKeySighted kc
             \<and> HeldKeyLastSeen kc < NewKeyFirstSeen kc \<and> \<not> NewKeyHeldElsewhere kc)"

lemma conflictFailures_Nil: "conflictFailures ag f k = [] \<longleftrightarrow> rotationFacts ag f k"
  by (auto simp: conflictFailures_def rotationFacts_def RotationScans_def filter_empty_conv split: option.splits)

lemma rotationFailures_Nil:
  "rotationFailures co ag fo = [] \<longleftrightarrow>
     co \<noteq> [] \<and> (\<exists>f. fo = Some f \<and> (\<forall>k \<in> set co. rotationFacts ag f k)
       \<and> servicesContinuous (HeldServices f) (ObservedServices f) \<and> osAgrees (HeldFamily f) (ObservedFamily f))"
  by (auto simp: rotationFailures_def conflictFailures_Nil split: option.splits)

section \<open>Properties of the resolver\<close>


text \<open>
  Weak evidence never merges, and neither does one fact: if every observed key is weak (an
  address, a MAC, a NetBIOS name), or every observed key is moderate and from one source, then no
  set of candidates makes \<open>Resolve\<close> merge.
\<close>

theorem Resolve_weak_never_merges:
  assumes "(\<forall>k \<in> set obs. Strength (kType k) \<le> 1)
         \<or> (\<exists>src. \<forall>k \<in> set obs. Strength (kType k) = 2 \<and> kSource k = src)"
  shows "vDecision (Resolve obs cs now window) \<noteq> DecisionMerge"
proof
  assume "vDecision (Resolve obs cs now window) = DecisionMerge"
  then obtain c where c: "judge obs now window c = JQualified" by (rule Resolve_mergeE)
  have "set (agreement obs c) \<subseteq> set obs"
    using compare_keys_agreeing by (auto simp: agreement_def)
  then have "sufficient obs" using judge_qualified(1) [OF c] sufficient_mono by blast
  with assms show False by (auto simp: sufficient_def)
qed

text \<open>
  Two hosts are never one asset: when one service presents two values of one moderate or
  strong key type, the observation is queued with all the candidates, whatever they hold.
\<close>

theorem Resolve_two_hosts_queue:
  assumes "j \<in> set obs" "k \<in> set obs" "2 \<le> Strength (kType j)" "kSource j \<noteq> []"
    and "kType j = kType k" "kSource j = kSource k" "kValue j \<noteq> kValue k"
  shows "vDecision (Resolve obs cs now window) = DecisionQueue
    \<and> vCandidates (Resolve obs cs now window) = map AssetID cs"
proof -
  have "twoValues obs" unfolding twoValues_def using assms by blast
  then have "twoValuesOnOneService obs \<noteq> []" by (simp add: twoValuesOnOneService_iff)
  then show ?thesis by (simp add: Resolve_def verdict_def assetIDs_def)
qed

text \<open>
  An attach is always at the address. When \<open>Resolve\<close> attaches, the asset holds the observed
  address; either nothing is rotated, and then the asset was seen there within the window, no
  contradiction is pending there, and every ranked key that contradicts it is a certificate; or
  the rotated keys are SSH host keys each with the four continuity facts, and every held
  service still answers with its product and the OS family agrees.
\<close>

theorem Resolve_attach_sound:
  assumes "vDecision (Resolve obs cs now window) = DecisionAttach"
  shows "\<exists>c \<in> set cs. AssetID c = vAssetID (Resolve obs cs now window)
    \<and> observedAddress obs \<noteq> [] \<and> HeldAddress c = observedAddress obs
    \<and> (if vRotated (Resolve obs cs now window) = []
       then holdsAddressInWindow c now window \<and> \<not> ContestFresh c now window
          \<and> (\<forall>k \<in> set obs. 0 < Strength (kType k) \<and> contradicts k (Keys c) \<longrightarrow> kType k = KeyServiceCert)
       else \<exists>f. CandContinuity c = Some f
          \<and> (\<forall>k \<in> set (vRotated (Resolve obs cs now window)). rotationFacts (agreement obs c) f k)
          \<and> servicesContinuous (HeldServices f) (ObservedServices f)
          \<and> osAgrees (HeldFamily f) (ObservedFamily f))"
proof -
  obtain c where c: "filter (\<lambda>c. attach (judge obs now window c)) cs = [c]" "c \<in> set cs"
      "attach (judge obs now window c)"
    and V: "vAssetID (Resolve obs cs now window) = AssetID c"
      "vRotated (Resolve obs cs now window) = rotated (loop obs now window cs) (AssetID c)"
    using assms by (rule Resolve_attachE)
  have held: "atHeldAddress (observedAddress obs) c now window"
    using c(3) judge_rotated(1) judge_attached(1) by (auto simp: attach_def)
  show ?thesis
  proof (cases "rotated (loop obs now window cs) (AssetID c) = []")
    case True
    then have j: "judge obs now window c = JAttached"
      using c loop_rotated_present by (auto simp: attach_def)
    show ?thesis
      unfolding V using True c(2) held judge_attached [OF j] keptConflicts_Nil
      by (auto simp: atHeldAddress_def intro!: bexI [of _ c])
  next
    case False
    then obtain d where d: "d \<in> set cs" "judge obs now window d = JRotated"
      "rotated (loop obs now window cs) (AssetID c) = keptConflicts obs now window d"
      using loop_rotated by metis
    then have "d \<in> set (filter (\<lambda>c. attach (judge obs now window c)) cs)" by (simp add: attach_def)
    then have "d = c" using c(1) by simp
    with d judge_rotated(3) [OF d(2)] False held c(2) show ?thesis
      unfolding V by (auto simp: rotationFailures_Nil atHeldAddress_def intro!: bexI [of _ c])
  qed
qed

text \<open>
  A contested address waits. Let a candidate hold the observed address without evidence that
  would merge it. If some key that is not a certificate contradicts it and the contradiction is
  not a rotation (while the occupant agrees with something or was seen within the window), or if
  nothing contradicts it but a contradiction is already pending there, then the observation is
  queued and that asset is among the ones offered, whatever the other candidates are.
\<close>

theorem Resolve_contested_waits:
  assumes "c \<in> set cs" "atHeldAddress (observedAddress obs) c now window" "\<not> sufficient (agreement obs c)"
    and "keptConflicts obs now window c \<noteq> []
           \<and> rotationFailures (keptConflicts obs now window c) (agreement obs c) (CandContinuity c) \<noteq> []
           \<and> (agreement obs c \<noteq> [] \<or> holdsAddressInWindow c now window)
         \<or> keptConflicts obs now window c = [] \<and> ContestFresh c now window"
  shows "vDecision (Resolve obs cs now window) = DecisionQueue
    \<and> AssetID c \<in> set (vCandidates (Resolve obs cs now window))"
proof -
  have j: "contest (judge obs now window c)"
    using assms(2-4) by (auto simp: contest_def judge_def Let_def)
  then have ne: "filter (\<lambda>c. contest (judge obs now window c)) cs \<noteq> []"
    using assms(1) by (auto simp: filter_empty_conv)
  show ?thesis
  proof (cases "twoValuesOnOneService obs = []")
    case True
    then show ?thesis
      using ne j assms(1)
      by (auto simp: Resolve_def resolve_verdict_def verdict_def Let_def fold_lists scoredIDs_def recorded_def
          intro!: image_eqI [of _ _ c])
  next
    case False
    then show ?thesis using assms(1) by (auto simp: Resolve_def verdict_def assetIDs_def)
  qed
qed

lemma filter_mset_length: "mset xs = mset ys \<Longrightarrow> length (filter P xs) = length (filter P ys)"
  by (metis mset_filter size_mset)

lemma filter_mset_single:
  assumes "mset xs = mset ys" "length (filter P xs) = 1"
  shows "filter P ys = filter P xs"
proof -
  obtain x where x: "filter P xs = [x]" using assms(2) by (cases "filter P xs") auto
  have "mset (filter P ys) = {#x#}" using assms(1) x by (metis mset_filter mset_single_iff)
  then show ?thesis using x by (simp only: mset_single_iff)
qed

lemma decide_mset: "mset js = mset js' \<Longrightarrow> decide js = decide js'"
  using filter_mset_length [of js js'] by (simp add: decide_def Let_def)

lemma Resolve_assetID:
  "vAssetID (Resolve obs cs now window) =
     (case vDecision (Resolve obs cs now window) of
        DecisionMerge \<Rightarrow> AssetID (hd (filter (\<lambda>c. judge obs now window c = JQualified) cs))
      | DecisionAttach \<Rightarrow> AssetID (hd (filter (\<lambda>c. attach (judge obs now window c)) cs))
      | _ \<Rightarrow> uuid_Nil)"
proof (cases "vDecision (Resolve obs cs now window)")
  case DecisionMerge
  then show ?thesis by (auto elim!: Resolve_mergeE)
next
  case DecisionAttach
  then show ?thesis by (auto elim!: Resolve_attachE)
qed (auto simp: Resolve_def resolve_verdict_def verdict_def Let_def split: if_splits)

text \<open>
  C26. The verdict does not depend on the order in which the candidates were loaded: for two
  orders of the same candidates the decision and the asset it names are the same.
\<close>

theorem Resolve_order_independent:
  assumes "mset cs = mset cs'"
  shows "vDecision (Resolve obs cs now window) = vDecision (Resolve obs cs' now window)
    \<and> vAssetID (Resolve obs cs now window) = vAssetID (Resolve obs cs' now window)"
proof -
  have "mset (map (judge obs now window) cs) = mset (map (judge obs now window) cs')"
    using assms by simp
  then have D: "vDecision (Resolve obs cs now window) = vDecision (Resolve obs cs' now window)"
    unfolding Resolve_decision using decide_mset by metis
  moreover have "vAssetID (Resolve obs cs now window) = vAssetID (Resolve obs cs' now window)"
  proof (cases "vDecision (Resolve obs cs now window)")
    case DecisionMerge
    then have "length (filter (\<lambda>c. judge obs now window c = JQualified) cs) = 1"
      by (auto elim!: Resolve_mergeE)
    then show ?thesis using D DecisionMerge filter_mset_single [OF assms] by (simp add: Resolve_assetID)
  next
    case DecisionAttach
    then have "length (filter (\<lambda>c. attach (judge obs now window c)) cs) = 1"
      by (auto elim!: Resolve_attachE)
    then show ?thesis using D DecisionAttach filter_mset_single [OF assms] by (simp add: Resolve_assetID)
  qed (use D in \<open>simp_all add: Resolve_assetID\<close>)
  ultimately show ?thesis by blast
qed

section \<open>Concrete evidence\<close>

definition key :: "string \<Rightarrow> string \<Rightarrow> string \<Rightarrow> IdentityKey" where
  "key t v src = \<lparr>kType = t, kValue = v, kSource = src, kObservationID = 0, kPayload = []\<rparr>"

definition asset :: "uuid \<Rightarrow> IdentityKey list \<Rightarrow> string \<Rightarrow> time \<Rightarrow> Continuity option \<Rightarrow> Candidate" where
  "asset i ks addr seen f =
     \<lparr>AssetID = i, Keys = ks, HeldAddress = addr, AddressLastSeen = seen, PendingContested = False,
      ContradictionLastSeen = 0, CandContinuity = f\<rparr>"

lemmas resolve_eval = Resolve_def twoValuesOnOneService_def resolve_step_def splitCerts_def step_guard_def
  resolve_verdict_def verdict_def resolve_init_def score_def compare_keys_def dedupe_def keyID_def
  mergeRule_def atHeldAddress_def holdsAddressInWindow_def ContestFresh_def Strength_def
  key_def asset_def moderateOrStronger_def judge_def agreement_def keptConflicts_def sufficient_def
  contest_def attach_def assetIDs_def scoredIDs_def contestedReason_def

text \<open>
  Two certificates from two ports corroborate each other: one wildcard certificate observed
  on ports 443 and 8443 of a host, and nothing else, merges that host into any asset that holds
  the same certificate on 443.
\<close>

theorem Resolve_same_certificate_twice_merges:
  "vDecision (Resolve [key KeyServiceCert w ''443/tcp'', key KeyServiceCert w ''8443/tcp'']
     [asset i [key KeyServiceCert w ''443/tcp''] addr seen f] now window) = DecisionMerge"
  by (simp add: resolve_eval)

text \<open>
  The example host: an SSH host key and a certificate at 10.0.0.7, and the asset that holds them
  there since instant 95; then the same asset after its SSH host key changed, with the
  measurements that make the change a rotation.
\<close>

definition ex_ssh :: IdentityKey where "ex_ssh = key KeySSHHostKey ''S'' ''22/tcp''"
definition ex_ssh2 :: IdentityKey where "ex_ssh2 = key KeySSHHostKey ''T'' ''22/tcp''"
definition ex_cert :: IdentityKey where "ex_cert = key KeyServiceCert ''W'' ''443/tcp''"
definition ex_ip :: IdentityKey where "ex_ip = key KeyIPWindow ''10.0.0.7'' ''net''"
definition ex_asset :: Candidate where "ex_asset = asset 7 [ex_ssh, ex_cert] ''10.0.0.7'' 95 None"
definition ex_other :: Candidate where "ex_other = asset 8 [] ''10.0.0.8'' 95 None"

definition ex_continuity :: Continuity where
  "ex_continuity =
     \<lparr>cKeys = [''22/tcp'' \<mapsto> \<lparr>NewKeyScans = 2, NewKeyFirstSeen = 90, HeldKeySighted = True,
                              HeldKeyLastSeen = 80, NewKeyHeldElsewhere = False\<rparr>],
      HeldServices = [\<lparr>ssPort = 22, ssProtocol = ''tcp'', ssProduct = ''OpenSSH''\<rparr>],
      ObservedServices = [\<lparr>ssPort = 22, ssProtocol = ''tcp'', ssProduct = ''OpenSSH''\<rparr>],
      HeldFamily = ''linux'', ObservedFamily = ''linux''\<rparr>"

definition ex_rotated :: Candidate where
  "ex_rotated = asset 7 [ex_ssh] ''10.0.0.7'' 95 (Some ex_continuity)"

lemmas ex_defs = ex_ssh_def ex_ssh2_def ex_cert_def ex_ip_def ex_asset_def ex_other_def ex_rotated_def

lemma ex_continuity_rotation: "rotationFailures [ex_ssh2] [] (Some ex_continuity) = []"
  by (simp add: rotationFailures_Nil rotationFacts_def ex_continuity_def ex_ssh2_def key_def
      servicesContinuous_def osAgrees_def EqualFold_def)


theorem Resolve_weak_never_merges_witness:
  "vDecision (Resolve [ex_ip] [ex_asset] 100 10) \<noteq> DecisionMerge"
  by (rule Resolve_weak_never_merges) (simp add: ex_ip_def key_def Strength_def)

theorem Resolve_two_hosts_queue_witness:
  "vDecision (Resolve [ex_ssh, ex_ssh2] [ex_asset] 100 10) = DecisionQueue
   \<and> vCandidates (Resolve [ex_ssh, ex_ssh2] [ex_asset] 100 10) = map AssetID [ex_asset]"
  by (rule Resolve_two_hosts_queue [where j = ex_ssh and k = ex_ssh2])
     (simp_all add: ex_ssh_def ex_ssh2_def key_def Strength_def)

theorem Resolve_attach_sound_witness:
  "vDecision (Resolve [ex_ip, ex_ssh2] [ex_rotated] 100 10) = DecisionAttach
   \<and> vRotated (Resolve [ex_ip, ex_ssh2] [ex_rotated] 100 10) = [ex_ssh2]
   \<and> (\<exists>c \<in> set [ex_rotated]. HeldAddress c = observedAddress [ex_ip, ex_ssh2])"
proof -
  have R: "vDecision (Resolve [ex_ip, ex_ssh2] [ex_rotated] 100 10) = DecisionAttach
      \<and> vRotated (Resolve [ex_ip, ex_ssh2] [ex_rotated] 100 10) = [ex_ssh2]"
    using ex_continuity_rotation by (simp add: resolve_eval ex_defs)
  with Resolve_attach_sound [of "[ex_ip, ex_ssh2]" "[ex_rotated]" 100 10] show ?thesis by blast
qed

theorem Resolve_contested_waits_witness:
  "vDecision (Resolve [ex_ip, ex_ssh2] [ex_other, ex_asset] 100 10) = DecisionQueue
   \<and> AssetID ex_asset \<in> set (vCandidates (Resolve [ex_ip, ex_ssh2] [ex_other, ex_asset] 100 10))"
  by (rule Resolve_contested_waits)
     (simp_all add: resolve_eval ex_defs rotationFailures_def)

theorem Resolve_order_independent_witness:
  "mset [ex_asset, ex_other] = mset [ex_other, ex_asset]
   \<and> vAssetID (Resolve [ex_ssh, ex_cert] [ex_asset, ex_other] 100 10) =
     vAssetID (Resolve [ex_ssh, ex_cert] [ex_other, ex_asset] 100 10)"
  using Resolve_order_independent [of "[ex_asset, ex_other]" "[ex_other, ex_asset]" "[ex_ssh, ex_cert]" 100 10]
  by simp

end
