(* ===== verification/Release.thy ===== *)
theory Release
  imports Go_Prelude "HOL-Library.Multiset" Complex_Main
begin

text \<open>
  \<open>internal/domain/release.go\<close>: the distribution release a host runs, inferred from the upstream
  versions its services show. \<open>float32\<close> confidences are rationals, so the model has no rounding.
\<close>

section \<open>The vote\<close>

definition UpstreamBand :: "string \<Rightarrow> string" where
  "UpstreamBand version =
     (let v = TrimSpace version;
          v = (case cutByte (CHR '':'') v of Some (_, r) \<Rightarrow> r | None \<Rightarrow> v);
          v = (case cutLastByte (CHR ''-'') v of Some (l, _) \<Rightarrow> l | None \<Rightarrow> v)
      in TrimSpace v)"

datatype ReleaseRole = ReleaseContributed | ReleaseAgreed | ReleaseIgnored | ReleaseAbstained

record ReleaseVote =
  rvService :: string
  rvPort :: "16 word"
  rvProduct :: string
  rvBand :: string
  rvCandidates :: "string list"
  rvHasAnalogue :: bool

record ReleaseSource =
  rsService :: string
  rsPort :: "16 word"
  rsProduct :: string
  rsBand :: string
  rsRole :: ReleaseRole
  rsReason :: string
  rsCandidates :: "string list"

record ReleaseResolution =
  rrRelease :: "string option"
  rrConfidence :: rat
  rrProvenance :: "ReleaseSource list"

definition ReleaseVoteThreshold :: nat where "ReleaseVoteThreshold = 2"

text \<open>The first loop: the tally, a map from release to votes, and the number of clean votes.\<close>

definition tally_step :: "ReleaseVote \<Rightarrow> (string \<rightharpoonup> nat) \<times> nat \<Rightarrow> (string \<rightharpoonup> nat) \<times> nat" where
  "tally_step v = (\<lambda>(m, n).
     case rvCandidates v of
       [r] \<Rightarrow> (m(r \<mapsto> (case m r of None \<Rightarrow> 0 | Some k \<Rightarrow> k) + 1), n + 1)
     | _ \<Rightarrow> (m, n))"

definition tally :: "ReleaseVote list \<Rightarrow> (string \<rightharpoonup> nat) \<times> nat" where
  "tally votes = fold tally_step votes (Map.empty, 0)"

text \<open>The keys of the tally, sorted: it has a key for every release with a clean vote.\<close>

definition cleanNames :: "ReleaseVote list \<Rightarrow> string list" where
  "cleanNames votes =
     sort (remdups (concat (map (\<lambda>v. case rvCandidates v of [r] \<Rightarrow> [r] | _ \<Rightarrow> []) votes)))"

definition leader_step :: "(string \<rightharpoonup> nat) \<Rightarrow> string \<Rightarrow> string \<times> nat \<times> bool \<Rightarrow> string \<times> nat \<times> bool" where
  "leader_step m r = (\<lambda>(leader, leaderCount, unique).
     let n = the (m r)
     in if n > leaderCount then (r, n, True)
        else if n = leaderCount then (leader, leaderCount, False)
        else (leader, leaderCount, unique))"

definition releaseConfidence :: "nat \<Rightarrow> nat \<Rightarrow> rat" where
  "releaseConfidence leaderCount totalClean =
     (let base = (if leaderCount \<ge> 4 then 95 / 100 else if leaderCount = 3 then 90 / 100
                  else if leaderCount = 2 then 80 / 100 else 60 / 100)
      in if totalClean = 0 then 0 else base * of_nat leaderCount / of_nat totalClean)"

definition contains_str :: "string list \<Rightarrow> string \<Rightarrow> bool" where
  "contains_str xs x = list_ex (\<lambda>s. s = x) xs"

definition releaseRole :: "string \<Rightarrow> nat \<Rightarrow> ReleaseVote \<Rightarrow> ReleaseRole \<times> string" where
  "releaseRole leader leaderCount v =
     (if \<not> rvHasAnalogue v then (ReleaseAbstained, ''no advisory package for this product in the keyspace'')
      else if rvBand v = [] then (ReleaseAbstained, ''no version was identified for this service'')
      else if length (rvCandidates v) = 0 then
        (ReleaseAbstained, ''observed version matches no release's band'')
      else if length (rvCandidates v) = 1 \<and> hd (rvCandidates v) = leader \<and> leaderCount > 0 then
        (ReleaseContributed, [])
      else if length (rvCandidates v) = 1 then (ReleaseIgnored, [])
      else if contains_str (rvCandidates v) leader \<and> leaderCount > 0 then (ReleaseAgreed, [])
      else (ReleaseIgnored, []))"

definition ResolveRelease :: "ReleaseVote list \<Rightarrow> ReleaseResolution" where
  "ResolveRelease votes =
     (let (m, totalClean) = tally votes;
          (leader, leaderCount, unique) = fold (leader_step m) (cleanNames votes) ([], 0, False);
          singleUnique = (leaderCount = 1 \<and> unique \<and> totalClean = 1);
          resolved = ((leaderCount \<ge> ReleaseVoteThreshold \<and> unique) \<or> singleUnique)
      in \<lparr>rrRelease = (if resolved then Some leader else None),
          rrConfidence = (if resolved then releaseConfidence leaderCount totalClean else 0),
          rrProvenance = map (\<lambda>v. let (role, reason) = releaseRole leader leaderCount v
             in \<lparr>rsService = rvService v, rsPort = rvPort v, rsProduct = rvProduct v, rsBand = rvBand v,
                 rsRole = role, rsReason = reason, rsCandidates = rvCandidates v\<rparr>) votes\<rparr>)"

section \<open>Counting votes\<close>

definition cleanVotes :: "ReleaseVote list \<Rightarrow> string \<Rightarrow> nat" where
  "cleanVotes votes r = length (filter (\<lambda>v. rvCandidates v = [r]) votes)"

definition allClean :: "ReleaseVote list \<Rightarrow> nat" where
  "allClean votes = length (filter (\<lambda>v. length (rvCandidates v) = 1) votes)"

lemma tally_fold:
  "(case fst (fold tally_step votes (m, n)) r of None \<Rightarrow> 0 | Some k \<Rightarrow> k) =
     (case m r of None \<Rightarrow> 0 | Some k \<Rightarrow> k) + cleanVotes votes r"
  "snd (fold tally_step votes (m, n)) = n + allClean votes"
  by (induction votes arbitrary: m n)
     (auto simp: tally_step_def cleanVotes_def allClean_def split: list.splits option.splits)

lemma tally_dom: "dom (fst (fold tally_step votes (m, n))) = dom m \<union> set (cleanNames votes)"
  by (induction votes arbitrary: m n) (auto simp: tally_step_def cleanNames_def split: list.splits)

lemma cleanNames_iff: "r \<in> set (cleanNames votes) \<longleftrightarrow> 0 < cleanVotes votes r"
  by (induction votes) (auto simp: cleanNames_def cleanVotes_def split: list.splits)

lemma tally_value:
  assumes "r \<in> set (cleanNames votes)"
  shows "the (fst (tally votes) r) = cleanVotes votes r"
proof -
  have "r \<in> dom (fst (tally votes))" using assms tally_dom [of votes Map.empty 0] by (simp add: tally_def)
  then show ?thesis using tally_fold(1) [of votes Map.empty 0 r] by (auto simp: tally_def)
qed

lemma tally_total: "snd (tally votes) = allClean votes"
  using tally_fold(2) [of votes Map.empty 0] by (simp add: tally_def)

text \<open>What the leader loop has found after the names seen so far.\<close>

definition leads :: "(string \<Rightarrow> nat) \<Rightarrow> string set \<Rightarrow> string \<times> nat \<times> bool \<Rightarrow> bool" where
  "leads f S = (\<lambda>(l, n, u).
     (\<forall>r \<in> S. f r \<le> n) \<and> (if S = {} then n = 0 \<and> \<not> u else l \<in> S \<and> n = f l \<and> 0 < n)
     \<and> (u \<longleftrightarrow> S \<noteq> {} \<and> (\<forall>r \<in> S. r \<noteq> l \<longrightarrow> f r < n)))"

lemma leads_step:
  assumes "leads f S st" "r \<notin> S" "0 < f r" "the (m r) = f r"
  shows "leads f (insert r S) (leader_step m r st)"
proof -
  obtain l n u where st: "st = (l, n, u)" by (cases st)
  have le: "\<forall>x \<in> S. f x \<le> n" and e: "S = {} \<Longrightarrow> n = 0 \<and> \<not> u" and ne: "S \<noteq> {} \<Longrightarrow> l \<in> S \<and> n = f l \<and> 0 < n"
    and u: "u \<longleftrightarrow> S \<noteq> {} \<and> (\<forall>x \<in> S. x \<noteq> l \<longrightarrow> f x < n)"
    using assms(1) unfolding leads_def st by (auto split: if_splits)
  consider "n < f r" | "f r = n" | "f r < n" by linarith
  then show ?thesis
  proof cases
    case 1
    then have "\<forall>x \<in> S. f x < f r" using le by (meson le_less_trans)
    with 1 assms(4) show ?thesis by (simp add: leads_def leader_step_def st less_imp_le)
  next
    case 2
    then have "S \<noteq> {}" using e assms(3) by auto
    with 2 ne le assms(2,4) show ?thesis by (auto simp: leads_def leader_step_def st)
  next
    case 3
    then have "S \<noteq> {}" using e by auto
    with 3 ne le u assms(2,4) show ?thesis by (auto simp: leads_def leader_step_def st)
  qed
qed

lemma leads_fold:
  assumes "leads f S st" "distinct rs" "set rs \<inter> S = {}" "\<forall>r \<in> set rs. 0 < f r \<and> the (m r) = f r"
  shows "leads f (S \<union> set rs) (fold (leader_step m) rs st)"
  using assms
proof (induction rs arbitrary: S st)
  case (Cons r rs)
  have "leads f (insert r S) (leader_step m r st)"
    using Cons.prems by (intro leads_step) auto
  then have "leads f (insert r S \<union> set rs) (fold (leader_step m) rs (leader_step m r st))"
    using Cons.prems by (intro Cons.IH) auto
  then show ?case by simp
qed simp

lemma leads_names:
  "leads (cleanVotes votes) (set (cleanNames votes))
     (fold (leader_step (fst (tally votes))) (cleanNames votes) ([], 0, False))"
proof -
  have "leads (cleanVotes votes) ({} \<union> set (cleanNames votes))
     (fold (leader_step (fst (tally votes))) (cleanNames votes) ([], 0, False))"
    by (rule leads_fold) (auto simp: leads_def cleanNames_iff tally_value, simp add: cleanNames_def)
  then show ?thesis by simp
qed

section \<open>The resolution\<close>

abbreviation leaderOf :: "ReleaseVote list \<Rightarrow> string \<times> nat \<times> bool" where
  "leaderOf votes \<equiv> fold (leader_step (fst (tally votes))) (cleanNames votes) ([], 0, False)"

lemma cleanVotes_le: "cleanVotes votes r \<le> allClean votes"
  by (induction votes) (auto simp: cleanVotes_def allClean_def)

lemma allClean_pos: "0 < allClean votes \<Longrightarrow> \<exists>r. 0 < cleanVotes votes r"
proof -
  assume "0 < allClean votes"
  then obtain v where "v \<in> set votes" "length (rvCandidates v) = 1"
    by (auto simp: allClean_def filter_empty_conv)
  moreover then obtain r where "rvCandidates v = [r]" by (cases "rvCandidates v") auto
  ultimately have "0 < cleanVotes votes r" by (auto simp: cleanVotes_def filter_empty_conv)
  then show ?thesis ..
qed

definition plurality :: "ReleaseVote list \<Rightarrow> string \<Rightarrow> bool" where
  "plurality votes r \<longleftrightarrow> (\<forall>r'. r' \<noteq> r \<longrightarrow> cleanVotes votes r' < cleanVotes votes r)"

lemma leaderOf_unique:
  assumes "leaderOf votes = (l, n, u)"
  shows "u \<longleftrightarrow> plurality votes l \<and> 0 < n" "0 < n \<Longrightarrow> n = cleanVotes votes l"
    "\<exists>r. 0 < cleanVotes votes r \<Longrightarrow> 0 < n" "cleanVotes votes r \<le> n"
proof -
  have L: "leads (cleanVotes votes) (set (cleanNames votes)) (l, n, u)"
    using leads_names [of votes] assms by simp
  have le: "cleanVotes votes x \<le> n" for x
    using L cleanNames_iff [of x votes] by (cases "cleanVotes votes x = 0") (auto simp: leads_def)
  show "cleanVotes votes r \<le> n" by (rule le)
  show n: "0 < n \<Longrightarrow> n = cleanVotes votes l" using L by (auto simp: leads_def split: if_splits)
  show "\<exists>r. 0 < cleanVotes votes r \<Longrightarrow> 0 < n" using le by (metis less_le_trans)
  have u: "u \<longleftrightarrow> set (cleanNames votes) \<noteq> {} \<and> (\<forall>r \<in> set (cleanNames votes). r \<noteq> l \<longrightarrow> cleanVotes votes r < n)"
    using L by (auto simp: leads_def)
  have "set (cleanNames votes) \<noteq> {} \<longleftrightarrow> 0 < n" using L by (auto simp: leads_def split: if_splits)
  with u n show "u \<longleftrightarrow> plurality votes l \<and> 0 < n"
    unfolding plurality_def by (metis cleanNames_iff gr0I)
qed

lemma plurality_unique: "plurality votes r \<Longrightarrow> plurality votes r' \<Longrightarrow> r = r'"
  unfolding plurality_def by (metis less_asym)

lemma ResolveRelease_Some:
  "rrRelease (ResolveRelease votes) = Some r \<longleftrightarrow>
     plurality votes r \<and> (2 \<le> cleanVotes votes r \<or> allClean votes = 1)"
proof -
  obtain l n u where L: "leaderOf votes = (l, n, u)" by (metis prod_cases3)
  note U = leaderOf_unique [OF L]
  have R: "rrRelease (ResolveRelease votes) =
      (if (2 \<le> n \<and> u) \<or> (n = 1 \<and> u \<and> allClean votes = 1) then Some l else None)"
    by (simp add: ResolveRelease_def case_prod_beta Let_def L tally_total ReleaseVoteThreshold_def)
  show ?thesis
  proof
    assume "rrRelease (ResolveRelease votes) = Some r"
    then have u: u "l = r" "2 \<le> n \<or> n = 1 \<and> allClean votes = 1" by (auto simp: R split: if_splits)
    with U(1,2) show "plurality votes r \<and> (2 \<le> cleanVotes votes r \<or> allClean votes = 1)" by auto
  next
    assume A: "plurality votes r \<and> (2 \<le> cleanVotes votes r \<or> allClean votes = 1)"
    then have "\<exists>r. 0 < cleanVotes votes r" using allClean_pos [of votes] by (metis le0 less_one gr0I not_numeral_le_zero)
    then have n: "0 < n" "n = cleanVotes votes l" using U(2,3) by auto
    then have "l = r" using A U(4) [of r] by (auto simp: plurality_def)
    with A n U(1) cleanVotes_le [of votes r] have "u" "2 \<le> n \<or> n = 1 \<and> allClean votes = 1" by auto
    with \<open>l = r\<close> show "rrRelease (ResolveRelease votes) = Some r" by (auto simp: R)
  qed
qed

lemma ResolveRelease_confidence:
  "rrConfidence (ResolveRelease votes) =
     (case rrRelease (ResolveRelease votes) of None \<Rightarrow> 0
      | Some r \<Rightarrow> releaseConfidence (cleanVotes votes r) (allClean votes))"
proof -
  obtain l n u where L: "leaderOf votes = (l, n, u)" by (metis prod_cases3)
  show ?thesis
    using leaderOf_unique(1,2) [OF L]
    by (auto simp: ResolveRelease_def case_prod_beta Let_def L tally_total ReleaseVoteThreshold_def)
qed

lemma releaseConfidence_mono:
  assumes "0 < n" "n \<le> t"
  shows "releaseConfidence n t \<le> releaseConfidence (Suc n) (Suc t)"
proof -
  define b where "b n = (if n \<ge> 4 then 95 / 100 else if n = 3 then 90 / 100
                  else if n = 2 then 80 / 100 else 60 / 100 :: rat)" for n :: nat
  have b: "b n \<le> b (Suc n)" "0 \<le> b n" using assms(1) by (auto simp: b_def)
  have frac: "of_nat n / of_nat t \<le> (of_nat (Suc n) / of_nat (Suc t) :: rat)"
    using assms by (simp add: divide_simps) (simp add: algebra_simps)
  have "b n * (of_nat n / of_nat t) \<le> b (Suc n) * (of_nat (Suc n) / of_nat (Suc t))"
    by (rule mult_mono [OF b(1) frac]) (use b in auto)
  moreover have "releaseConfidence k m = b k * (of_nat k / of_nat m)" if "0 < m" for k m
    using that by (simp add: releaseConfidence_def b_def Let_def)
  ultimately show ?thesis using assms by simp
qed

lemma releaseConfidence_bounds:
  assumes "0 < n" "n \<le> t"
  shows "0 < releaseConfidence n t \<and> releaseConfidence n t \<le> 95 / 100"
proof -
  have "of_nat n / of_nat t \<le> (1 :: rat)" "0 < of_nat n / (of_nat t :: rat)" using assms by auto
  then show ?thesis
    using assms by (auto simp: releaseConfidence_def Let_def field_simps)
qed

text \<open>
  A release is resolved exactly when it is the strict plurality winner of the clean votes (the
  services whose version band matches a single release) and either at least two services voted
  for it or its vote is the only clean vote. A tie, a split and a lone vote among several never
  resolve.
\<close>

theorem ResolveRelease_iff_plurality:
  "rrRelease (ResolveRelease votes) = Some r \<longleftrightarrow>
     (\<forall>r'. r' \<noteq> r \<longrightarrow> cleanVotes votes r' < cleanVotes votes r)
     \<and> (2 \<le> cleanVotes votes r \<or> allClean votes = 1)"
  by (simp add: ResolveRelease_Some plurality_def)

text \<open>
  Absence is not evidence: the resolved release and its confidence depend only on the multiset
  of clean votes. Abstaining and ambiguous services, and the order of the services, change neither.
\<close>

theorem ResolveRelease_clean_only:
  assumes "mset (filter (\<lambda>v. length (rvCandidates v) = 1) votes) =
           mset (filter (\<lambda>v. length (rvCandidates v) = 1) votes')"
  shows "rrRelease (ResolveRelease votes) = rrRelease (ResolveRelease votes')
    \<and> rrConfidence (ResolveRelease votes) = rrConfidence (ResolveRelease votes')"
proof -
  have c: "cleanVotes vs r = size {#v \<in># mset (filter (\<lambda>v. length (rvCandidates v) = 1) vs). rvCandidates v = [r]#}"
    for vs r
    by (induction vs) (auto simp: cleanVotes_def)
  have a: "allClean votes = allClean votes'"
    using arg_cong [OF assms, of size] unfolding allClean_def size_mset .
  have "rrRelease (ResolveRelease votes) = Some r \<longleftrightarrow> rrRelease (ResolveRelease votes') = Some r" for r
    unfolding ResolveRelease_Some plurality_def c assms a ..
  then have "rrRelease (ResolveRelease votes) = rrRelease (ResolveRelease votes')"
    by (metis option.exhaust)
  then show ?thesis unfolding ResolveRelease_confidence c assms a by simp
qed

text \<open>
  Corroboration never hurts: when a release is resolved, its confidence is positive and at most
  0.95, and one more service that votes for it keeps it resolved at a confidence at least as high.
\<close>

theorem ResolveRelease_corroboration:
  assumes "rrRelease (ResolveRelease votes) = Some r" "rvCandidates v = [r]"
  shows "0 < rrConfidence (ResolveRelease votes) \<and> rrConfidence (ResolveRelease votes) \<le> 95 / 100
    \<and> rrRelease (ResolveRelease (v # votes)) = Some r
    \<and> rrConfidence (ResolveRelease votes) \<le> rrConfidence (ResolveRelease (v # votes))"
proof -
  have P: "plurality votes r" "2 \<le> cleanVotes votes r \<or> allClean votes = 1"
    using assms(1) ResolveRelease_Some by auto
  have pos: "0 < cleanVotes votes r"
    using P allClean_pos [of votes] by (auto simp: plurality_def)
  have v: "cleanVotes (v # votes) r = Suc (cleanVotes votes r)" "allClean (v # votes) = Suc (allClean votes)"
    "\<And>r'. r' \<noteq> r \<Longrightarrow> cleanVotes (v # votes) r' = cleanVotes votes r'"
    using assms(2) by (auto simp: cleanVotes_def allClean_def)
  then have "plurality (v # votes) r" using P(1) by (simp add: plurality_def less_SucI)
  then have "rrRelease (ResolveRelease (v # votes)) = Some r"
    using pos v by (simp add: ResolveRelease_Some)
  with assms(1) v releaseConfidence_mono [OF pos cleanVotes_le] releaseConfidence_bounds [OF pos cleanVotes_le]
  show ?thesis by (simp add: ResolveRelease_confidence)
qed

section \<open>The upstream band\<close>

lemma UpstreamBand_parts:
  assumes "CHR '':'' \<notin> set e" "CHR ''-'' \<notin> set r" "TrimSpace (e @ '':'' @ u @ ''-'' @ r) = e @ '':'' @ u @ ''-'' @ r"
    and "TrimSpace u = u"
  shows "UpstreamBand (e @ '':'' @ u @ ''-'' @ r) = u"
  using assms by (simp add: UpstreamBand_def)

section \<open>Concrete votes\<close>

definition ex_vote :: "string \<Rightarrow> string list \<Rightarrow> ReleaseVote" where
  "ex_vote svc rs = \<lparr>rvService = svc, rvPort = 0, rvProduct = svc, rvBand = ''1'', rvCandidates = rs, rvHasAnalogue = True\<rparr>"

abbreviation ex_votes :: "ReleaseVote list" where
  "ex_votes \<equiv> [ex_vote ''ssh'' [''hardy''], ex_vote ''http'' [''precise'', ''quantal''], ex_vote ''mysql'' [''hardy'']]"

theorem ResolveRelease_iff_plurality_witness:
  "rrRelease (ResolveRelease ex_votes) = Some ''hardy''"
  by (subst ResolveRelease_iff_plurality) (simp add: cleanVotes_def ex_vote_def)

theorem ResolveRelease_clean_only_witness:
  "rrRelease (ResolveRelease ex_votes) =
   rrRelease (ResolveRelease [ex_vote ''mysql'' [''hardy''], ex_vote ''ssh'' [''hardy'']])"
  using ResolveRelease_clean_only [of ex_votes "[ex_vote ''mysql'' [''hardy''], ex_vote ''ssh'' [''hardy'']]"]
  by (simp add: ex_vote_def)

theorem ResolveRelease_corroboration_witness:
  "rrRelease (ResolveRelease ex_votes) = Some ''hardy''
   \<and> rrConfidence (ResolveRelease ex_votes) \<le> rrConfidence (ResolveRelease (ex_vote ''ftp'' [''hardy''] # ex_votes))"
proof -
  have "rrRelease (ResolveRelease ex_votes) = Some ''hardy''"
    by (simp add: ResolveRelease_Some plurality_def cleanVotes_def ex_vote_def)
  with ResolveRelease_corroboration [OF this, of "ex_vote ''ftp'' [''hardy'']"] show ?thesis
    by (simp add: ex_vote_def)
qed

end
