(* ===== verification/Attribution.thy ===== *)
theory Attribution
  imports Go_Prelude "HOL-Library.Multiset" Complex_Main
begin

text \<open>
  Three small verdicts of \<open>internal/domain\<close>: the OS family from service banners
  (\<open>attribution.go\<close>), the advisory status under the coverage window (\<open>coverage.go\<close>) and the scan
  cadence (\<open>cadence.go\<close>). \<open>float32\<close> confidences are rationals. A Go sort with a comparison that is
  a lexicographic chain is \<open>sort_key\<close> over the tuple of that chain, which is stable.
\<close>

section \<open>OS attribution\<close>

datatype AttributionRole = RoleContributed | RoleAgreed | RoleIgnored

record OSEvidence =
  oeService :: string
  oePort :: "16 word"
  oeFamily :: string
  oeConfidence :: rat

record AttributionSource =
  asService :: string
  asPort :: "16 word"
  asFamily :: string
  asRole :: AttributionRole

record Attribution =
  DistroFamily :: string
  DistroRelease :: "string option"
  atConfidence :: rat
  atProvenance :: "AttributionSource list"

definition osPrecedence :: "string list" where
  "osPrecedence = [''ssh'', ''http'', ''https'', ''smtp'', ''ftp'', ''smb'']"

fun osRank_loop :: "string list \<Rightarrow> string \<Rightarrow> nat" where
  "osRank_loop [] service = 0"
| "osRank_loop (s # ss) service = (if s = service then Suc (length ss) else osRank_loop ss service)"

text \<open>\<open>len(osPrecedence) - i\<close> is one more than what is left after index \<open>i\<close>.\<close>

definition osRank :: "string \<Rightarrow> nat" where
  "osRank service = osRank_loop osPrecedence service"

definition evidenceOrder :: "OSEvidence \<Rightarrow> int \<times> rat \<times> string \<times> 16 word" where
  "evidenceOrder e = (- int (osRank (oeService e)), - oeConfidence e, oeService e, oePort e)"

definition attributionSources :: "OSEvidence list \<Rightarrow> AttributionSource list" where
  "attributionSources sorted_ev =
     map (\<lambda>(i, e). \<lparr>asService = oeService e, asPort = oePort e, asFamily = oeFamily e,
            asRole = (if i = 0 then RoleContributed
                      else if oeFamily e \<noteq> oeFamily (hd sorted_ev) then RoleIgnored else RoleAgreed)\<rparr>)
       (zip [0..<length sorted_ev] sorted_ev)"

definition AttributeOS :: "OSEvidence list \<Rightarrow> Attribution" where
  "AttributeOS ev =
     (let sorted_ev = sort_key evidenceOrder (filter (\<lambda>e. oeFamily e \<noteq> []) ev)
      in if length sorted_ev = 0
         then \<lparr>DistroFamily = [], DistroRelease = None, atConfidence = 0, atProvenance = []\<rparr>
         else \<lparr>DistroFamily = oeFamily (hd sorted_ev), DistroRelease = None,
               atConfidence = oeConfidence (hd sorted_ev), atProvenance = attributionSources sorted_ev\<rparr>)"

section \<open>Advisory coverage\<close>

datatype MatchState = MatchVulnerable | MatchClean | MatchCannotKnow | MatchNoRelease

definition ClassifyMatch :: "bool \<Rightarrow> bool \<Rightarrow> MatchState" where
  "ClassifyMatch anyAdvisoryMatched releaseInCoverage =
     (if anyAdvisoryMatched then MatchVulnerable else if releaseInCoverage then MatchClean else MatchCannotKnow)"

definition AssetAdvisoryStatus :: "bool \<Rightarrow> bool \<Rightarrow> bool \<Rightarrow> MatchState" where
  "AssetAdvisoryStatus releaseResolved inCoverage anyAdvisoryFinding =
     (if \<not> releaseResolved then MatchNoRelease else ClassifyMatch anyAdvisoryFinding inCoverage)"

section \<open>Scan cadence\<close>

text \<open>Go's integer division truncates toward zero.\<close>

definition quotGo :: "int \<Rightarrow> int \<Rightarrow> int" where
  "quotGo a b = sgn a * sgn b * (\<bar>a\<bar> div \<bar>b\<bar>)"

definition consecutiveGaps :: "time list \<Rightarrow> duration list" where
  "consecutiveGaps ts = map (\<lambda>i. ts ! i - ts ! (i - 1)) [1..<length ts]"

definition MedianGap :: "time list \<Rightarrow> duration \<times> bool" where
  "MedianGap ats =
     (if length ats < 2 then (0, False)
      else let gaps = sort (consecutiveGaps (sort ats)); n = length gaps
           in if n mod 2 = 1 then (gaps ! (n div 2), True)
              else (quotGo (gaps ! (n div 2 - 1) + gaps ! (n div 2)) 2, True))"

section \<open>Attribution facts\<close>

lemma sort_key_Nil [simp]: "sort_key f xs = [] \<longleftrightarrow> xs = []"
  by (metis length_0_conv length_sort)

lemma hd_sort_key_le:
  assumes "xs \<noteq> []" "x \<in> set xs"
  shows "f (hd (sort_key f xs)) \<le> f x"
proof -
  have s: "sorted (map f (sort_key f xs))" "x \<in> set (sort_key f xs)" using assms by simp_all
  then show ?thesis by (cases "sort_key f xs") auto
qed

lemma hd_sort_key_in: "xs \<noteq> [] \<Longrightarrow> hd (sort_key f xs) \<in> set xs"
  by (metis hd_in_set set_sort length_sort length_0_conv)

text \<open>
  The winning banner. No attribution means that no evidence names a family. Otherwise the
  family and the confidence are those of one piece of evidence; no service of a higher rank
  named a family, and no service of the same rank did with more confidence; and the release is
  never set from banners.
\<close>

theorem AttributeOS_winner:
  "if \<exists>e \<in> set ev. oeFamily e \<noteq> []
   then (\<exists>w \<in> set ev. oeFamily w = DistroFamily (AttributeOS ev) \<and> DistroFamily (AttributeOS ev) \<noteq> []
     \<and> oeConfidence w = atConfidence (AttributeOS ev) \<and> DistroRelease (AttributeOS ev) = None
     \<and> (\<forall>e \<in> set ev. oeFamily e \<noteq> [] \<longrightarrow> osRank (oeService e) \<le> osRank (oeService w)
          \<and> (osRank (oeService e) = osRank (oeService w) \<longrightarrow> oeConfidence e \<le> oeConfidence w)))
   else DistroFamily (AttributeOS ev) = [] \<and> atProvenance (AttributeOS ev) = []"
proof (cases "\<exists>e \<in> set ev. oeFamily e \<noteq> []")
  case True
  let ?c = "filter (\<lambda>e. oeFamily e \<noteq> []) ev"
  let ?w = "hd (sort_key evidenceOrder ?c)"
  have ne: "?c \<noteq> []" using True by (auto simp: filter_empty_conv)
  have w: "?w \<in> set ?c" by (rule hd_sort_key_in [OF ne])
  have le: "evidenceOrder ?w \<le> evidenceOrder e" if "e \<in> set ev" "oeFamily e \<noteq> []" for e
    using hd_sort_key_le [OF ne, of e] that by simp
  have A: "DistroFamily (AttributeOS ev) = oeFamily ?w" "atConfidence (AttributeOS ev) = oeConfidence ?w"
    "DistroRelease (AttributeOS ev) = None"
    using ne by (simp_all add: AttributeOS_def Let_def)
  have "osRank (oeService e) \<le> osRank (oeService ?w)
      \<and> (osRank (oeService e) = osRank (oeService ?w) \<longrightarrow> oeConfidence e \<le> oeConfidence ?w)"
    if "e \<in> set ev" "oeFamily e \<noteq> []" for e
    using le [OF that] by (auto simp: evidenceOrder_def)
  with True A w show ?thesis by auto
qed (auto simp: AttributeOS_def Let_def filter_empty_conv)

text \<open>
  Attribution is a function of the set of banners, not of the order they arrive in, when one
  service and port at one confidence names one family.
\<close>

theorem AttributeOS_deterministic:
  assumes "mset ev = mset ev'"
    and "inj_on evidenceOrder (set ev)"
  shows "AttributeOS ev = AttributeOS ev'"
proof -
  have "mset (filter (\<lambda>e. oeFamily e \<noteq> []) ev) = mset (filter (\<lambda>e. oeFamily e \<noteq> []) ev')"
    using assms(1) by simp
  moreover have "inj_on evidenceOrder (set (filter (\<lambda>e. oeFamily e \<noteq> []) ev))"
    using assms(2) by (rule inj_on_subset) auto
  ultimately have "sort_key evidenceOrder (filter (\<lambda>e. oeFamily e \<noteq> []) ev) =
      sort_key evidenceOrder (filter (\<lambda>e. oeFamily e \<noteq> []) ev')"
    by (intro sort_key_inj_key_eq) simp_all
  then show ?thesis by (simp add: AttributeOS_def)
qed

section \<open>The median\<close>

lemma sorted_count_le:
  assumes "sorted g" "i < length g" "g ! i \<le> m"
  shows "Suc i \<le> length (filter (\<lambda>x. x \<le> m) g)"
proof -
  have "\<forall>x \<in> set (take (Suc i) g). x \<le> m"
  proof
    fix x assume "x \<in> set (take (Suc i) g)"
    then obtain k where "k \<le> i" "x = g ! k" by (auto simp: in_set_conv_nth less_Suc_eq_le)
    then have "x \<le> g ! i" using assms(1,2) by (simp add: sorted_nth_mono)
    with assms(3) show "x \<le> m" by simp
  qed
  then have "filter (\<lambda>x. x \<le> m) (take (Suc i) g) = take (Suc i) g" by (simp add: filter_id_conv)
  then have "length (filter (\<lambda>x. x \<le> m) (take (Suc i) g)) = Suc i" using assms(2) by simp
  moreover have "filter (\<lambda>x. x \<le> m) g =
      filter (\<lambda>x. x \<le> m) (take (Suc i) g) @ filter (\<lambda>x. x \<le> m) (drop (Suc i) g)"
    by (metis append_take_drop_id filter_append)
  ultimately show ?thesis by simp
qed

lemma sorted_count_ge:
  assumes "sorted g" "i < length g" "m \<le> g ! i"
  shows "length g - i \<le> length (filter (\<lambda>x. m \<le> x) g)"
proof -
  have "\<forall>x \<in> set (drop i g). m \<le> x"
  proof
    fix x assume "x \<in> set (drop i g)"
    then obtain k where "k < length g - i" "x = g ! (i + k)" by (auto simp: in_set_conv_nth)
    then have "g ! i \<le> x" using assms(1) by (simp add: sorted_nth_mono)
    with assms(3) show "m \<le> x" by simp
  qed
  then have "filter (\<lambda>x. m \<le> x) (drop i g) = drop i g" by (simp add: filter_id_conv)
  then have "length (filter (\<lambda>x. m \<le> x) (drop i g)) = length g - i" by simp
  moreover have "filter (\<lambda>x. m \<le> x) g = filter (\<lambda>x. m \<le> x) (take i g) @ filter (\<lambda>x. m \<le> x) (drop i g)"
    by (metis append_take_drop_id filter_append)
  ultimately show ?thesis by simp
qed

lemma gaps_nonneg: "\<forall>x \<in> set (consecutiveGaps (sort ats)). 0 \<le> x"
  by (auto simp: consecutiveGaps_def intro!: sorted_nth_mono)

lemma half_between: "0 \<le> a \<Longrightarrow> a \<le> b \<Longrightarrow> a \<le> quotGo (a + b) 2 \<and> quotGo (a + b) 2 \<le> b"
  by (auto simp: quotGo_def sgn_if)

text \<open>
  \<open>MedianGap\<close> is a median. With fewer than two instants it reports that there is no measure.
  With two or more it is non-negative, at least half of the gaps between consecutive instants
  are at most it and at least half are at least it.
\<close>

theorem MedianGap_median:
  "if length ats < 2 then MedianGap ats = (0, False)
   else \<exists>m. MedianGap ats = (m, True) \<and> 0 \<le> m
     \<and> length (consecutiveGaps (sort ats)) \<le> 2 * length (filter (\<lambda>x. x \<le> m) (consecutiveGaps (sort ats)))
     \<and> length (consecutiveGaps (sort ats)) \<le> 2 * length (filter (\<lambda>x. m \<le> x) (consecutiveGaps (sort ats)))"
proof (cases "length ats < 2")
  case False
  define c where "c = consecutiveGaps (sort ats)"
  define g where "g = sort c"
  define n where "n = length g"
  have sg: "sorted g" by (simp add: g_def)
  have n: "0 < n" "length c = n" using False by (simp_all add: n_def g_def c_def consecutiveGaps_def)
  have cnt: "length (filter P c) = length (filter P g)" for P
    unfolding g_def by (metis mset_filter mset_sort size_mset)
  have nn: "0 \<le> g ! i" if "i < n" for i
    using gaps_nonneg that nth_mem [of i g] by (simp add: g_def n_def c_def)
  define lo where "lo = (if n mod 2 = 1 then n div 2 else n div 2 - 1)"
  obtain m where m: "MedianGap ats = (m, True)" "g ! lo \<le> m" "m \<le> g ! (n div 2)"
  proof (cases "n mod 2 = 1")
    case True
    then show ?thesis using that False by (simp add: MedianGap_def Let_def lo_def g_def c_def n_def)
  next
    case even: False
    have "g ! (n div 2 - 1) \<le> g ! (n div 2)" using sg n by (intro sorted_nth_mono) (auto simp: n_def)
    then show ?thesis
      using that [of "quotGo (g ! (n div 2 - 1) + g ! (n div 2)) 2"] False even nn [of "n div 2 - 1"] n
        half_between [of "g ! (n div 2 - 1)" "g ! (n div 2)"]
      by (simp add: MedianGap_def Let_def lo_def g_def [symmetric] c_def [symmetric] n_def [symmetric])
  qed
  have lo: "lo < n" "n \<le> 2 * Suc lo" using n(1) by (auto simp: lo_def)
  have "n \<le> 2 * length (filter (\<lambda>x. x \<le> m) g)"
    using sorted_count_le [OF sg _ m(2)] lo by (simp add: n_def)
  moreover have "n \<le> 2 * length (filter (\<lambda>x. m \<le> x) g)"
    using sorted_count_ge [OF sg _ m(3)] n(1) by (simp add: n_def)
  moreover have "0 \<le> m" using nn [OF lo(1)] m(2) by simp
  ultimately show ?thesis using False m(1) n(2) cnt by (simp add: c_def [symmetric])
qed (simp add: MedianGap_def)

section \<open>Concrete banners\<close>

definition ex_banner :: "string \<Rightarrow> string \<Rightarrow> OSEvidence" where
  "ex_banner svc fam = \<lparr>oeService = svc, oePort = 0, oeFamily = fam, oeConfidence = 1 / 2\<rparr>"

theorem AttributeOS_winner_witness:
  "DistroFamily (AttributeOS [ex_banner ''smb'' ''windows'', ex_banner ''ssh'' ''ubuntu'']) \<noteq> []"
  using AttributeOS_winner [of "[ex_banner ''smb'' ''windows'', ex_banner ''ssh'' ''ubuntu'']"]
  by (simp add: ex_banner_def split: if_splits) metis

theorem AttributeOS_deterministic_witness:
  "AttributeOS [ex_banner ''smb'' ''windows'', ex_banner ''ssh'' ''ubuntu''] =
   AttributeOS [ex_banner ''ssh'' ''ubuntu'', ex_banner ''smb'' ''windows'']"
  by (rule AttributeOS_deterministic) (simp_all add: ex_banner_def evidenceOrder_def)

theorem MedianGap_median_witness:
  "\<exists>m. MedianGap [7, 1, 3] = (m, True) \<and> 0 \<le> m"
  using MedianGap_median [of "[7, 1, 3]"] by auto

end
