(* ===== verification/Kernel.thy ===== *)
theory Kernel
  imports Identity
begin

text \<open>
  \<open>internal/domain/kernel.go\<close>: an installed kernel package seen against the running kernel. The four
  regular expressions are the recognisers below. Each of their digit runs is followed by a byte
  that is not a digit or by the end, so a leftmost greedy match takes every run whole and is
  unique at its starting position.
\<close>

datatype KernelInstallState = NotKernel | KernelRunning | KernelInstalledNotRunning | KernelUnknown

definition KernelInstallState_String :: "KernelInstallState \<Rightarrow> string" where
  "KernelInstallState_String s =
     (case s of NotKernel \<Rightarrow> ''not-kernel'' | KernelRunning \<Rightarrow> ''kernel-running''
      | KernelInstalledNotRunning \<Rightarrow> ''kernel-installed-not-running'' | KernelUnknown \<Rightarrow> ''kernel-unknown'')"

text \<open>A run of digits (\<open>\d+\<close>) and what follows it.\<close>

definition digitRun :: "string \<Rightarrow> (string \<times> string) option" where
  "digitRun s = (let d = takeWhile isDigit s in if d = [] then None else Some (d, dropWhile isDigit s))"

text \<open>A digit run and then one given byte.\<close>

definition digitsThen :: "char \<Rightarrow> string \<Rightarrow> (string \<times> string) option" where
  "digitsThen b s =
     (case digitRun s of
        Some (d, c # r) \<Rightarrow> if c = b then Some (d @ [b], r) else None
      | _ \<Rightarrow> None)"

text \<open>\<open>\d+\.\d+\.\d+-\d+\<close> at the front: the text matched and the rest.\<close>

definition abiFront :: "string \<Rightarrow> (string \<times> string) option" where
  "abiFront s =
     (case digitsThen (CHR ''.'') s of None \<Rightarrow> None | Some (a, s1) \<Rightarrow>
      (case digitsThen (CHR ''.'') s1 of None \<Rightarrow> None | Some (b, s2) \<Rightarrow>
       (case digitsThen (CHR ''-'') s2 of None \<Rightarrow> None | Some (c, s3) \<Rightarrow>
        (case digitRun s3 of None \<Rightarrow> None | Some (d, r) \<Rightarrow> Some (a @ b @ c @ d, r)))))"

text \<open>
  \<open>debianABI\<close>: the leftmost \<open>-\<close> followed by an ABI and then by \<open>-\<close> or the end. The result is
  the first submatch and the text from its end.
\<close>

fun debianABI :: "string \<Rightarrow> (string \<times> string) option" where
  "debianABI [] = None"
| "debianABI (c # s) =
     (case (if c = CHR ''-'' then abiFront s else None) of
        Some (abi, rest) \<Rightarrow> if rest = [] \<or> hd rest = CHR ''-'' then Some (abi, rest) else debianABI s
      | None \<Rightarrow> debianABI s)"

definition debianReleaseABI :: "string \<Rightarrow> string" where
  "debianReleaseABI s = (case abiFront s of Some (abi, _) \<Rightarrow> abi | None \<Rightarrow> [])"

definition rpmKernelVersion :: "string \<Rightarrow> bool" where
  "rpmKernelVersion s \<longleftrightarrow> abiFront s \<noteq> None"

definition rpmArch :: "string \<Rightarrow> bool" where
  "rpmArch s \<longleftrightarrow> 1 \<le> length s \<and> length s \<le> 16 \<and> list_all (\<lambda>c. isLower c \<or> isDigit c \<or> c = CHR ''_'') s"

definition stripEpoch :: "string \<Rightarrow> string" where
  "stripEpoch v = (case cutByte (CHR '':'') v of Some (_, r) \<Rightarrow> r | None \<Rightarrow> v)"

definition ClassifyKernelPackage :: "string \<Rightarrow> string \<Rightarrow> string \<Rightarrow> string \<Rightarrow> KernelInstallState" where
  "ClassifyKernelPackage kernelRelease source binary version =
     (if (source = ''linux'' \<or> HasPrefix source ''linux-'') \<and> debianABI binary \<noteq> None then
        (if kernelRelease = [] then KernelUnknown
         else let abi = debianReleaseABI kernelRelease
              in if abi = [] then KernelUnknown
                 else let flavour = drop (length abi) kernelRelease;
                          (binaryABI, rest) = the (debianABI binary)
                      in if binaryABI \<noteq> abi then KernelInstalledNotRunning
                         else if rest = [] \<or> rest = flavour \<or> (flavour \<noteq> [] \<and> HasPrefix rest (flavour @ ''-''))
                         then KernelRunning else KernelInstalledNotRunning)
      else if (source = ''kernel'' \<or> HasPrefix source ''kernel-'') \<and> rpmKernelVersion (stripEpoch version) then
        (if kernelRelease = [] then KernelUnknown
         else let vr = stripEpoch version
              in if kernelRelease = vr then KernelRunning
                 else if HasPrefix kernelRelease (vr @ ''.'') \<and> rpmArch (drop (length vr + 1) kernelRelease)
                 then KernelRunning else KernelInstalledNotRunning)
      else NotKernel)"

definition KernelReleaseValid :: "string \<Rightarrow> bool" where
  "KernelReleaseValid v =
     (if v = [] \<or> MaxReleaseTokenLen < length v then False
      else list_all (\<lambda>c. isLower c \<or> isUpper c \<or> isDigit c \<or> c = CHR ''.'' \<or> c = CHR ''_'' \<or> c = CHR ''-''
                       \<or> c = CHR ''+'' \<or> c = CHR ''~'') v)"

section \<open>ABI strings\<close>

definition digits :: "string \<Rightarrow> bool" where
  "digits d \<longleftrightarrow> d \<noteq> [] \<and> list_all isDigit d"

definition abiOf :: "string \<Rightarrow> string \<Rightarrow> string \<Rightarrow> string \<Rightarrow> string" where
  "abiOf a b c d = a @ ''.'' @ b @ ''.'' @ c @ ''-'' @ d"

definition isABI :: "string \<Rightarrow> bool" where
  "isABI s \<longleftrightarrow> (\<exists>a b c d. s = abiOf a b c d \<and> digits a \<and> digits b \<and> digits c \<and> digits d)"

text \<open>A flavour: nothing, or a dash and a text with no further ABI in it.\<close>

definition stops :: "string \<Rightarrow> bool" where
  "stops r \<longleftrightarrow> r = [] \<or> \<not> isDigit (hd r)"

lemma not_digit [simp]: "\<not> isDigit (CHR ''.'')" "\<not> isDigit (CHR ''-'')"
  by (simp_all add: isDigit_def)

lemma digitRun_append: "digits d \<Longrightarrow> stops r \<Longrightarrow> digitRun (d @ r) = Some (d, r)"
proof -
  assume "digits d" "stops r"
  then have "takeWhile isDigit (d @ r) = d" "dropWhile isDigit (d @ r) = r" "d \<noteq> []"
    by (cases r; simp add: digits_def stops_def list_all_iff)+
  then show ?thesis by (simp add: digitRun_def)
qed

lemma digitsThen_append: "digits d \<Longrightarrow> \<not> isDigit b \<Longrightarrow> digitsThen b (d @ b # r) = Some (d @ [b], r)"
  using digitRun_append [of d "b # r"] by (simp add: digitsThen_def stops_def)

lemma abiFront_append: "isABI s \<Longrightarrow> stops r \<Longrightarrow> abiFront (s @ r) = Some (s, r)"
  by (auto simp: isABI_def abiOf_def abiFront_def digitsThen_append digitRun_append)

lemma isABI_hd: "isABI s \<Longrightarrow> s \<noteq> [] \<and> isDigit (hd s)"
  by (auto simp: isABI_def abiOf_def digits_def list_all_iff)

lemma abiFront_None: "\<not> isDigit c \<Longrightarrow> abiFront (c # s) = None"
  by (simp add: abiFront_def digitsThen_def digitRun_def)

text \<open>A package name whose words before the ABI do not start with a digit.\<close>

lemma debianABI_skip:
  assumes "\<And>p q. pre = p @ CHR ''-'' # q \<Longrightarrow> q \<noteq> [] \<and> \<not> isDigit (hd q)"
  shows "debianABI (pre @ CHR ''-'' # t) = debianABI (CHR ''-'' # t)"
  using assms
proof (induction pre)
  case (Cons c pre)
  have "abiFront (pre @ CHR ''-'' # t) = None" if "c = CHR ''-''"
    using Cons.prems [of "[]" pre] that by (cases pre) (auto simp: abiFront_None)
  moreover have "debianABI (pre @ CHR ''-'' # t) = debianABI (CHR ''-'' # t)"
    using Cons.prems by (intro Cons.IH) (metis append_Cons)
  ultimately show ?case by simp
qed simp

lemma debianABI_found:
  assumes "isABI abi" "rest = [] \<or> hd rest = CHR ''-''"
  shows "debianABI (CHR ''-'' # abi @ rest) = Some (abi, rest)"
  using abiFront_append [of abi rest] assms by (cases rest) (auto simp: stops_def)

text \<open>
  Exactly the running kernel's packages are running. On a Debian-family host whose \<open>uname -r\<close>
  is an ABI followed by a flavour, the package \<open>linux-image-\<close> of an ABI with the same flavour
  is the running kernel when the ABIs are equal and is merely installed otherwise; in
  particular an ABI that is a prefix of the running one is not taken for it.
\<close>

theorem ClassifyKernelPackage_debian:
  assumes "isABI running" "isABI installed" "flavour = [] \<or> hd flavour = CHR ''-''"
    and "source = ''linux'' \<or> HasPrefix source ''linux-''"
  shows "ClassifyKernelPackage (running @ flavour) source (''linux-image-'' @ installed @ flavour) version =
    (if installed = running then KernelRunning else KernelInstalledNotRunning)"
proof -
  have "stops flavour" using assms(3) by (cases flavour) (auto simp: stops_def)
  then have rel: "debianReleaseABI (running @ flavour) = running"
    using abiFront_append assms(1) by (simp add: debianReleaseABI_def)
  have "debianABI (''linux-image'' @ CHR ''-'' # installed @ flavour) =
      debianABI (CHR ''-'' # installed @ flavour)"
    by (rule debianABI_skip) (auto simp: Cons_eq_append_conv isDigit_def)
  then have "debianABI (''linux-image-'' @ installed @ flavour) = Some (installed, flavour)"
    using debianABI_found assms(2,3) by simp
  then show ?thesis
    using assms(1,4) isABI_hd rel by (auto simp: ClassifyKernelPackage_def Let_def)
qed

text \<open>
  Without \<open>uname -r\<close> nothing is judged: no package is then reported as running or as not
  running. And when a package is reported as running, the release is known and its ABI is the
  package's or, for rpm, it begins with the package's version.
\<close>

theorem ClassifyKernelPackage_running_sound:
  "(kernelRelease = [] \<longrightarrow>
      ClassifyKernelPackage kernelRelease source binary version \<in> {NotKernel, KernelUnknown})
   \<and> (ClassifyKernelPackage kernelRelease source binary version = KernelRunning \<longrightarrow>
      (\<exists>abi rest. debianABI binary = Some (abi, rest) \<and> abi = debianReleaseABI kernelRelease \<and> abi \<noteq> [])
      \<or> HasPrefix kernelRelease (stripEpoch version))"
  by (auto simp: ClassifyKernelPackage_def Let_def split: if_splits prod.splits dest: append_prefixD)

lemma ex_abi: "isABI ''7.0.0-31''" "isABI ''7.0.0-3''"
proof -
  have d: "digits ''7''" "digits ''0''" "digits ''31''" "digits ''3''" by (simp_all add: digits_def isDigit_def)
  then have "isABI (abiOf ''7'' ''0'' ''0'' ''31'')" "isABI (abiOf ''7'' ''0'' ''0'' ''3'')"
    unfolding isABI_def by blast+
  then show "isABI ''7.0.0-31''" "isABI ''7.0.0-3''" by (simp_all add: abiOf_def)
qed

theorem ClassifyKernelPackage_debian_witness:
  "ClassifyKernelPackage (''7.0.0-31'' @ ''-generic'') ''linux'' (''linux-image-'' @ ''7.0.0-3'' @ ''-generic'') [] =
   KernelInstalledNotRunning"
  using ClassifyKernelPackage_debian [OF ex_abi, of "''-generic''" "''linux''" "[]"] by simp

theorem ClassifyKernelPackage_running_sound_witness:
  "ClassifyKernelPackage [] ''linux'' ''linux-image-7.0.0-31-generic'' [] \<in> {NotKernel, KernelUnknown}"
  using ClassifyKernelPackage_running_sound [of "[]" "''linux''" "''linux-image-7.0.0-31-generic''" "[]"] by blast

end
