(* ===== verification/Netip.thy ===== *)
theory Netip
  imports Go_Prelude
begin

text \<open>
  What the code uses of the Go package \<open>net/netip\<close>: addresses, prefixes, their parsers and the
  text of an IPv4 address. The parsers follow the library's loops: the IPv4 loop over the
  octets, the IPv6 loop over at most eight fields with the position of the ellipsis.
\<close>

unbundle bit_operations_syntax

section \<open>Addresses\<close>

text \<open>\<open>netip.Addr\<close>: the zero value, an IPv4 address, or an IPv6 address with its zone.\<close>

datatype Addr = NoAddr | V4 "32 word" | V6 "128 word" string

definition Is4 :: "Addr \<Rightarrow> bool" where
  "Is4 a = (case a of V4 _ \<Rightarrow> True | _ \<Rightarrow> False)"

definition Is6 :: "Addr \<Rightarrow> bool" where
  "Is6 a = (case a of V6 _ _ \<Rightarrow> True | _ \<Rightarrow> False)"

definition Is4In6 :: "Addr \<Rightarrow> bool" where
  "Is4In6 a = (case a of V6 w _ \<Rightarrow> drop_bit 32 w = 0xffff | _ \<Rightarrow> False)"

definition BitLen :: "Addr \<Rightarrow> int" where
  "BitLen a = (case a of NoAddr \<Rightarrow> 0 | V4 _ \<Rightarrow> 32 | V6 _ _ \<Rightarrow> 128)"

definition IsValid :: "Addr \<Rightarrow> bool" where "IsValid a \<longleftrightarrow> a \<noteq> NoAddr"

definition IsUnspecified :: "Addr \<Rightarrow> bool" where
  "IsUnspecified a \<longleftrightarrow> a = V4 0 \<or> a = V6 0 []"

definition Unmap :: "Addr \<Rightarrow> Addr" where
  "Unmap a = (case a of V6 w _ \<Rightarrow> if Is4In6 a then V4 (ucast w) else a | _ \<Rightarrow> a)"

definition noZone :: "Addr \<Rightarrow> Addr" where
  "noZone a = (case a of V6 w _ \<Rightarrow> V6 w [] | _ \<Rightarrow> a)"

text \<open>The value of a big-endian sequence of bytes; the byte at an index of the 16-byte form.\<close>

definition ofBytes :: "nat list \<Rightarrow> 'a :: len word" where
  "ofBytes bs = of_nat (foldl (\<lambda>n b. n * 256 + b) 0 bs)"

definition byteAt :: "128 word \<Rightarrow> nat \<Rightarrow> 8 word" where
  "byteAt w i = ucast (drop_bit (8 * (15 - i)) w)"

section \<open>Parsing\<close>

text \<open>
  \<open>parseIPv4Fields\<close>: the octets read so far, newest first, the value and the number of digits of
  the current one.
\<close>

fun v4_loop :: "nat list \<Rightarrow> nat \<Rightarrow> nat \<Rightarrow> string \<Rightarrow> nat list option" where
  "v4_loop acc val dl [] = (if length acc < 3 then None else Some (rev (val # acc)))"
| "v4_loop acc val dl (c # s) =
     (if isDigit c then
        (if dl = 1 \<and> val = 0 then None
         else let v = val * 10 + digitVal c in if v > 255 then None else v4_loop acc v (Suc dl) s)
      else if c = CHR ''.'' then
        (if dl = 0 \<or> s = [] then None
         else if length acc = 3 then None
         else v4_loop (val # acc) 0 0 s)
      else None)"

definition parseIPv4 :: "string \<Rightarrow> Addr option" where
  "parseIPv4 s = map_option (\<lambda>bs. V4 (ofBytes bs)) (v4_loop [] 0 0 s)"

definition hexVal :: "char \<Rightarrow> nat option" where
  "hexVal c =
     (if isDigit c then Some (digitVal c)
      else if CHR ''a'' \<le> c \<and> c \<le> CHR ''f'' then Some (nat (byte c - byte (CHR ''a'')) + 10)
      else if CHR ''A'' \<le> c \<and> c \<le> CHR ''F'' then Some (nat (byte c - byte (CHR ''A'')) + 10)
      else None)"

text \<open>The hexadecimal digits at the front, their value, and the rest.\<close>

definition hexRun :: "string \<Rightarrow> nat \<times> nat \<times> string" where
  "hexRun s =
     (let ds = takeWhile (\<lambda>c. hexVal c \<noteq> None) s
      in (length ds, foldl (\<lambda>n c. n * 16 + the (hexVal c)) 0 ds, dropWhile (\<lambda>c. hexVal c \<noteq> None) s))"

text \<open>
  The loop of \<open>parseIPv6\<close> with room for \<open>k\<close> more fields: the bytes read, the ellipsis and the
  text left when the loop ends.
\<close>

fun v6_loop :: "nat \<Rightarrow> nat list \<Rightarrow> nat option \<Rightarrow> string \<Rightarrow> (nat list \<times> nat option \<times> string) option" where
  "v6_loop 0 bytes ell s = Some (bytes, ell, s)"
| "v6_loop (Suc k) bytes ell s =
     (let (off, acc, rest) = hexRun s
      in if off > 4 \<or> off = 0 then None
         else if rest \<noteq> [] \<and> hd rest = CHR ''.'' then
           (if ell = None \<and> length bytes \<noteq> 12 then None
            else if length bytes + 4 > 16 then None
            else map_option (\<lambda>bs. (bytes @ bs, ell, [])) (v4_loop [] 0 0 s))
         else let bytes = bytes @ [acc div 256, acc mod 256]
              in case rest of
                   [] \<Rightarrow> Some (bytes, ell, [])
                 | c # r \<Rightarrow>
                     if c \<noteq> CHR '':'' then None
                     else (case r of
                        [] \<Rightarrow> None
                      | d # r' \<Rightarrow>
                          if d = CHR '':'' then
                            (if ell \<noteq> None then None
                             else if r' = [] then Some (bytes, Some (length bytes), [])
                             else v6_loop k bytes (Some (length bytes)) r')
                          else v6_loop k bytes ell r))"

text \<open>After the loop: the whole text must be used and the ellipsis filled.\<close>

definition v6_finish :: "nat list \<times> nat option \<times> string \<Rightarrow> nat list option" where
  "v6_finish = (\<lambda>(bytes, ell, s).
     if s \<noteq> [] then None
     else if length bytes < 16 then
       (case ell of None \<Rightarrow> None
        | Some e \<Rightarrow> Some (take e bytes @ replicate (16 - length bytes) 0 @ drop e bytes))
     else if ell \<noteq> None then None else Some bytes)"

definition parseIPv6 :: "string \<Rightarrow> Addr option" where
  "parseIPv6 s0 =
     (let (s, zone) = (case cutByte (CHR ''%'') s0 of None \<Rightarrow> (s0, None) | Some (l, z) \<Rightarrow> (l, Some z))
      in if zone = Some [] then None
         else let z = (case zone of None \<Rightarrow> [] | Some z \<Rightarrow> z)
              in if HasPrefix s ''::'' then
                   (if drop 2 s = [] then Some (V6 0 z)
                    else map_option (\<lambda>bs. V6 (ofBytes bs) z)
                           (Option.bind (v6_loop 8 [] (Some 0) (drop 2 s)) v6_finish))
                 else map_option (\<lambda>bs. V6 (ofBytes bs) z) (Option.bind (v6_loop 8 [] None s) v6_finish))"

text \<open>\<open>netip.ParseAddr\<close>: the first separator decides the family.\<close>

fun ParseAddr_loop :: "string \<Rightarrow> string \<Rightarrow> Addr option" where
  "ParseAddr_loop s [] = None"
| "ParseAddr_loop s (c # r) =
     (if c = CHR ''.'' then parseIPv4 s else if c = CHR '':'' then parseIPv6 s
      else if c = CHR ''%'' then None else ParseAddr_loop s r)"

definition ParseAddr :: "string \<Rightarrow> Addr option" where
  "ParseAddr s = ParseAddr_loop s s"

section \<open>Prefixes\<close>

record netPrefix =
  pAddr :: Addr
  pBits :: int

definition ParsePrefix :: "string \<Rightarrow> netPrefix option" where
  "ParsePrefix s =
     (case cutLastByte (CHR ''/'') s of
        None \<Rightarrow> None
      | Some (l, bitsStr) \<Rightarrow>
          (case ParseAddr l of
             None \<Rightarrow> None
           | Some ip \<Rightarrow>
               if (case ip of V6 _ z \<Rightarrow> z \<noteq> [] | _ \<Rightarrow> False) then None
               else if length bitsStr > 1 \<and> (hd bitsStr < CHR ''1'' \<or> CHR ''9'' < hd bitsStr) then None
               else (case atoi bitsStr of
                  None \<Rightarrow> None
                | Some bits \<Rightarrow>
                    if bits < 0 \<or> bits > BitLen ip then None else Some \<lparr>pAddr = ip, pBits = bits\<rparr>)))"

text \<open>The address with all but its first \<open>b\<close> bits cleared, and \<open>Addr.Prefix\<close> with its range check.\<close>

definition maskAddr :: "int \<Rightarrow> Addr \<Rightarrow> Addr" where
  "maskAddr b a =
     (case a of NoAddr \<Rightarrow> NoAddr
      | V4 w \<Rightarrow> V4 (push_bit (nat (32 - b)) (drop_bit (nat (32 - b)) w))
      | V6 w z \<Rightarrow> V6 (push_bit (nat (128 - b)) (drop_bit (nat (128 - b)) w)) [])"

definition Addr_Prefix :: "Addr \<Rightarrow> int \<Rightarrow> netPrefix option" where
  "Addr_Prefix a b = (if b < 0 \<or> b > BitLen a then None else Some \<lparr>pAddr = maskAddr b a, pBits = b\<rparr>)"

definition Masked :: "netPrefix \<Rightarrow> netPrefix" where
  "Masked p = p\<lparr>pAddr := maskAddr (pBits p) (pAddr p)\<rparr>"

text \<open>\<open>Prefix.Contains\<close>: never across families, never for an address with a zone.\<close>

definition Contains :: "netPrefix \<Rightarrow> Addr \<Rightarrow> bool" where
  "Contains p a =
     (case (pAddr p, a) of
        (V4 n, V4 w) \<Rightarrow> drop_bit (nat (32 - pBits p)) n = drop_bit (nat (32 - pBits p)) w
      | (V6 n _, V6 w z) \<Rightarrow> z = [] \<and> drop_bit (nat (128 - pBits p)) n = drop_bit (nat (128 - pBits p)) w
      | _ \<Rightarrow> False)"

section \<open>The text of an IPv4 address\<close>

definition octet :: "nat \<Rightarrow> 32 word \<Rightarrow> nat" where
  "octet i w = unat (drop_bit (8 * (3 - i)) w) mod 256"

definition v4String :: "32 word \<Rightarrow> string" where
  "v4String w = utoa (octet 0 w) @ ''.'' @ utoa (octet 1 w) @ ''.'' @ utoa (octet 2 w) @ ''.'' @ utoa (octet 3 w)"

section \<open>Facts\<close>

lemma utoa_nonempty [simp]: "utoa n \<noteq> []"
  by (subst utoa.simps) simp

lemma utoa_lt_10: "n < 10 \<Longrightarrow> utoa n = [char_of (48 + n)]"
  by (simp add: utoa.simps)

lemma utoa_step: "10 \<le> n \<Longrightarrow> utoa n = utoa (n div 10) @ [char_of (48 + n mod 10)]"
  by (simp add: utoa.simps [of n])

text \<open>Reading back an octet: after its digits the loop holds its value.\<close>

lemma v4_loop_utoa:
  assumes "n \<le> 255"
  shows "v4_loop acc 0 0 (utoa n @ s) = v4_loop acc n (length (utoa n)) s"
proof -
  have d: "isDigit (char_of (48 + k)) \<and> digitVal (char_of (48 + k)) = k" if "k < 10" for k
    using digit_char that by blast
  consider "n < 10" | "10 \<le> n" "n < 100" | "100 \<le> n" by linarith
  then show ?thesis
  proof cases
    case 1
    then show ?thesis using d [of n] by (simp add: utoa_lt_10)
  next
    case 2
    then have "n div 10 < 10" "n div 10 \<noteq> 0" by (linarith, simp add: div_eq_0_iff)
    then show ?thesis
      using 2 d [of "n div 10"] d [of "n mod 10"] assms by (simp add: utoa_step utoa_lt_10 Let_def)
  next
    case 3
    have q: "n div 10 div 10 < 10" "10 \<le> n div 10" "n div 10 \<le> 255" using assms 3 by linarith+
    have "n div 10 div 10 \<noteq> 0" using q(2) by (simp add: div_eq_0_iff)
    then show ?thesis
      using q d [of "n div 10 div 10"] d [of "n div 10 mod 10"] d [of "n mod 10"] assms 3
      by (simp add: utoa_step utoa_lt_10 Let_def)
  qed
qed

lemma v4_loop_String:
  assumes "a \<le> 255" "b \<le> 255" "c \<le> 255" "d \<le> 255"
  shows "v4_loop [] 0 0 (utoa a @ ''.'' @ utoa b @ ''.'' @ utoa c @ ''.'' @ utoa d) = Some [a, b, c, d]"
  using assms v4_loop_utoa [of d "[c, b, a]" "[]"] by (simp add: v4_loop_utoa isDigit_def)

lemma octet_le: "octet i w \<le> 255"
  by (simp add: octet_def less_Suc_eq_le [symmetric])

lemma base256:
  assumes "n < 4294967296"
  shows "((n div 16777216 mod 256 * 256 + n div 65536 mod 256) * 256 + n div 256 mod 256) * 256 + n mod 256 = (n :: nat)"
proof -
  have "n div 16777216 = n div 65536 div 256" "n div 65536 = n div 256 div 256" by (simp_all add: div_mult2_eq [symmetric])
  moreover have "n div 16777216 < 256" using assms by (simp add: less_mult_imp_div_less)
  ultimately show ?thesis by (metis div_mult_mod_eq mod_less)
qed

lemma ofBytes_octets: "ofBytes [octet 0 w, octet 1 w, octet 2 w, octet 3 w] = w"
proof -
  have "unat w < 2 ^ LENGTH(32)" by (rule unsigned_less)
  then have "unat w < 4294967296" by simp
  have o: "octet 0 w = unat w div 16777216 mod 256" "octet 1 w = unat w div 65536 mod 256"
    "octet 2 w = unat w div 256 mod 256" "octet 3 w = unat w mod 256"
    by (simp_all add: octet_def unsigned_drop_bit_eq drop_bit_eq_div unat_div)
  have "foldl (\<lambda>n b. n * 256 + b) 0 [octet 0 w, octet 1 w, octet 2 w, octet 3 w] = unat w"
    unfolding o foldl.simps mult_zero_left add_0
    by (rule base256 [OF \<open>unat w < 4294967296\<close>])
  then show ?thesis unfolding ofBytes_def by simp
qed

lemma ParseAddr_loop_digits:
  "list_all isDigit ds \<Longrightarrow> ParseAddr_loop s (ds @ CHR ''.'' # r) = parseIPv4 s"
  by (induction ds) (auto simp: isDigit_def)

text \<open>The text of an IPv4 address parses back to it.\<close>

lemma ParseAddr_v4String: "ParseAddr (v4String w) = Some (V4 w)"
proof -
  have "ParseAddr_loop (v4String w) (v4String w) = parseIPv4 (v4String w)"
    using ParseAddr_loop_digits [OF utoa_digits] by (simp add: v4String_def)
  moreover have "parseIPv4 (v4String w) = Some (V4 w)"
    unfolding parseIPv4_def v4String_def v4_loop_String [OF octet_le octet_le octet_le octet_le]
    using ofBytes_octets [of w] by simp
  ultimately show ?thesis by (simp add: ParseAddr_def)
qed

lemma Contains_family: "Contains p a \<Longrightarrow> Is4 (pAddr p) = Is4 a \<and> Is6 (pAddr p) = Is6 a \<and> IsValid a"
  by (auto simp: Contains_def Is4_def Is6_def IsValid_def split: Addr.splits)

lemma noZone_Unmap_V4 [simp]: "Unmap (V4 w) = V4 w" "noZone (V4 w) = V4 w"
  by (simp_all add: Unmap_def noZone_def)

end
