(* ===== verification/Presence.thy ===== *)
theory Presence
  imports Netip Complex_Main
begin

text \<open>
  \<open>internal/domain/presence.go\<close>: whether a host exists at an address or something merely answered for
  it. \<open>float64\<close> values are rationals; the reasons are structured values.
\<close>

unbundle bit_operations_syntax

datatype Presence = PresencePresent | PresenceResponder | PresenceUnknown

record PortRef =
  prPort :: int
  prProtocol :: string

record PortEvidence =
  pePort :: int
  peProtocol :: string
  peAnswered :: int
  peIdentities :: int
  peIdentified :: int

record AddressEvidence =
  aeAddr :: Addr
  aePorts :: "PortRef list"
  aeIdentified :: bool

record Population =
  popAddresses :: int
  popPorts :: "PortRef \<rightharpoonup> PortEvidence"
  popNetworks :: "netPrefix list"

record ResponderPolicy =
  UbiquityFraction :: rat
  MinPopulation :: int

definition DefaultResponderPolicy :: ResponderPolicy where
  "DefaultResponderPolicy = \<lparr>UbiquityFraction = 30 / 100, MinPopulation = 16\<rparr>"

definition IsResponderArtefact :: "PortEvidence \<Rightarrow> Population \<Rightarrow> ResponderPolicy \<Rightarrow> bool" where
  "IsResponderArtefact e pop p =
     (if popAddresses pop < MinPopulation p then False
      else if peIdentified e > 0 \<or> peIdentities e > 1 then False
      else of_int (peAnswered e) \<ge> UbiquityFraction p * of_int (popAddresses pop))"

text \<open>
  The loop sets bit \<open>i mod 8\<close> of byte \<open>3 - i div 8\<close>, which is bit \<open>i\<close> of the address.
\<close>

definition broadcast4 :: "netPrefix \<Rightarrow> Addr" where
  "broadcast4 n =
     (case pAddr (Masked n) of
        V4 b \<Rightarrow> V4 (fold (\<lambda>i b. b OR push_bit i 1) [0..<nat (32 - pBits n)] b)
      | _ \<Rightarrow> NoAddr)"

fun impossible_loop :: "Addr \<Rightarrow> netPrefix list \<Rightarrow> bool" where
  "impossible_loop a [] = False"
| "impossible_loop a (n # ns) =
     (if \<not> Is4 (pAddr n) \<or> \<not> Contains n a \<or> pBits n \<ge> 31 then impossible_loop a ns
      else if a = pAddr (Masked n) then True
      else if a = broadcast4 n then True
      else impossible_loop a ns)"

definition IsImpossibleHost :: "Addr \<Rightarrow> netPrefix list \<Rightarrow> bool" where
  "IsImpossibleHost a networks = (if \<not> Is4 a then False else impossible_loop a networks)"

datatype presenceReason = IdentifiedItself | NetworkOrBroadcast | NoPortEvidence | NotConvicted | EveryPortArtefact

record PresenceVerdict =
  pvPresence :: Presence
  pvReason :: presenceReason

definition DecidePresence :: "AddressEvidence \<Rightarrow> Population \<Rightarrow> ResponderPolicy \<Rightarrow> PresenceVerdict" where
  "DecidePresence a pop p =
     (if aeIdentified a then \<lparr>pvPresence = PresencePresent, pvReason = IdentifiedItself\<rparr>
      else if IsImpossibleHost (aeAddr a) (popNetworks pop)
      then \<lparr>pvPresence = PresenceResponder, pvReason = NetworkOrBroadcast\<rparr>
      else if length (aePorts a) = 0 then \<lparr>pvPresence = PresenceUnknown, pvReason = NoPortEvidence\<rparr>
      else if list_ex (\<lambda>ref. case popPorts pop ref of None \<Rightarrow> True | Some ev \<Rightarrow> \<not> IsResponderArtefact ev pop p)
                (aePorts a)
      then \<lparr>pvPresence = PresenceUnknown, pvReason = NotConvicted\<rparr>
      else \<lparr>pvPresence = PresenceResponder, pvReason = EveryPortArtefact\<rparr>)"

section \<open>Properties\<close>

lemma set_low_bits: "fold (\<lambda>i b. b OR push_bit i 1) [0..<k] (w :: 32 word) = w OR mask k"
proof (induction k)
  case (Suc k)
  have "mask (Suc k) = mask k OR push_bit k (1 :: 32 word)"
    by (rule bit_word_eqI) (auto simp: bit_simps less_Suc_eq)
  with Suc show ?case by (simp add: or.assoc)
qed simp

lemma set_low_bits_pow: "fold (\<lambda>i b. b OR 2 ^ i) [0..<k] (w :: 32 word) = w OR mask k"
  using set_low_bits [of k w] by simp

lemma impossible_loop_iff:
  "impossible_loop a ns \<longleftrightarrow>
     (\<exists>n \<in> set ns. Is4 (pAddr n) \<and> Contains n a \<and> pBits n < 31 \<and> (a = pAddr (Masked n) \<or> a = broadcast4 n))"
  by (induction ns) auto

lemma endpoint_bits:
  fixes w n :: "32 word"
  assumes "drop_bit k n = drop_bit k w"
  shows "w = push_bit k (drop_bit k n) \<longleftrightarrow> take_bit k w = 0"
    "w = push_bit k (drop_bit k n) OR mask k \<longleftrightarrow> take_bit k w = mask k"
proof -
  have w: "w = push_bit k (drop_bit k w) OR take_bit k w"
    by (rule bit_word_eqI) (auto simp: bit_simps)
  show "w = push_bit k (drop_bit k n) \<longleftrightarrow> take_bit k w = 0"
  proof
    assume "w = push_bit k (drop_bit k n)"
    then have "take_bit k w = take_bit k (push_bit k (drop_bit k n))" by simp
    then show "take_bit k w = 0" by (simp add: take_bit_push_bit)
  qed (use assms w in simp)
  show "w = push_bit k (drop_bit k n) OR mask k \<longleftrightarrow> take_bit k w = mask k"
  proof
    assume "w = push_bit k (drop_bit k n) OR mask k"
    then have "take_bit k w = take_bit k (push_bit k (drop_bit k n) OR mask k)" by simp
    then show "take_bit k w = mask k" by (simp add: take_bit_or take_bit_push_bit)
  qed (use assms w in simp)
qed

text \<open>
  An address is impossible exactly when some scanned IPv4 network of length at most 30 contains
  it and its host bits are all zero (the network address) or all one (the broadcast address). In
  particular both addresses of a /31 and the one of a /32 are possible, and so is every IPv6 one.
\<close>

theorem IsImpossibleHost_iff:
  "IsImpossibleHost (V4 w) networks \<longleftrightarrow>
     (\<exists>n \<in> set networks. Contains n (V4 w) \<and> pBits n \<le> 30
        \<and> (take_bit (nat (32 - pBits n)) w = 0 \<or> take_bit (nat (32 - pBits n)) w = mask (nat (32 - pBits n))))"
proof -
  have "(Is4 (pAddr n) \<and> Contains n (V4 w) \<and> pBits n < 31 \<and> (V4 w = pAddr (Masked n) \<or> V4 w = broadcast4 n)) \<longleftrightarrow>
      (Contains n (V4 w) \<and> pBits n \<le> 30
        \<and> (take_bit (nat (32 - pBits n)) w = 0 \<or> take_bit (nat (32 - pBits n)) w = mask (nat (32 - pBits n))))" for n
  proof (cases "pAddr n")
    case (V4 x)
    then have c: "Contains n (V4 w) \<longleftrightarrow> drop_bit (nat (32 - pBits n)) x = drop_bit (nat (32 - pBits n)) w"
      by (simp add: Contains_def)
    have m: "V4 w = pAddr (Masked n) \<longleftrightarrow> w = push_bit (nat (32 - pBits n)) (drop_bit (nat (32 - pBits n)) x)"
      "V4 w = broadcast4 n \<longleftrightarrow>
         w = push_bit (nat (32 - pBits n)) (drop_bit (nat (32 - pBits n)) x) OR mask (nat (32 - pBits n))"
      using V4 by (simp_all add: Masked_def maskAddr_def broadcast4_def set_low_bits_pow)
    have i: "Is4 (pAddr n)" "pBits n < 31 \<longleftrightarrow> pBits n \<le> 30" using V4 by (auto simp: Is4_def)
    show ?thesis
      unfolding m c i(2) using endpoint_bits [of "nat (32 - pBits n)" x w] i(1) by blast
  qed (simp_all add: Contains_def Is4_def)
  then show ?thesis by (simp add: IsImpossibleHost_def impossible_loop_iff Is4_def)
qed

text \<open>
  Presence is never asserted and never denied without evidence. An address is present exactly
  when something there identified itself. It is a responder only if nothing did and either it is
  an impossible host, or it answered on at least one port and every one of its ports, over a
  population large enough to judge, never identified itself anywhere and answered on at least the
  given fraction of the population. In all other cases the verdict is unknown.
\<close>

theorem DecidePresence_evidence:
  "(pvPresence (DecidePresence a pop p) = PresencePresent \<longleftrightarrow> aeIdentified a)
   \<and> (pvPresence (DecidePresence a pop p) = PresenceResponder \<longleftrightarrow>
        \<not> aeIdentified a \<and>
        (IsImpossibleHost (aeAddr a) (popNetworks pop)
         \<or> aePorts a \<noteq> [] \<and> MinPopulation p \<le> popAddresses pop
           \<and> (\<forall>ref \<in> set (aePorts a). \<exists>ev. popPorts pop ref = Some ev \<and> peIdentified ev \<le> 0 \<and> peIdentities ev \<le> 1
                \<and> UbiquityFraction p * of_int (popAddresses pop) \<le> of_int (peAnswered ev))))"
proof -
  have "(\<not> list_ex (\<lambda>ref. case popPorts pop ref of None \<Rightarrow> True | Some ev \<Rightarrow> \<not> IsResponderArtefact ev pop p) (aePorts a))
      \<longleftrightarrow> (\<forall>ref \<in> set (aePorts a). \<exists>ev. popPorts pop ref = Some ev \<and> IsResponderArtefact ev pop p)"
    by (auto simp: list_ex_iff split: option.splits)
  moreover have "IsResponderArtefact ev pop p \<longleftrightarrow> MinPopulation p \<le> popAddresses pop \<and> peIdentified ev \<le> 0
      \<and> peIdentities ev \<le> 1 \<and> UbiquityFraction p * of_int (popAddresses pop) \<le> of_int (peAnswered ev)" for ev
    by (auto simp: IsResponderArtefact_def)
  ultimately show ?thesis
    by (cases "aePorts a") (auto simp: DecidePresence_def)
qed

theorem DecidePresence_evidence_witness:
  "pvPresence (DecidePresence \<lparr>aeAddr = V4 5, aePorts = [], aeIdentified = True\<rparr>
     \<lparr>popAddresses = 0, popPorts = Map.empty, popNetworks = []\<rparr> DefaultResponderPolicy) = PresencePresent"
  using DecidePresence_evidence [of "\<lparr>aeAddr = V4 5, aePorts = [], aeIdentified = True\<rparr>"] by simp

end
