(* ===== verification/Rate_Budget.thy ===== *)
theory Rate_Budget
  imports Go_Prelude Complex_Main
begin

text \<open>
  \<open>internal/engines/enginerate/ratebudget.go\<close>: the token bucket every engine that sends packets
  spends from, and the packet-cost arithmetic it is charged with.

  The \<open>float64\<close> fields are rationals, so the model has no rounding. The bucket is guarded by one
  mutex, and each critical section is one operation here; the clock reading of a critical
  section is its argument. A concurrent run is any sequence of these operations.
\<close>

unbundle bit_operations_syntax

section \<open>The bucket\<close>

record Bucket =
  capacity :: rat
  tokens :: rat
  rate :: rat
  ceiling :: rat
  last_t :: time

definition MinRatePPS :: rat where "MinRatePPS = 1 / 2"

definition BurstFor :: "rat \<Rightarrow> rat" where
  "BurstFor ratePPS = (let burst = ratePPS / 10 in if burst < 1 then 1 else burst)"

definition New :: "rat \<Rightarrow> time \<Rightarrow> Bucket" where
  "New ratePPS now =
     \<lparr>capacity = BurstFor ratePPS, tokens = 1, rate = ratePPS, ceiling = ratePPS, last_t = now\<rparr>"

definition Second :: duration where "Second = 10 ^ 9"
definition Millisecond :: duration where "Millisecond = 10 ^ 6"

definition Seconds :: "duration \<Rightarrow> rat" where
  "Seconds d = of_int d / of_int Second"

definition refund :: "uint32 \<Rightarrow> Bucket \<Rightarrow> Bucket" where
  "refund n b =
     (let t = tokens b + of_nat (unat n)
      in b\<lparr>tokens := (if t > capacity b then capacity b else t)\<rparr>)"

definition BackOff :: "Bucket \<Rightarrow> Bucket" where
  "BackOff b =
     (let r = rate b / 2; r = (if r < MinRatePPS then MinRatePPS else r); c = BurstFor r
      in b\<lparr>rate := r, capacity := c, tokens := (if tokens b > c then c else tokens b)\<rparr>)"

text \<open>The refill at the top of \<open>Take\<close>'s loop.\<close>

definition refill :: "time \<Rightarrow> Bucket \<Rightarrow> Bucket" where
  "refill now b =
     (let elapsed = Seconds (now - last_t b)
      in if elapsed > 0 then
           let t = tokens b + elapsed * rate b
           in b\<lparr>tokens := (if t > capacity b then capacity b else t), last_t := now\<rparr>
         else b)"

text \<open>
  One critical section of \<open>Take\<close>: a token is taken, or the time to wait is computed. A
  \<open>time.Duration\<close> conversion truncates; the operand here is not negative.
\<close>

definition take_once :: "time \<Rightarrow> Bucket \<Rightarrow> Bucket \<times> duration option" where
  "take_once now b0 =
     (let b = refill now b0
      in if tokens b \<ge> 1 then (b\<lparr>tokens := tokens b - 1\<rparr>, None)
         else let wait = \<lfloor>(1 - tokens b) / rate b * of_int Second\<rfloor>
              in (b, Some (if wait < Millisecond then Millisecond else wait)))"

datatype takeResult = TakeOK | TakeCancelled | TakeBlocked

text \<open>
  The whole of \<open>Take\<close>, over the readings its loop makes: a clock value and whether the context
  ended during the wait that followed. \<open>TakeBlocked\<close> is a call still waiting when the readings
  end.
\<close>

fun Take :: "(time \<times> bool) list \<Rightarrow> Bucket \<Rightarrow> Bucket \<times> takeResult \<times> (time \<times> bool) list" where
  "Take [] b = (b, TakeBlocked, [])"
| "Take ((now, done) # rs) b =
     (case take_once now b of
        (b', None) \<Rightarrow> (b', TakeOK, rs)
      | (b', Some wait) \<Rightarrow> if done then (b', TakeCancelled, rs) else Take rs b')"

fun TakeN_loop :: "nat \<Rightarrow> (time \<times> bool) list \<Rightarrow> Bucket \<Rightarrow> Bucket \<times> takeResult \<times> (time \<times> bool) list" where
  "TakeN_loop 0 rs b = (b, TakeOK, rs)"
| "TakeN_loop (Suc n) rs b =
     (case Take rs b of (b', TakeOK, rs') \<Rightarrow> TakeN_loop n rs' b' | r \<Rightarrow> r)"

definition TakeN :: "uint32 \<Rightarrow> (time \<times> bool) list \<Rightarrow> Bucket \<Rightarrow> Bucket \<times> takeResult \<times> (time \<times> bool) list" where
  "TakeN n rs b = TakeN_loop (unat n) rs b"

definition Settle ::
  "uint32 \<Rightarrow> uint32 \<Rightarrow> (time \<times> bool) list \<Rightarrow> Bucket \<Rightarrow> Bucket \<times> takeResult \<times> (time \<times> bool) list" where
  "Settle prepaid actual rs b =
     (if actual > prepaid then TakeN (actual - prepaid) rs b
      else if actual < prepaid then (refund (prepaid - actual) b, TakeOK, rs)
      else (b, TakeOK, rs))"

section \<open>Packet costs\<close>

abbreviation maxUint32 :: uint32 where "maxUint32 \<equiv> NOT 0"

definition saturate :: "int \<Rightarrow> uint32" where
  "saturate n = (if n \<le> 0 then 0 else if n \<ge> uint maxUint32 then maxUint32 else word_of_int n)"

definition SaturatingAdd :: "uint32 \<Rightarrow> uint32 \<Rightarrow> uint32" where
  "SaturatingAdd a b = (if a > maxUint32 - b then maxUint32 else a + b)"

text \<open>The loop of \<open>SynCost\<close> from index \<open>i\<close>, at most six turns, with \<open>n\<close> SYNs counted so far.\<close>

fun SynCost_loop :: "nat \<Rightarrow> nat \<Rightarrow> duration \<Rightarrow> uint32 \<Rightarrow> uint32" where
  "SynCost_loop 0 i timeout syns = syns"
| "SynCost_loop (Suc k) i timeout syns =
     (if (2 ^ i - 1) * Second > timeout then syns else SynCost_loop k (Suc i) timeout (syns + 1))"

definition SynCost :: "duration \<Rightarrow> uint32" where
  "SynCost timeout = (if timeout \<le> 0 then 1 else SynCost_loop 6 1 timeout 1)"

definition SynTrainBound :: "duration \<Rightarrow> uint32" where
  "SynTrainBound d = (if d \<le> 0 then 1 else SaturatingAdd 1 (saturate (d div Second)))"

definition EstablishedCost :: uint32 where "EstablishedCost = 3"

definition ConnectionBound :: "duration \<Rightarrow> uint32" where
  "ConnectionBound timeout = SaturatingAdd (SynTrainBound timeout) EstablishedCost"

definition SegmentPayload :: int where "SegmentPayload = 512"

definition Segments :: "int \<Rightarrow> uint32" where
  "Segments n =
     (if n \<le> 0 then 0
      else let q = n div SegmentPayload; q = (if n mod SegmentPayload \<noteq> 0 then q + 1 else q)
           in saturate q)"

section \<open>Runs of the bucket\<close>

datatype op = OTake time | ORefund uint32 | OBackOff

text \<open>The new bucket, the tokens granted and the tokens refunded.\<close>

fun op_step :: "op \<Rightarrow> Bucket \<Rightarrow> Bucket \<times> nat \<times> nat" where
  "op_step (OTake now) b = (case take_once now b of (b', None) \<Rightarrow> (b', 1, 0) | (b', Some _) \<Rightarrow> (b', 0, 0))"
| "op_step (ORefund n) b = (refund n b, 0, unat n)"
| "op_step OBackOff b = (BackOff b, 0, 0)"

fun run :: "op list \<Rightarrow> Bucket \<Rightarrow> Bucket \<times> nat \<times> nat" where
  "run [] b = (b, 0, 0)"
| "run (x # xs) b =
     (let (b1, g1, r1) = op_step x b; (b2, g2, r2) = run xs b1 in (b2, g1 + g2, r1 + r2))"

definition bucket_ok :: "rat \<Rightarrow> Bucket \<Rightarrow> bool" where
  "bucket_ok r b \<longleftrightarrow> MinRatePPS \<le> rate b \<and> rate b \<le> r \<and> capacity b = BurstFor (rate b)
     \<and> 0 \<le> tokens b \<and> tokens b \<le> capacity b"

lemma BurstFor_mono: "x \<le> y \<Longrightarrow> BurstFor x \<le> BurstFor y"
  by (simp add: BurstFor_def Let_def)

lemma BurstFor_ge_1: "1 \<le> BurstFor x"
  by (simp add: BurstFor_def Let_def)

lemma Seconds_pos [simp]: "0 < Seconds d \<longleftrightarrow> 0 < d"
  by (simp add: Seconds_def Second_def)

lemma Seconds_le [simp]: "Seconds d \<le> Seconds e \<longleftrightarrow> d \<le> e"
  by (simp add: Seconds_def Second_def divide_le_cancel)

lemma Seconds_0: "Seconds 0 = 0"
  by (simp add: Seconds_def)

lemma Seconds_add: "Seconds (d + e) = Seconds d + Seconds e"
  by (simp add: Seconds_def add_divide_distrib)

lemma New_ok: "MinRatePPS \<le> r \<Longrightarrow> bucket_ok r (New r now)"
  using BurstFor_ge_1 by (simp add: bucket_ok_def New_def)

lemma refill_ok:
  assumes "bucket_ok r b"
  shows "bucket_ok r (refill now b)" "rate (refill now b) = rate b" "capacity (refill now b) = capacity b"
    "tokens b \<le> tokens (refill now b)" "last_t (refill now b) = max (last_t b) now"
    "tokens (refill now b) \<le> tokens b + Seconds (max (last_t b) now - last_t b) * r"
proof -
  let ?e = "Seconds (now - last_t b)"
  have r: "0 \<le> rate b" "rate b \<le> r" using assms by (auto simp: bucket_ok_def MinRatePPS_def)
  have e: "last_t b < now \<Longrightarrow> 0 \<le> ?e * rate b \<and> ?e * rate b \<le> ?e * r"
    using r by (intro conjI mult_nonneg_nonneg mult_left_mono) (simp_all add: Seconds_def Second_def)
  show "bucket_ok r (refill now b)" "tokens b \<le> tokens (refill now b)"
    using assms e by (auto simp: bucket_ok_def refill_def Let_def)
  show "rate (refill now b) = rate b" "capacity (refill now b) = capacity b"
    "last_t (refill now b) = max (last_t b) now"
    by (auto simp: refill_def Let_def)
  show "tokens (refill now b) \<le> tokens b + Seconds (max (last_t b) now - last_t b) * r"
  proof (cases "last_t b < now")
    case True
    then have "tokens (refill now b) \<le> tokens b + ?e * rate b" by (simp add: refill_def Let_def)
    also have "\<dots> \<le> tokens b + ?e * r" using e [OF True] by simp
    finally show ?thesis using True by (simp add: max_def)
  qed (simp add: refill_def Let_def Seconds_0)
qed

lemma take_once_ok:
  assumes "bucket_ok r b"
  shows "bucket_ok r (fst (take_once now b))"
    "last_t (fst (take_once now b)) = max (last_t b) now"
    "tokens (fst (take_once now b)) = tokens (refill now b) - (if snd (take_once now b) = None then 1 else 0)"
  using refill_ok [OF assms, of now] by (auto simp: take_once_def Let_def bucket_ok_def)

lemma op_step_take:
  "op_step (OTake now) b = (fst (take_once now b), if snd (take_once now b) = None then 1 else 0, 0)"
  by (cases "take_once now b"; cases "snd (take_once now b)") auto

lemma unsigned_rat_nonneg [simp]: "0 \<le> (unsigned (n :: uint32) :: rat)"
  by (metis of_nat_0_le_iff of_nat_unat)

lemma refund_ok:
  assumes "bucket_ok r b"
  shows "bucket_ok r (refund n b)" "tokens (refund n b) \<le> tokens b + of_nat (unat n)"
    "last_t (refund n b) = last_t b"
  using assms by (auto simp: refund_def bucket_ok_def Let_def)

lemma BackOff_ok:
  assumes "bucket_ok r b"
  shows "bucket_ok r (BackOff b)" "tokens (BackOff b) \<le> tokens b" "last_t (BackOff b) = last_t b"
    "rate (BackOff b) \<le> rate b"
  using assms BurstFor_ge_1 [of "rate (BackOff b)"]
  by (auto simp: BackOff_def bucket_ok_def Let_def MinRatePPS_def)

lemma op_step_ok:
  assumes "bucket_ok r b"
  shows "bucket_ok r (fst (op_step x b))"
  using assms take_once_ok(1) refund_ok(1) BackOff_ok(1)
  by (cases x) (simp_all add: op_step_take del: op_step.simps(1))

lemma run_ok: "bucket_ok r b \<Longrightarrow> bucket_ok r (fst (run xs b))"
proof (induction xs arbitrary: b)
  case (Cons x xs)
  then show ?case using op_step_ok by (simp add: case_prod_beta)
qed simp

text \<open>
  Accounting inside a window that starts at \<open>s\<close>: \<open>g\<close> tokens granted and \<open>q\<close> refunded in it so far.
\<close>

definition window_ok :: "rat \<Rightarrow> time \<Rightarrow> Bucket \<Rightarrow> nat \<Rightarrow> nat \<Rightarrow> bool" where
  "window_ok r s b g q \<longleftrightarrow> bucket_ok r b \<and> (g = 0 \<or> s \<le> last_t b)
     \<and> of_nat g + tokens b \<le> BurstFor r + of_nat q + r * Seconds (max s (last_t b) - s)"

definition opIn :: "time \<Rightarrow> time \<Rightarrow> op \<Rightarrow> bool" where
  "opIn s t x = (case x of OTake now \<Rightarrow> s \<le> now \<and> now \<le> t | _ \<Rightarrow> True)"

lemma capacity_le: "bucket_ok r b \<Longrightarrow> tokens b \<le> BurstFor r"
  using BurstFor_mono [of "rate b" r] by (simp add: bucket_ok_def)

lemma window_take:
  assumes "window_ok r s b g q" "s \<le> now"
  shows "window_ok r s (fst (take_once now b)) (g + (if snd (take_once now b) = None then 1 else 0)) q"
proof -
  have ok: "bucket_ok r b" and g: "g = 0 \<or> s \<le> last_t b"
    and le: "of_nat g + tokens b \<le> BurstFor r + of_nat q + r * Seconds (max s (last_t b) - s)"
    using assms(1) by (auto simp: window_ok_def)
  have r: "0 \<le> r" using ok by (auto simp: bucket_ok_def MinRatePPS_def)
  let ?l = "max (last_t b) now"
  have l: "s \<le> ?l" using assms(2) by simp
  have "of_nat g + tokens (refill now b) \<le> BurstFor r + of_nat q + r * Seconds (?l - s)"
  proof (cases "s \<le> last_t b")
    case True
    have "Seconds (?l - s) = Seconds (?l - last_t b) + Seconds (last_t b - s)"
      by (simp add: Seconds_add [symmetric])
    then show ?thesis
      using le True refill_ok(6) [OF ok, of now] by (simp add: max_def algebra_simps split: if_splits)
  next
    case False
    then have "g = 0" using g by simp
    moreover have "0 \<le> r * Seconds (?l - s)" using r l by (simp add: Seconds_def Second_def)
    ultimately show ?thesis using capacity_le [OF refill_ok(1) [OF ok]] by (simp add: add_increasing2)
  qed
  with l take_once_ok [OF ok, of now] show ?thesis by (auto simp: window_ok_def max_def)
qed

lemma window_step:
  assumes "window_ok r s b g q" "opIn s t x" "op_step x b = (b', g', q')"
  shows "window_ok r s b' (g + g') (q + q')"
proof (cases x)
  case (OTake now)
  then show ?thesis
    using window_take [OF assms(1)] assms(2,3) by (auto simp: opIn_def op_step_take simp del: op_step.simps(1))
next
  case (ORefund n)
  then show ?thesis using assms refund_ok [of r b n] by (auto simp: window_ok_def)
next
  case OBackOff
  then show ?thesis using assms BackOff_ok [of r b] by (auto simp: window_ok_def)
qed

lemma window_run:
  assumes "window_ok r s b g q" "\<forall>x \<in> set xs. opIn s t x" "run xs b = (b', g', q')"
  shows "window_ok r s b' (g + g') (q + q')"
  using assms
proof (induction xs arbitrary: b g q b' g' q')
  case (Cons x xs)
  obtain b1 g1 q1 where 1: "op_step x b = (b1, g1, q1)" by (metis prod_cases3)
  obtain b2 g2 q2 where 2: "run xs b1 = (b2, g2, q2)" by (metis prod_cases3)
  have "window_ok r s b1 (g + g1) (q + q1)" using window_step [OF Cons.prems(1) _ 1] Cons.prems(2) by auto
  then have "window_ok r s b2 (g + g1 + g2) (q + q1 + q2)" using Cons.IH Cons.prems 2 by simp
  with Cons.prems(3) 1 2 show ?case by (simp add: add.assoc)
qed simp

lemma run_last_t:
  assumes "\<forall>x \<in> set xs. opIn s t x" "last_t b \<le> t" "bucket_ok r b"
  shows "last_t (fst (run xs b)) \<le> t"
  using assms
proof (induction xs arbitrary: b)
  case (Cons x xs)
  have "last_t (fst (op_step x b)) \<le> t"
    using Cons.prems take_once_ok(2) refund_ok(3) BackOff_ok(3)
    by (cases x) (auto simp: opIn_def op_step_take simp del: op_step.simps(1))
  then show ?case using Cons op_step_ok by (simp add: case_prod_beta)
qed simp

text \<open>
  C34. The ceiling holds in every window. Take a bucket of rate \<open>r\<close>, let any concurrent history
  happen to it, and look at any later window from \<open>s\<close> to \<open>t\<close>: the tokens granted in it are at most
  the burst, plus what was refunded in it, plus \<open>r\<close> per second of the window.
\<close>

theorem Bucket_window_bound:
  assumes "MinRatePPS \<le> r" "run before (New r t0) = (b, g0, q0)"
    and "\<forall>x \<in> set during. opIn s t x" "run during b = (b', granted, refunded)" "last_t b \<le> t" "s \<le> t"
  shows "of_nat granted \<le> BurstFor r + of_nat refunded + r * Seconds (t - s)"
proof -
  have ok: "bucket_ok r b" using run_ok [OF New_ok [OF assms(1)], of before t0] assms(2) by simp
  have r: "0 \<le> r" using assms(1) by (simp add: MinRatePPS_def)
  have "0 \<le> r * Seconds (max s (last_t b) - s)" using r by (simp add: Seconds_def Second_def)
  then have "window_ok r s b 0 0" using ok capacity_le [OF ok] by (simp add: window_ok_def)
  from window_run [OF this assms(3,4)] have w: "window_ok r s b' granted refunded" by simp
  have "last_t b' \<le> t" using run_last_t [OF assms(3,5) ok] assms(4) by simp
  then have "r * Seconds (max s (last_t b') - s) \<le> r * Seconds (t - s)"
    using r assms(6) by (intro mult_left_mono) simp_all
  with w show ?thesis by (auto simp: window_ok_def bucket_ok_def)
qed

text \<open>
  The rate only ever goes down, and never below the floor: after any history the rate is
  between the floor and what it was, the burst is the one of that rate, and the tokens are
  between zero and the burst.
\<close>

theorem Bucket_rate_never_rises:
  assumes "MinRatePPS \<le> r"
  shows "let b = fst (run xs (New r now)) in
    MinRatePPS \<le> rate b \<and> rate b \<le> r \<and> capacity b = BurstFor (rate b) \<and> 0 \<le> tokens b \<and> tokens b \<le> capacity b"
  using run_ok [OF New_ok [OF assms], of xs now] by (simp add: bucket_ok_def Let_def)

section \<open>A waiting call is served\<close>

text \<open>
  Readings of a clock that does not run backwards, each taken after the wait computed before it
  has passed, with no cancellation.
\<close>

fun paced :: "(time \<times> bool) list \<Rightarrow> Bucket \<Rightarrow> bool" where
  "paced [] b = True"
| "paced ((now, done) # rs) b \<longleftrightarrow>
     last_t b \<le> now \<and> \<not> done
     \<and> (case take_once now b of
          (b', None) \<Rightarrow> True
        | (b', Some wait) \<Rightarrow> (rs = [] \<or> now + wait \<le> fst (hd rs)) \<and> paced rs b')"

lemma take_once_blocked:
  assumes "bucket_ok r b" "take_once now b = (b', Some w)" "last_t b \<le> now"
  shows "last_t b' = now" "tokens b' < 1" "rate b' = rate b" "bucket_ok r b'" "Millisecond \<le> w"
    "(1 - tokens b') / rate b' * of_int Second < of_int w + 1"
proof -
  have eq: "b' = refill now b" "tokens b' < 1"
    "w = (let x = \<lfloor>(1 - tokens b') / rate b' * of_int Second\<rfloor> in if x < Millisecond then Millisecond else x)"
    using assms(2) by (auto simp: take_once_def Let_def split: if_splits)
  show "tokens b' < 1" by (rule eq(2))
  show "last_t b' = now" "rate b' = rate b" "bucket_ok r b'"
    using refill_ok [OF assms(1), of now] assms(3) by (simp_all add: eq(1))
  show "Millisecond \<le> w" by (simp add: eq(3) Let_def)
  have "\<lfloor>(1 - tokens b') / rate b' * of_int Second\<rfloor> \<le> w" by (simp add: eq(3) Let_def)
  then show "(1 - tokens b') / rate b' * of_int Second < of_int w + 1" by linarith
qed

lemma refill_gain:
  assumes "bucket_ok r b" "last_t b + w \<le> now" "0 < w" "1 \<le> tokens b + Seconds w * rate b"
  shows "1 \<le> tokens (refill now b)"
proof -
  have "0 \<le> rate b" using assms(1) by (auto simp: bucket_ok_def MinRatePPS_def)
  moreover have "Seconds w \<le> Seconds (now - last_t b)" using assms(2) by simp
  ultimately have "Seconds w * rate b \<le> Seconds (now - last_t b) * rate b" by (rule mult_right_mono [rotated])
  then have "1 \<le> tokens b + Seconds (now - last_t b) * rate b" using assms(4) by linarith
  moreover have "1 \<le> capacity b" using assms(1) BurstFor_ge_1 by (simp add: bucket_ok_def)
  moreover have "last_t b < now" using assms(2,3) by simp
  ultimately show ?thesis by (simp add: refill_def Let_def)
qed

lemma refill_granted: "1 \<le> tokens (refill now b) \<Longrightarrow> \<exists>b'. take_once now b = (b', None)"
  by (simp add: take_once_def Let_def)

text \<open>
  After the first wait the bucket is short of one token by less than one nanosecond of refill.
\<close>

lemma blocked_twice:
  assumes "bucket_ok r b" "take_once t1 b = (b1, Some w1)" "last_t b \<le> t1" "t1 + w1 \<le> t2"
    "take_once t2 b1 = (b2, Some w2)" "t2 + w2 \<le> t3"
  shows "1 \<le> tokens (refill t3 b2)"
proof -
  note B1 = take_once_blocked [OF assms(1,2,3)]
  have w1: "0 < w1" using B1(5) by (simp add: Millisecond_def)
  then have t: "last_t b1 \<le> t2" using B1(1) assms(4) by simp
  note B2 = take_once_blocked [OF B1(4) assms(5) t]
  have R: "0 < rate b1" using B1(4) by (auto simp: bucket_ok_def MinRatePPS_def)
  have "1 - tokens b1 < (of_int w1 + 1) / of_int Second * rate b1"
    using B1(6) R by (simp add: field_simps Second_def)
  then have close: "1 - tokens b1 < Seconds w1 * rate b1 + rate b1 / of_int Second"
    by (simp add: Seconds_def field_simps Second_def)
  have b2: "b2 = refill t2 b1" using assms(5) by (auto simp: take_once_def Let_def split: if_splits)
  have "tokens b1 + Seconds (t2 - last_t b1) * rate b1 \<le> tokens b2"
    using B2(2) B1(4) BurstFor_ge_1 [of "rate b1"] t
    unfolding b2 refill_def Let_def bucket_ok_def by (auto split: if_splits simp: Seconds_0)
  moreover have "Seconds w1 * rate b1 \<le> Seconds (t2 - last_t b1) * rate b1"
    using R assms(4) B1(1) by (intro mult_right_mono) simp_all
  ultimately have "1 - tokens b2 < rate b1 / of_int Second" using close by linarith
  also have "\<dots> \<le> Seconds w2 * rate b1"
    using R B2(5) by (simp add: Seconds_def Second_def Millisecond_def field_simps)
  finally have "1 \<le> tokens b2 + Seconds w2 * rate b2" using B2(3) by simp
  then show ?thesis
    using refill_gain [OF B2(4), of w2 t3] assms(6) B2(1,5) by (simp add: Millisecond_def)
qed

text \<open>
  \<open>Take\<close> returns. A call that is not cancelled, on a clock that does not run backwards and
  with each wait respected, is granted a token by its third reading of the clock.
\<close>

theorem Take_served:
  assumes "bucket_ok r b" "paced rs b" "3 \<le> length rs"
  shows "fst (snd (Take rs b)) = TakeOK"
proof -
  obtain t1 d1 t2 d2 t3 d3 rest where rs: "rs = (t1, d1) # (t2, d2) # (t3, d3) # rest"
    using assms(3) by (metis One_nat_def Suc_le_length_iff numeral_3_eq_3 surj_pair)
  obtain b1 x1 where 1: "take_once t1 b = (b1, x1)" by fastforce
  obtain b2 x2 where 2: "take_once t2 b1 = (b2, x2)" by fastforce
  show ?thesis
  proof (cases "x1 = None \<or> x2 = None")
    case True
    then show ?thesis using assms(2) 1 2 by (cases x1; cases x2) (auto simp: rs)
  next
    case False
    then obtain w1 w2 where w: "x1 = Some w1" "x2 = Some w2" by auto
    with assms(2) 1 2 have p: "last_t b \<le> t1" "\<not> d1" "t1 + w1 \<le> t2" "\<not> d2" "t2 + w2 \<le> t3"
      by (simp_all add: rs)
    then have "1 \<le> tokens (refill t3 b2)"
      using blocked_twice [OF assms(1)] 1 2 w by metis
    then obtain b3 where "take_once t3 b2 = (b3, None)" using refill_granted by blast
    with 1 2 w p show ?thesis by (simp add: rs)
  qed
qed

section \<open>Packet costs are never too low\<close>

lemma max32: "unat (- 1 :: uint32) = 4294967295" "uint (- 1 :: uint32) = 4294967295"
  by (simp_all add: unsigned_minus_1_eq_mask mask_eq_exp_minus_1)

lemma unat_saturate: "unat (saturate n) = min (nat n) 4294967295"
proof -
  have "unat (word_of_int n :: uint32) = nat n" if "0 < n" "n < 4294967295"
    using that by (simp add: unat_eq_nat_uint uint_word_of_int)
  then show ?thesis by (simp add: saturate_def max32 min_def) linarith
qed

lemma unat_SaturatingAdd: "unat (SaturatingAdd a b) = min (unat a + unat b) 4294967295"
proof -
  have "unat b < 2 ^ LENGTH(32)" by (rule unsigned_less)
  then have b: "unat b \<le> 4294967295" by simp
  have "unat (- 1 - b) = 4294967295 - unat b"
    using unat_sub [of b "- 1"] by (simp add: max32)
  then have "a > - 1 - b \<longleftrightarrow> 4294967295 < unat a + unat b" using b by (simp add: word_less_nat_alt) linarith
  moreover have "unat a + unat b \<le> 4294967295 \<Longrightarrow> unat (a + b) = unat a + unat b"
    by (simp add: unat_word_ariths)
  ultimately show ?thesis by (auto simp: SaturatingAdd_def max32 min_def)
qed

lemma unat_SynTrainBound: "unat (SynTrainBound d) = min (1 + nat (d div Second)) 4294967295"
proof (cases "d \<le> 0")
  case True
  then have "nat (d div Second) = 0" by (simp add: Second_def div_nonpos_pos_le0)
  with True show ?thesis by (simp add: SynTrainBound_def)
qed (simp add: SynTrainBound_def unat_SaturatingAdd unat_saturate)

lemma unat_SynCost:
  "unat (SynCost t) = (if t < Second then 1 else if t < 3 * Second then 2 else if t < 7 * Second then 3
     else if t < 15 * Second then 4 else if t < 31 * Second then 5 else if t < 63 * Second then 6 else 7)"
proof -
  have six: "6 = Suc (Suc (Suc (Suc (Suc (Suc 0)))))" by simp
  have "SynCost t = (if t < Second then 1 else if t < 3 * Second then 2 else if t < 7 * Second then 3
     else if t < 15 * Second then 4 else if t < 31 * Second then 5 else if t < 63 * Second then 6 else 7)"
    unfolding SynCost_def six by (simp add: Second_def not_less)
  then show ?thesis by simp
qed

text \<open>
  The packet costs err on the side of the ceiling and never wrap. The admission bound of a SYN
  train is at least the expected cost; the bound of a connection is exactly the whole seconds of
  the timeout plus four; and a write of \<open>n\<close> bytes is exactly the segments of 512 bytes that hold
  it; the last two held at the maximum of \<open>uint32\<close>.
\<close>

theorem packet_costs:
  "SynCost t \<le> SynTrainBound t
   \<and> unat (ConnectionBound t) = min (4 + nat (t div Second)) 4294967295
   \<and> unat (Segments n) = min (nat ((n + 511) div 512)) 4294967295"
proof (intro conjI)
  have "unat (SynCost t) \<le> 1 + nat (t div Second)"
    unfolding unat_SynCost by (auto simp: Second_def)
  moreover have "unat (SynCost t) \<le> 7" unfolding unat_SynCost by simp
  ultimately show "SynCost t \<le> SynTrainBound t"
    by (simp add: word_le_nat_alt unat_SynTrainBound)
  show "unat (ConnectionBound t) = min (4 + nat (t div Second)) 4294967295"
    by (simp add: ConnectionBound_def unat_SaturatingAdd unat_SynTrainBound EstablishedCost_def)
  have "(n + 511) div 512 = n div 512 + (n mod 512 + 511) div 512"
    using div_add1_eq [of n 511 512] by simp
  moreover have "(n mod 512 + 511) div 512 = (if n mod 512 \<noteq> 0 then 1 else 0)"
    using pos_mod_bound [of 512 n] pos_mod_sign [of 512 n] by (auto intro!: int_div_pos_eq [of _ 512 1 "n mod 512 - 1"])
  moreover have "n \<le> 0 \<Longrightarrow> (n + 511) div 512 \<le> 0"
    using zdiv_mono1 [of "n + 511" 511 512] by simp
  ultimately show "unat (Segments n) = min (nat ((n + 511) div 512)) 4294967295"
    by (simp add: Segments_def SegmentPayload_def unat_saturate Let_def)
qed

section \<open>A concrete bucket\<close>

lemmas bucket_eval = New_def BurstFor_def take_once_def refill_def Seconds_def Second_def Millisecond_def
  MinRatePPS_def BackOff_def refund_def Let_def

lemma ex_run:
  "run [OTake 0] (New 50 0) = (\<lparr>capacity = 5, tokens = 0, rate = 50, ceiling = 50, last_t = 0\<rparr>, 1, 0)"
  "run [OTake 1000000000, OTake 1000000001] \<lparr>capacity = 5, tokens = 0, rate = 50, ceiling = 50, last_t = 0\<rparr> =
     (\<lparr>capacity = 5, tokens = 60000001 / 20000000, rate = 50, ceiling = 50, last_t = 1000000001\<rparr>, 2, 0)"
  by (simp_all add: bucket_eval)

theorem Bucket_window_bound_witness:
  "of_nat 2 \<le> BurstFor 50 + of_nat 0 + 50 * Seconds (1000000001 - 1000000000)"
  by (rule Bucket_window_bound [OF _ ex_run(1) _ ex_run(2)]) (simp_all add: opIn_def MinRatePPS_def)

theorem Bucket_rate_never_rises_witness:
  "rate (fst (run [OTake 0, OBackOff] (New 50 0))) \<le> 50"
  using Bucket_rate_never_rises [of 50 "[OTake 0, OBackOff]" 0] by (simp add: MinRatePPS_def Let_def)

theorem Take_served_witness:
  "fst (snd (Take [(0, False), (10 ^ 9, False), (2 * 10 ^ 9, False)] (fst (take_once 0 (New 2 0))))) = TakeOK"
proof (rule Take_served [where r = 2])
  show "bucket_ok 2 (fst (take_once 0 (New 2 0)))"
    by (rule take_once_ok(1) [OF New_ok]) (simp add: MinRatePPS_def)
qed (simp_all add: bucket_eval)

end
