(* ===== verification/Scanpoint_Budget.thy ===== *)
theory Scanpoint_Budget
  imports Rate_Budget
begin

text \<open>
  What the scan point runtime allots to an engine: \<open>internal/scanpoint/allocator.go\<close> (the share of
  the scan point's rate), \<open>clampToBudget\<close> and \<open>job.budget\<close> of \<open>internal/scanpoint/job.go\<close>, with
  the ceilings of \<open>config.go\<close>, and the probe check at the head of \<open>engineHost.start\<close>. The Go
  map of holders is a finite set of job ids.
\<close>

section \<open>Platform ceilings\<close>

definition PlatformMaxRatePPS :: uint32 where "PlatformMaxRatePPS = 1000"
definition PlatformMaxRatePerTarget :: uint32 where "PlatformMaxRatePerTarget = 50"
definition PlatformFragileRatePPS :: uint32 where "PlatformFragileRatePPS = 10"
definition PlatformMaxConcurrentPerTarget :: uint32 where "PlatformMaxConcurrentPerTarget = 20"
definition PlatformConnectTimeoutMS :: uint32 where "PlatformConnectTimeoutMS = 3000"
definition PlatformMaxProbesPerPort :: uint32 where "PlatformMaxProbesPerPort = 8"
definition PlatformFragileMaxConcurrent :: uint32 where "PlatformFragileMaxConcurrent = 1"
definition SafetyIntrusive :: string where "SafetyIntrusive = ''intrusive''"

lemmas platform_defs = PlatformMaxRatePPS_def PlatformMaxRatePerTarget_def PlatformFragileRatePPS_def
  PlatformMaxConcurrentPerTarget_def PlatformConnectTimeoutMS_def PlatformMaxProbesPerPort_def
  PlatformFragileMaxConcurrent_def

definition u32 :: "int \<Rightarrow> uint32" where
  "u32 n = (if n < 0 then 0 else if n > 2 ^ 32 - 1 then - 1 else word_of_int n)"

section \<open>The allocator\<close>

record allocator =
  aceiling :: uint32
  holders :: "string set"

definition newAllocator :: "uint32 \<Rightarrow> allocator" where
  "newAllocator c = \<lparr>aceiling = (if c = 0 then PlatformMaxRatePPS else c), holders = {}\<rparr>"

definition holderCount :: "nat \<Rightarrow> uint32" where
  "holderCount n = (if n > 1 then (if n > unat (- 1 :: uint32) then - 1 else of_nat n) else 1)"

definition acquire :: "string \<Rightarrow> allocator \<Rightarrow> allocator \<times> uint32" where
  "acquire jobID a =
     (let a = a\<lparr>holders := insert jobID (holders a)\<rparr>;
          share = aceiling a div holderCount (card (holders a))
      in (a, if share < 1 then 1 else share))"

definition release :: "string \<Rightarrow> allocator \<Rightarrow> allocator" where
  "release jobID a = a\<lparr>holders := holders a - {jobID}\<rparr>"

definition held :: "allocator \<Rightarrow> nat" where
  "held a = card (holders a)"

section \<open>The budget of a job\<close>

record 'p clampInputs =
  ciRate :: uint32
  ciFragileRate :: uint32
  ciTimeout :: uint32
  ciConcurrency :: uint32
  ciSafetyMode :: string
  ciAnyFragile :: bool
  ciProbes :: "'p list"

text \<open>\<open>Cred\<close> is set later, at the spawn of a credentialed job, and is not part of this model.\<close>

record ('p, 'm) engineBudget =
  RatePPS :: uint32
  ConnectTimeoutMS :: uint32
  MaxConcurrentPerTarget :: uint32
  SafetyMode :: string
  Probes :: "'p list"
  BannerMatches :: "'m list"
  MaxProbesPerPort :: uint32

definition clampCeiling :: "uint32 \<Rightarrow> uint32 \<Rightarrow> uint32" where
  "clampCeiling sent platform = (if sent = 0 \<or> sent > platform then platform else sent)"

definition clampToBudget :: "'p clampInputs \<Rightarrow> ('p, 'm) engineBudget" where
  "clampToBudget i =
     (let rate = clampCeiling (ciRate i) PlatformMaxRatePerTarget;
          rate = (if ciAnyFragile i
                  then let f = clampCeiling (ciFragileRate i) PlatformFragileRatePPS in if f < rate then f else rate
                  else rate);
          concurrency = clampCeiling (ciConcurrency i) PlatformMaxConcurrentPerTarget;
          concurrency = (if ciAnyFragile i \<and> concurrency > PlatformFragileMaxConcurrent
                         then PlatformFragileMaxConcurrent else concurrency);
          probes = (if ciSafetyMode i = SafetyIntrusive \<and> \<not> ciAnyFragile i then ciProbes i else [])
      in \<lparr>RatePPS = rate, ConnectTimeoutMS = clampCeiling (ciTimeout i) PlatformConnectTimeoutMS,
          MaxConcurrentPerTarget = concurrency, SafetyMode = ciSafetyMode i, Probes = probes,
          BannerMatches = [], MaxProbesPerPort = PlatformMaxProbesPerPort\<rparr>)"

record Task =
  tTaskId :: string
  tTarget :: string
  tFragile :: bool

record ScanConstraints =
  MaxRatePerTarget :: uint32
  FragileRatePps :: uint32
  ConnectTimeoutMs :: uint32
  ScMaxConcurrentPerTarget :: uint32
  ScSafetyMode :: string

record ('p, 'm) Corpus =
  coProbes :: "'p list"
  coBannerMatches :: "'m list"

text \<open>The built-in corpus is an argument: the job falls back to it when it has none of its own.\<close>

definition budget ::
  "('p, 'm) Corpus \<Rightarrow> ScanConstraints \<Rightarrow> Task list \<Rightarrow> ('p, 'm) Corpus option \<Rightarrow> ('p, 'm) engineBudget" where
  "budget builtin c tasks corpus =
     (let anyFragile = list_ex tFragile tasks;
          co = (case corpus of Some co \<Rightarrow> co | None \<Rightarrow> builtin);
          b = clampToBudget \<lparr>ciRate = MaxRatePerTarget c, ciFragileRate = FragileRatePps c,
                ciTimeout = ConnectTimeoutMs c, ciConcurrency = ScMaxConcurrentPerTarget c,
                ciSafetyMode = ScSafetyMode c, ciAnyFragile = anyFragile, ciProbes = coProbes co\<rparr>
      in b\<lparr>BannerMatches := coBannerMatches co\<rparr>)"

record wireTarget =
  wTaskID :: string
  wValue :: string
  wFragile :: bool

definition wireTargets :: "Task list \<Rightarrow> wireTarget list" where
  "wireTargets tasks = map (\<lambda>t. \<lparr>wTaskID = tTaskId t, wValue = tTarget t, wFragile = tFragile t\<rparr>) tasks"

text \<open>The check \<open>engineHost.start\<close> makes before it spawns: probes only under the intrusive mode.\<close>

definition probesAllowed :: "('p, 'm) engineBudget \<Rightarrow> bool" where
  "probesAllowed b \<longleftrightarrow> \<not> (SafetyMode b \<noteq> SafetyIntrusive \<and> length (Probes b) > 0)"

section \<open>What a budget can be\<close>

lemma clampCeiling_bounds:
  "0 < platform \<Longrightarrow> 0 < clampCeiling sent platform \<and> clampCeiling sent platform \<le> platform"
  by (auto simp: clampCeiling_def word_gt_0)

text \<open>
  Whatever Core sends, an engine's budget stays within ADR-024: every limit is positive and at
  most the platform's; a job with a fragile target gets at most 10 packets per second, one
  connection at a time and no probes; a job that is not intrusive gets no probes; and the
  budget always passes the check made before the engine is spawned.
\<close>

theorem budget_within_ceilings:
  "let b = budget builtin c tasks corpus in
     0 < RatePPS b \<and> RatePPS b \<le> PlatformMaxRatePerTarget
   \<and> 0 < ConnectTimeoutMS b \<and> ConnectTimeoutMS b \<le> PlatformConnectTimeoutMS
   \<and> 0 < MaxConcurrentPerTarget b \<and> MaxConcurrentPerTarget b \<le> PlatformMaxConcurrentPerTarget
   \<and> MaxProbesPerPort b = PlatformMaxProbesPerPort
   \<and> (if list_ex tFragile tasks
      then RatePPS b \<le> PlatformFragileRatePPS \<and> MaxConcurrentPerTarget b \<le> PlatformFragileMaxConcurrent \<and> Probes b = []
      else ScSafetyMode c = SafetyIntrusive \<or> Probes b = [])
   \<and> probesAllowed b"
  using clampCeiling_bounds [of PlatformMaxRatePerTarget "MaxRatePerTarget c"]
    clampCeiling_bounds [of PlatformFragileRatePPS "FragileRatePps c"]
    clampCeiling_bounds [of PlatformMaxConcurrentPerTarget "ScMaxConcurrentPerTarget c"]
    clampCeiling_bounds [of PlatformConnectTimeoutMS "ConnectTimeoutMs c"]
  by (auto simp: budget_def clampToBudget_def Let_def probesAllowed_def not_less
      PlatformMaxRatePerTarget_def PlatformFragileRatePPS_def PlatformMaxConcurrentPerTarget_def
      PlatformConnectTimeoutMS_def PlatformFragileMaxConcurrent_def intro: order.trans)

section \<open>The aggregate of the shares\<close>

text \<open>
  The jobs that hold a share, oldest first, with what each was given. A job that asks again is
  given a new share in place of its old one.
\<close>

datatype alloc_op = Acquire string | Release string

fun alloc_step :: "alloc_op \<Rightarrow> allocator \<times> (string \<times> uint32) list \<Rightarrow> allocator \<times> (string \<times> uint32) list" where
  "alloc_step (Acquire j) (a, g) =
     (let (a', share) = acquire j a in (a', filter (\<lambda>x. fst x \<noteq> j) g @ [(j, share)]))"
| "alloc_step (Release j) (a, g) = (release j a, filter (\<lambda>x. fst x \<noteq> j) g)"

definition alloc_inv :: "uint32 \<Rightarrow> allocator \<times> (string \<times> uint32) list \<Rightarrow> bool" where
  "alloc_inv c = (\<lambda>(a, g). aceiling a = c \<and> distinct (map fst g) \<and> holders a = set (map fst g)
     \<and> (\<forall>i < length g. unat (snd (g ! i)) \<le> max 1 (unat c div Suc i)))"

lemma unat_holderCount: "0 < n \<Longrightarrow> n < 2 ^ 32 \<Longrightarrow> unat (holderCount n) = n"
  by (auto simp: holderCount_def max32 unat_of_nat)

lemma unat_acquire:
  assumes "finite (holders a)" "card (insert j (holders a)) < 2 ^ 32"
  shows "unat (snd (acquire j a)) = max 1 (unat (aceiling a) div card (insert j (holders a)))"
proof -
  have "0 < card (insert j (holders a))" using assms(1) by (simp add: card_gt_0_iff)
  then have n: "unat (holderCount (card (insert j (holders a)))) = card (insert j (holders a))"
    using unat_holderCount assms(2) by blast
  have "unat (aceiling a div holderCount (card (insert j (holders a)))) =
      unat (aceiling a) div card (insert j (holders a))"
    by (simp add: unat_div n)
  then show ?thesis by (auto simp: acquire_def Let_def word_less_nat_alt max_def)
qed

text \<open>Dropping older jobs only moves a job toward the front, where the bound is larger.\<close>

lemma nth_filter_le:
  "i < length (filter P xs) \<Longrightarrow> \<exists>k. i \<le> k \<and> k < length xs \<and> filter P xs ! i = xs ! k"
proof (induction xs arbitrary: i)
  case (Cons x xs)
  show ?case
  proof (cases "P x")
    case True
    show ?thesis
    proof (cases i)
      case 0
      then show ?thesis using True by (intro exI [of _ 0]) simp
    next
      case (Suc i')
      then obtain k where "i' \<le> k" "k < length xs" "filter P xs ! i' = xs ! k"
        using Cons True by auto
      then show ?thesis using Suc True by (intro exI [of _ "Suc k"]) simp
    qed
  next
    case False
    then obtain k where "i \<le> k" "k < length xs" "filter P xs ! i = xs ! k" using Cons by auto
    then show ?thesis using False by (intro exI [of _ "Suc k"]) simp
  qed
qed simp

lemma bound_filter:
  assumes "\<forall>i < length g. unat (snd (g ! i)) \<le> max 1 (unat c div Suc i)"
  shows "\<forall>i < length (filter P g). unat (snd (filter P g ! i)) \<le> max 1 (unat c div Suc i)"
proof (intro allI impI)
  fix i assume "i < length (filter P g)"
  then obtain k where k: "i \<le> k" "k < length g" "filter P g ! i = g ! k" using nth_filter_le by blast
  then have "unat (snd (filter P g ! i)) \<le> max 1 (unat c div Suc k)" using assms by simp
  also have "\<dots> \<le> max 1 (unat c div Suc i)" using k(1) by (intro max.mono div_le_mono2) auto
  finally show "unat (snd (filter P g ! i)) \<le> max 1 (unat c div Suc i)" .
qed

lemma alloc_inv_step:
  assumes "alloc_inv c (a, g)" "Suc (length g) < 2 ^ 32"
  shows "alloc_inv c (alloc_step x (a, g))"
proof -
  let ?f = "\<lambda>j. filter (\<lambda>x. fst x \<noteq> j) g"
  have a: "aceiling a = c" "distinct (map fst g)" "holders a = set (map fst g)"
    and b: "\<forall>i < length g. unat (snd (g ! i)) \<le> max 1 (unat c div Suc i)"
    using assms(1) by (auto simp: alloc_inv_def)
  have f: "distinct (map fst (?f j))" "set (map fst (?f j)) = set (map fst g) - {j}" for j
    using a(2) by (auto simp: distinct_map inj_on_def)
  show ?thesis
  proof (cases x)
    case (Release j)
    then show ?thesis using a f [of j] bound_filter [OF b] by (simp add: alloc_inv_def release_def)
  next
    case (Acquire j)
    have card: "card (insert j (holders a)) = Suc (length (?f j))"
      using card.insert_remove [of "holders a" j] a(3) f(2) [of j] distinct_card [OF f(1) [of j]]
      by simp
    have "length (?f j) \<le> length g" by simp
    then have "card (insert j (holders a)) < 2 ^ 32" using card assms(2) by linarith
    then have s: "unat (snd (acquire j a)) = max 1 (unat c div Suc (length (?f j)))"
      using unat_acquire [of a j] card a by simp
    show ?thesis
      using a f [of j] bound_filter [OF b, of "\<lambda>x. fst x \<noteq> j"] s Acquire
      by (auto simp: alloc_inv_def acquire_def Let_def nth_append less_Suc_eq split: prod.splits)
  qed
qed

lemma alloc_inv_run:
  assumes "length ops + length (snd st) < 2 ^ 32 - 1" "alloc_inv c st"
  shows "alloc_inv c (fold alloc_step ops st)"
  using assms
proof (induction ops arbitrary: st)
  case (Cons x ops)
  obtain a g where st: "st = (a, g)" by (cases st)
  have inv: "alloc_inv c (alloc_step x st)" using Cons.prems alloc_inv_step [of c a g x] by (simp add: st)
  have "length (snd (alloc_step x st)) \<le> Suc (length g)"
    by (cases x) (auto simp: st case_prod_beta intro: le_SucI)
  then show ?case using Cons inv by (simp add: st)
qed simp

text \<open>
  The shares handed out add up to a bounded overshoot. After any sequence of acquisitions and
  releases, the job that has held its share the longest has at most the whole ceiling, the next
  at most a half, the one after at most a third and so on (each at least one), so the total of
  the shares in use is at most the ceiling times the harmonic number of the jobs that run.
\<close>

theorem allocator_aggregate:
  assumes "length ops < 2 ^ 32 - 1" "c \<noteq> 0"
  shows "let (a, g) = fold alloc_step ops (newAllocator c, []) in
      held a = length g
    \<and> (\<forall>i < length g. unat (snd (g ! i)) \<le> max 1 (unat c div Suc i))
    \<and> sum_list (map (\<lambda>x. unat (snd x)) g) \<le> (\<Sum>i < length g. max 1 (unat c div Suc i))"
proof -
  obtain a g where R: "fold alloc_step ops (newAllocator c, []) = (a, g)" by fastforce
  have "alloc_inv c (newAllocator c, [])" using assms(2) by (simp add: alloc_inv_def newAllocator_def)
  then have I: "alloc_inv c (a, g)" using alloc_inv_run [of ops "(newAllocator c, [])" c] assms(1) R by simp
  have "sum_list (map (\<lambda>x. unat (snd x)) g) = (\<Sum>i < length g. unat (snd (g ! i)))"
    by (simp add: sum_list_sum_nth atLeast0LessThan)
  also have "\<dots> \<le> (\<Sum>i < length g. max 1 (unat c div Suc i))"
    using I by (intro sum_mono) (auto simp: alloc_inv_def)
  finally have "sum_list (map (\<lambda>x. unat (snd x)) g) \<le> (\<Sum>i < length g. max 1 (unat c div Suc i))" .
  moreover have "held a = length g"
    using I distinct_card [of "map fst g"] by (simp add: alloc_inv_def held_def)
  ultimately show ?thesis using R I by (simp add: alloc_inv_def)
qed

theorem allocator_aggregate_witness:
  "let (a, g) = fold alloc_step [Acquire ''a'', Acquire ''b''] (newAllocator 1000, []) in
     sum_list (map (\<lambda>x. unat (snd x)) g) \<le> (\<Sum>i < length g. max 1 (1000 div Suc i))"
  using allocator_aggregate [of "[Acquire ''a'', Acquire ''b'']" 1000] by (simp add: case_prod_beta Let_def)

end
