(* ===== verification/Target.thy ===== *)
theory Target
  imports Netip
begin

text \<open>
  \<open>internal/target\<close>: the canonical form of a target (its types), the IPv4 addresses an IPv6 address
  can be carrying (\<open>translated.go\<close>), and the set of Core's own addresses that must never be
  scanned (\<open>core.go\<close>). Name resolution is an argument.
\<close>

unbundle bit_operations_syntax

section \<open>Canonical targets\<close>

datatype Kind = KindAddress | KindPrefix | KindHostname

definition Kind_String :: "Kind \<Rightarrow> string" where
  "Kind_String k = (case k of KindAddress \<Rightarrow> ''address'' | KindPrefix \<Rightarrow> ''prefix'' | _ \<Rightarrow> ''hostname'')"

record Canonical =
  cValue :: string
  cKind :: Kind
  cAddr :: Addr
  cPrefix :: netPrefix

definition validPort :: "string \<Rightarrow> bool" where
  "validPort port =
     (if port = [] \<or> length port > 5 then False
      else if \<not> list_all isDigit port then False
      else (case atoi port of None \<Rightarrow> False | Some n \<Rightarrow> 0 \<le> n \<and> n \<le> 65535))"

text \<open>\<open>net.SplitHostPort\<close>, with every error as \<open>None\<close>.\<close>

definition SplitHostPort :: "string \<Rightarrow> (string \<times> string) option" where
  "SplitHostPort s =
     (case cutLastByte (CHR '':'') s of
        None \<Rightarrow> None
      | Some (before, port) \<Rightarrow>
          if hd s = CHR ''['' then
            (case cutByte (CHR '']'') s of
               None \<Rightarrow> None
             | Some (l, r) \<Rightarrow>
                 if l @ [CHR '']''] \<noteq> before then None
                 else if CHR ''['' \<in> set (drop 1 s) then None
                 else if CHR '']'' \<in> set r then None
                 else Some (drop 1 l, port))
          else if CHR '':'' \<in> set before then None
          else if CHR ''['' \<in> set s then None
          else if CHR '']'' \<in> set s then None
          else Some (before, port))"

section \<open>Translated addresses\<close>

definition AddrFrom4 :: "8 word \<Rightarrow> 8 word \<Rightarrow> 8 word \<Rightarrow> 8 word \<Rightarrow> Addr" where
  "AddrFrom4 a b c d =
     V4 (push_bit 24 (ucast a) OR push_bit 16 (ucast b) OR push_bit 8 (ucast c) OR ucast d)"

definition nat64 :: netPrefix where
  "nat64 = \<lparr>pAddr = V6 (push_bit 96 0x0064ff9b) [], pBits = 96\<rparr>"
definition sixToFour :: netPrefix where
  "sixToFour = \<lparr>pAddr = V6 (push_bit 112 0x2002) [], pBits = 16\<rparr>"
definition teredo :: netPrefix where
  "teredo = \<lparr>pAddr = V6 (push_bit 96 0x20010000) [], pBits = 32\<rparr>"
definition v4Compatible :: netPrefix where
  "v4Compatible = \<lparr>pAddr = V6 0 [], pBits = 96\<rparr>"

definition addV4 :: "Addr \<Rightarrow> Addr list \<Rightarrow> Addr list" where
  "addV4 v4 out =
     (if \<not> IsValid v4 \<or> IsUnspecified v4 \<or> v4 = AddrFrom4 255 255 255 255 then out
      else if v4 = AddrFrom4 0 0 0 1 then out
      else if v4 \<in> set out then out
      else out @ [v4])"

definition TranslatedV4s :: "Addr \<Rightarrow> Addr list" where
  "TranslatedV4s a =
     (if \<not> Is6 a \<or> Is4In6 a then []
      else case a of
        V6 w _ \<Rightarrow>
          (let b = byteAt w;
               low = AddrFrom4 (b 12) (b 13) (b 14) (b 15);
               out = [];
               out = (if Contains nat64 a then addV4 low out else out);
               out = (if Contains sixToFour a then addV4 (AddrFrom4 (b 2) (b 3) (b 4) (b 5)) out else out);
               out = (if Contains teredo a
                      then addV4 (AddrFrom4 (NOT (b 12)) (NOT (b 13)) (NOT (b 14)) (NOT (b 15))) out else out);
               out = (if Contains v4Compatible a then addV4 low out else out);
               out = (if (b 8 = 0x00 \<or> b 8 = 0x02) \<and> b 9 = 0x00 \<and> b 10 = 0x5e \<and> b 11 = 0xfe
                      then addV4 low out else out)
           in out)
      | _ \<Rightarrow> [])"

section \<open>Core's own addresses\<close>

record CoreEndpoints =
  addrs :: "Addr list"

datatype coreError =
    BadEndpoint string
  | MappedEndpoint string
  | NoResolver string
  | ResolveFailed string
  | ResolvedEmpty string
  | ErrNoCoreEndpoint

type_synonym Resolver = "string \<Rightarrow> Addr list option"

definition addCore :: "Addr \<Rightarrow> Addr list \<Rightarrow> Addr list" where
  "addCore a0 out =
     (let a = noZone (Unmap a0) in if IsUnspecified a \<or> a \<in> set out then out else out @ [a])"

fun coreAddrs :: "Resolver option \<Rightarrow> string \<Rightarrow> string \<Rightarrow> coreError + Addr list" where
  "coreAddrs resolve ep host =
     (case ParseAddr host of
        Some a \<Rightarrow> if Is4In6 a then Inl (MappedEndpoint ep) else Inr [a]
      | None \<Rightarrow>
          (case resolve of
             None \<Rightarrow> Inl (NoResolver ep)
           | Some f \<Rightarrow>
               (case f host of
                  None \<Rightarrow> Inl (ResolveFailed ep)
                | Some as \<Rightarrow> if as = [] then Inl (ResolvedEmpty ep) else Inr as)))"

fun NewCore_loop :: "Resolver option \<Rightarrow> string list \<Rightarrow> Addr list \<Rightarrow> coreError + Addr list" where
  "NewCore_loop resolve [] out = Inr out"
| "NewCore_loop resolve (ep # eps) out =
     (if ep = [] then NewCore_loop resolve eps out
      else case SplitHostPort ep of
        None \<Rightarrow> Inl (BadEndpoint ep)
      | Some (host, _) \<Rightarrow>
          if host = [] then NewCore_loop resolve eps out
          else (case coreAddrs resolve ep host of
                  Inl e \<Rightarrow> Inl e
                | Inr as \<Rightarrow> NewCore_loop resolve eps (fold addCore as out)))"

definition NewCoreEndpoints :: "Resolver option \<Rightarrow> string list \<Rightarrow> coreError + CoreEndpoints" where
  "NewCoreEndpoints resolve endpoints =
     (case NewCore_loop resolve endpoints [] of
        Inl e \<Rightarrow> Inl e
      | Inr out \<Rightarrow> if out = [] then Inl ErrNoCoreEndpoint else Inr \<lparr>addrs = out\<rparr>)"

definition Covers :: "CoreEndpoints \<Rightarrow> CoreEndpoints \<Rightarrow> bool" where
  "Covers e other = list_all (\<lambda>a. a \<in> set (addrs e)) (addrs other)"

definition Missing :: "CoreEndpoints \<Rightarrow> CoreEndpoints \<Rightarrow> Addr list" where
  "Missing e other = filter (\<lambda>a. a \<notin> set (addrs e)) (addrs other)"

definition coreContains :: "CoreEndpoints \<Rightarrow> Canonical \<Rightarrow> bool" where
  "coreContains e c =
     (case cKind c of
        KindAddress \<Rightarrow> noZone (Unmap (cAddr c)) \<in> set (addrs e)
      | KindPrefix \<Rightarrow> list_ex (Contains (cPrefix c)) (addrs e)
      | KindHostname \<Rightarrow> False)"

section \<open>Facts about translation\<close>

lemma byte_slice:
  fixes v :: "128 word"
  shows "push_bit 24 (ucast (ucast (drop_bit 24 v) :: 8 word)) OR push_bit 16 (ucast (ucast (drop_bit 16 v) :: 8 word))
      OR push_bit 8 (ucast (ucast (drop_bit 8 v) :: 8 word)) OR ucast (ucast v :: 8 word) = (ucast v :: 32 word)"
    (is "?l = _")
proof (rule bit_word_eqI)
  fix n assume "n < LENGTH(32)"
  then consider "n < 8" | "8 \<le> n" "n < 16" | "16 \<le> n" "n < 24" | "24 \<le> n" "n < 32" by fastforce
  then show "bit ?l n = bit (ucast v :: 32 word) n"
    by cases (simp_all add: bit_simps less_diff_conv2)
qed

lemma AddrFrom4_bytes:
  assumes "i \<le> 12"
  shows "AddrFrom4 (byteAt w i) (byteAt w (i + 1)) (byteAt w (i + 2)) (byteAt w (i + 3)) =
    V4 (ucast (drop_bit (8 * (12 - i)) w))"
proof -
  have "8 * (15 - i) = 24 + 8 * (12 - i)" "8 * (15 - (i + 1)) = 16 + 8 * (12 - i)"
    "8 * (15 - (i + 2)) = 8 + 8 * (12 - i)" "8 * (15 - (i + 3)) = 8 * (12 - i)"
    using assms by simp_all
  then show ?thesis
    using byte_slice [of "drop_bit (8 * (12 - i)) w"]
    unfolding AddrFrom4_def byteAt_def by (simp add: add.commute)
qed

text \<open>The three slices \<open>TranslatedV4s\<close> reads, as shifts.\<close>

lemma low_bytes: "AddrFrom4 (byteAt w 12) (byteAt w 13) (byteAt w 14) (byteAt w 15) = V4 (ucast w)"
  using AddrFrom4_bytes [of 12 w] by simp

lemma six_bytes: "AddrFrom4 (byteAt w 2) (byteAt w 3) (byteAt w 4) (byteAt w 5) = V4 (ucast (drop_bit 80 w))"
  using AddrFrom4_bytes [of 2 w] by simp

lemma not_bytes:
  "AddrFrom4 (NOT (byteAt w 12)) (NOT (byteAt w 13)) (NOT (byteAt w 14)) (NOT (byteAt w 15)) = V4 (NOT (ucast w))"
proof -
  have "NOT (byteAt w i) = byteAt (NOT w) i" if "i \<le> 15" for i
    using that by (intro bit_word_eqI) (auto simp: byteAt_def bit_simps)
  moreover have "(ucast (NOT w) :: 32 word) = NOT (ucast w)"
    by (intro bit_word_eqI) (simp add: bit_simps)
  ultimately show ?thesis using low_bytes [of "NOT w"] by simp
qed

text \<open>
  The IPv4 address an IPv6 address carries, one disjunct per mechanism: NAT64, 6to4, Teredo,
  IPv4-compatible and ISATAP.
\<close>

definition carries :: "128 word \<Rightarrow> 32 word \<Rightarrow> bool" where
  "carries w v \<longleftrightarrow>
     (drop_bit 32 w = push_bit 64 0x0064ff9b \<and> v = ucast w)
   \<or> (drop_bit 112 w = 0x2002 \<and> v = ucast (drop_bit 80 w))
   \<or> (drop_bit 96 w = 0x20010000 \<and> v = NOT (ucast w))
   \<or> (drop_bit 32 w = 0 \<and> v = ucast w)
   \<or> ((byteAt w 8 = 0 \<or> byteAt w 8 = 2) \<and> byteAt w 9 = 0 \<and> byteAt w 10 = 0x5e \<and> byteAt w 11 = 0xfe
       \<and> v = ucast w)"

text \<open>Addresses no scan reaches: the unspecified one, the broadcast one, and the loopback's tail.\<close>

definition hostV4 :: "32 word \<Rightarrow> bool" where
  "hostV4 v \<longleftrightarrow> v \<noteq> 0 \<and> v \<noteq> 1 \<and> v \<noteq> - 1"

lemma set_addV4: "set (addV4 (V4 v) out) = set out \<union> (if hostV4 v then {V4 v} else {})"
  by (auto simp: addV4_def hostV4_def IsValid_def IsUnspecified_def AddrFrom4_def)

lemma Contains_translation:
  "Contains nat64 (V6 w []) \<longleftrightarrow> drop_bit 32 w = push_bit 64 0x0064ff9b"
  "Contains sixToFour (V6 w []) \<longleftrightarrow> drop_bit 112 w = 0x2002"
  "Contains teredo (V6 w []) \<longleftrightarrow> drop_bit 96 w = 0x20010000"
  "Contains v4Compatible (V6 w []) \<longleftrightarrow> drop_bit 32 w = 0"
  by (auto simp: Contains_def nat64_def sixToFour_def teredo_def v4Compatible_def)

lemma set_TranslatedV4s:
  assumes "\<not> Is4In6 (V6 w [])"
  shows "set (TranslatedV4s (V6 w [])) = {V4 v | v. carries w v \<and> hostV4 v}"
proof -
  have i: "set (if P then addV4 (V4 v) out else out) = set out \<union> {V4 v' | v'. v' = v \<and> P \<and> hostV4 v'}"
    for P v out
    by (simp add: set_addV4)
  have g: "\<not> (\<not> Is6 (V6 w []) \<or> Is4In6 (V6 w []))" using assms by (simp add: Is6_def)
  show ?thesis
    unfolding TranslatedV4s_def if_not_P [OF g] Addr.case Let_def low_bytes six_bytes not_bytes Contains_translation
      i list.set carries_def
    by blast
qed

section \<open>Properties\<close>

lemma distinct_addV4: "distinct out \<Longrightarrow> distinct (addV4 v out)"
  by (simp add: addV4_def)

text \<open>
  \<open>TranslatedV4s\<close> is exact: the addresses it lists for an IPv6 address are precisely the IPv4
  hosts that address carries by NAT64, 6to4, Teredo, IPv4-compatible or ISATAP, the three
  addresses that are no host left out, each listed once.
\<close>

theorem TranslatedV4s_exact:
  "distinct (TranslatedV4s (V6 w [])) \<and>
   set (TranslatedV4s (V6 w [])) = (if drop_bit 32 w = 0xffff then {} else {V4 v | v. carries w v \<and> hostV4 v})"
proof -
  have "distinct (TranslatedV4s (V6 w []))"
    unfolding TranslatedV4s_def Addr.case Let_def
    by (simp add: distinct_addV4)
  moreover have "set (TranslatedV4s (V6 w [])) =
      (if drop_bit 32 w = 0xffff then {} else {V4 v | v. carries w v \<and> hostV4 v})"
    using set_TranslatedV4s [of w] by (auto simp: Is4In6_def TranslatedV4s_def)
  ultimately show ?thesis by blast
qed

lemma set_addCore: "set (fold addCore as out) =
    set out \<union> {noZone (Unmap a) | a. a \<in> set as \<and> \<not> IsUnspecified (noZone (Unmap a))}"
  by (induction as arbitrary: out) (auto simp: addCore_def Let_def)

lemma NewCore_loop_mono: "NewCore_loop r eps out = Inr out' \<Longrightarrow> set out \<subseteq> set out'"
proof (induction eps arbitrary: out)
  case (Cons ep eps)
  then show ?case
    using set_addCore by (fastforce split: if_splits option.splits sum.splits simp del: coreAddrs.simps)
qed simp

definition endpointKnown :: "Resolver option \<Rightarrow> Addr set \<Rightarrow> string \<Rightarrow> bool" where
  "endpointKnown r S ep \<longleftrightarrow> ep = [] \<or> (\<exists>host port. SplitHostPort ep = Some (host, port)
     \<and> (host = [] \<or> (\<exists>as. coreAddrs r ep host = Inr as \<and> as \<noteq> []
           \<and> (\<forall>a \<in> set as. IsUnspecified (noZone (Unmap a)) \<or> noZone (Unmap a) \<in> S))))"

lemma coreAddrs_nonempty: "coreAddrs r ep host = Inr as \<Longrightarrow> as \<noteq> []"
  by (auto split: option.splits if_splits)

lemma NewCore_loop_known:
  "NewCore_loop r eps out = Inr out' \<Longrightarrow> \<forall>ep \<in> set eps. endpointKnown r (set out') ep"
proof (induction eps arbitrary: out)
  case (Cons ep eps)
  show ?case
  proof (cases "ep = []")
    case True
    then show ?thesis using Cons by (simp add: endpointKnown_def)
  next
    case ne: False
    then obtain host port where sp: "SplitHostPort ep = Some (host, port)"
      using Cons.prems by (auto split: option.splits)
    show ?thesis
    proof (cases "host = []")
      case True
      then show ?thesis using Cons ne sp by (simp add: endpointKnown_def)
    next
      case False
      then obtain as where a: "coreAddrs r ep host = Inr as" "NewCore_loop r eps (fold addCore as out) = Inr out'"
        using Cons.prems ne sp by (auto split: sum.splits simp del: coreAddrs.simps)
      have "\<forall>x \<in> set as. IsUnspecified (noZone (Unmap x)) \<or> noZone (Unmap x) \<in> set out'"
        using NewCore_loop_mono [OF a(2)] unfolding set_addCore by blast
      then have "endpointKnown r (set out') ep"
        using sp a(1) coreAddrs_nonempty [OF a(1)] unfolding endpointKnown_def by blast
      with Cons.IH [OF a(2)] show ?thesis by simp
    qed
  qed
qed simp

text \<open>
  Core is never a target. When the set of Core's endpoints is built without an error, it is not
  empty, every configured endpoint that names a host contributed all of its addresses, and any
  canonical target that is one of those addresses, or a range that covers one, is refused.
\<close>

theorem CoreEndpoints_refused:
  assumes "NewCoreEndpoints resolve eps = Inr e"
  shows "addrs e \<noteq> [] \<and> (\<forall>ep \<in> set eps. endpointKnown resolve (set (addrs e)) ep)
    \<and> (\<forall>a \<in> set (addrs e). \<forall>c. (cKind c = KindAddress \<and> noZone (Unmap (cAddr c)) = a
           \<or> cKind c = KindPrefix \<and> Contains (cPrefix c) a) \<longrightarrow> coreContains e c)"
proof -
  have "NewCore_loop resolve eps [] = Inr (addrs e)" "addrs e \<noteq> []"
    using assms by (auto simp: NewCoreEndpoints_def split: sum.splits if_splits)
  then show ?thesis
    using NewCore_loop_known by (auto simp: coreContains_def list_ex_iff)
qed

lemma Covers_iff_Missing: "Covers e other \<longleftrightarrow> Missing e other = []"
  by (simp add: Covers_def Missing_def list_all_iff filter_empty_conv)

lemma ex_endpoint:
  "SplitHostPort ''10.0.0.9:8444'' = Some (''10.0.0.9'', ''8444'')"
  "ParseAddr ''10.0.0.9'' = Some (V4 0x0a000009)"
  by (simp_all add: SplitHostPort_def cutLastByte_def ParseAddr_def parseIPv4_def isDigit_def digitVal_def ofBytes_def)

theorem CoreEndpoints_refused_witness:
  "NewCoreEndpoints None [''10.0.0.9:8444''] = Inr \<lparr>addrs = [V4 0x0a000009]\<rparr>
   \<and> coreContains \<lparr>addrs = [V4 0x0a000009]\<rparr> \<lparr>cValue = ''10.0.0.0/24'', cKind = KindPrefix, cAddr = NoAddr,
       cPrefix = \<lparr>pAddr = V4 0x0a000000, pBits = 24\<rparr>\<rparr>"
proof -
  have N: "NewCoreEndpoints None [''10.0.0.9:8444''] = Inr \<lparr>addrs = [V4 0x0a000009]\<rparr>"
    by (simp add: NewCoreEndpoints_def ex_endpoint addCore_def Is4In6_def IsUnspecified_def)
  from CoreEndpoints_refused [OF N] show ?thesis
    using N by (auto simp: Contains_def)
qed

end
