(* ===== verification/Scope.thy ===== *)
theory Scope
  imports Target
begin

text \<open>
  \<open>internal/scope/scope.go\<close>: whether one canonical target is inside a job's authorised scope. The
  same function runs at Core when a job is offered and at the scan point before an engine is
  created.
\<close>

definition trimRoot :: "string \<Rightarrow> string" where
  "trimRoot host = trimSuffixByte (CHR ''.'') host"

definition matches :: "string \<Rightarrow> string \<Rightarrow> Addr \<Rightarrow> bool \<Rightarrow> bool" where
  "matches rule0 val addr isAddr =
     (let rule = TrimSpace rule0
      in case ParsePrefix rule of
           Some p \<Rightarrow>
             (let p = (if Is4In6 (pAddr p)
                       then case Addr_Prefix (Unmap (pAddr p)) (pBits p - 96) of Some q \<Rightarrow> q | None \<Rightarrow> p
                       else p)
              in isAddr \<and> Contains p addr)
         | None \<Rightarrow>
             (case ParseAddr rule of
                Some a \<Rightarrow> isAddr \<and> Unmap (noZone a) = addr
              | None \<Rightarrow> EqualFold (trimRoot rule) (trimRoot (TrimSpace val))))"

definition parseRuleAddr :: "string \<Rightarrow> Addr option" where
  "parseRuleAddr rule0 =
     (let rule = TrimSpace rule0
      in case ParseAddr rule of
           Some a \<Rightarrow> Some (Unmap (noZone a))
         | None \<Rightarrow>
             (case ParsePrefix rule of
                Some p \<Rightarrow> if pBits p = BitLen (pAddr p) then Some (Unmap (noZone (pAddr p))) else None
              | None \<Rightarrow> None))"

text \<open>\<open>v4.String()\<close> of an element of \<open>TranslatedV4s\<close>; these are IPv4 addresses.\<close>

definition addrString4 :: "Addr \<Rightarrow> string" where
  "addrString4 a = (case a of V4 w \<Rightarrow> v4String w | _ \<Rightarrow> [])"

definition matchesExclusion :: "string \<Rightarrow> string \<Rightarrow> Addr \<Rightarrow> bool \<Rightarrow> bool" where
  "matchesExclusion rule val addr isAddr =
     (if matches rule val addr isAddr then True
      else let targetV4s = (if isAddr then TranslatedV4s addr else [])
           in if list_ex (\<lambda>v4. matches rule (addrString4 v4) v4 True) targetV4s then True
              else case parseRuleAddr rule of
                     None \<Rightarrow> False
                   | Some ruleAddr \<Rightarrow>
                       list_ex (\<lambda>ruleV4. (isAddr \<and> ruleV4 = addr) \<or> list_ex (\<lambda>tv4. ruleV4 = tv4) targetV4s)
                         (TranslatedV4s ruleAddr))"

datatype scopeReason = Permitted | EmptyTarget | ExcludedBy string | NoAllowRules | NotCovered

definition Permits :: "Canonical \<Rightarrow> string list \<Rightarrow> string list \<Rightarrow> bool \<times> scopeReason" where
  "Permits t allowed exclusions =
     (if cValue t = [] then (False, EmptyTarget)
      else let isAddr = (cKind t = KindAddress)
           in case find (\<lambda>e. matchesExclusion e (cValue t) (cAddr t) isAddr) exclusions of
                Some e \<Rightarrow> (False, ExcludedBy e)
              | None \<Rightarrow>
                  (case find (\<lambda>a. matches a (cValue t) (cAddr t) isAddr) allowed of
                     Some _ \<Rightarrow> (True, Permitted)
                   | None \<Rightarrow> if length allowed = 0 then (False, NoAllowRules) else (False, NotCovered)))"

section \<open>Which texts are addresses and which are prefixes\<close>

lemma v4_loop_no_slash: "v4_loop acc v dl s = Some r \<Longrightarrow> list_all (\<lambda>c. isDigit c \<or> c = CHR ''.'') s"
  by (induction acc v dl s rule: v4_loop.induct) (auto simp: Let_def split: if_splits)

lemma hexRun_slash:
  assumes "hexRun s = (off, acc, rest)" "CHR ''/'' \<in> set s"
  shows "CHR ''/'' \<in> set rest"
proof -
  have "hexVal (CHR ''/'') = None" by (simp add: hexVal_def isDigit_def less_eq_char_def)
  then have "CHR ''/'' \<notin> set (takeWhile (\<lambda>c. hexVal c \<noteq> None) s)" by (metis set_takeWhileD)
  moreover have r: "rest = dropWhile (\<lambda>c. hexVal c \<noteq> None) s" using assms(1) by (simp add: hexRun_def Let_def)
  have "set s = set (takeWhile (\<lambda>c. hexVal c \<noteq> None) s) \<union> set rest"
    unfolding r by (metis set_append takeWhile_dropWhile_id)
  ultimately show ?thesis using assms(2) by blast
qed

lemma slash_not_v4: "v4_loop acc v dl s = Some r \<Longrightarrow> CHR ''/'' \<notin> set s"
proof
  assume "v4_loop acc v dl s = Some r" "CHR ''/'' \<in> set s"
  then have "isDigit (CHR ''/'')" using v4_loop_no_slash [of acc v dl s r] by (auto simp: list_all_iff)
  then show False by (simp add: isDigit_def)
qed

lemma v6_loop_no_slash:
  "v6_loop k bs ell s = Some (bs', ell', []) \<Longrightarrow> CHR ''/'' \<notin> set s"
proof (induction k arbitrary: bs ell s)
  case (Suc k)
  obtain off acc rest where h: "hexRun s = (off, acc, rest)" by (metis prod_cases3)
  show ?case
  proof
    assume sl: "CHR ''/'' \<in> set s"
    then have "CHR ''/'' \<in> set rest" using hexRun_slash h by blast
    then obtain c r where r: "rest = c # r" by (cases rest) auto
    have off: "\<not> (off > 4 \<or> off = 0)" using Suc.prems h by (auto split: if_splits)
    show False
    proof (cases "c = CHR ''.''")
      case True
      then obtain bs0 where "v4_loop [] 0 0 s = Some bs0" using Suc.prems h r off by (auto split: if_splits)
      then show False using slash_not_v4 sl by blast
    next
      case False
      then have c: "c = CHR '':''" using Suc.prems h r off by (auto simp: Let_def split: if_splits)
      then obtain d r' where d: "r = d # r'" using Suc.prems h r off False by (auto simp: Let_def split: list.splits)
      show False
        using Suc.prems h r off False c d \<open>CHR ''/'' \<in> set rest\<close>
        by (auto simp: Let_def split: if_splits dest!: Suc.IH)
    qed
  qed
qed simp

lemma v6_finish_no_slash:
  assumes "Option.bind (v6_loop k bs ell s) v6_finish = Some r"
  shows "CHR ''/'' \<notin> set s"
proof -
  obtain bs' ell' s' where l: "v6_loop k bs ell s = Some (bs', ell', s')"
    using assms by (cases "v6_loop k bs ell s") auto
  then have "s' = []" using assms by (auto simp: v6_finish_def split: if_splits)
  then show ?thesis using v6_loop_no_slash l by blast
qed

lemma parseIPv6_zone:
  assumes "parseIPv6 s = Some a"
  shows "case cutByte (CHR ''%'') s of
      None \<Rightarrow> CHR ''/'' \<notin> set s
    | Some (l, z) \<Rightarrow> CHR ''/'' \<notin> set l \<and> z \<noteq> [] \<and> (\<exists>w. a = V6 w z)"
proof -
  have *: "CHR ''/'' \<notin> set t"
    if "HasPrefix t ''::''" "drop 2 t = [] \<or> Option.bind (v6_loop k bs ell (drop 2 t)) v6_finish = Some r"
    for t k bs ell r
    using that v6_finish_no_slash by (auto simp: prefix_def)
  show ?thesis
    using assms v6_finish_no_slash *
    by (cases "cutByte (CHR ''%'') s")
       (auto simp: parseIPv6_def Let_def split: if_splits)
qed

lemma ParseAddr_loop_cases:
  "ParseAddr_loop s r = Some a \<Longrightarrow> parseIPv4 s = Some a \<or> parseIPv6 s = Some a"
  by (induction r) (auto split: if_splits)

lemma parseIPv4_chars: "parseIPv4 s = Some a \<Longrightarrow> CHR ''%'' \<notin> set s \<and> CHR ''/'' \<notin> set s"
proof -
  assume "parseIPv4 s = Some a"
  then obtain bs where "v4_loop [] 0 0 s = Some bs" by (auto simp: parseIPv4_def)
  then have "\<forall>c \<in> set s. isDigit c \<or> c = CHR ''.''" using v4_loop_no_slash [of "[]" 0 0 s bs] by (simp add: list_all_iff)
  moreover have "\<not> isDigit (CHR ''%'')" "\<not> isDigit (CHR ''/'')" by (simp_all add: isDigit_def)
  moreover have "CHR ''%'' \<noteq> CHR ''.''" "CHR ''/'' \<noteq> CHR ''.''" by simp_all
  ultimately show ?thesis by blast
qed

lemma ParseAddr_zoned:
  assumes "ParseAddr s = Some a" "CHR ''%'' \<in> set s"
  shows "\<exists>w z. a = V6 w z \<and> z \<noteq> []"
proof -
  have "parseIPv6 s = Some a"
    using assms ParseAddr_loop_cases parseIPv4_chars unfolding ParseAddr_def by blast
  from parseIPv6_zone [OF this] show ?thesis
    using assms(2) by (cases "cutByte (CHR ''%'') s") (auto simp: cutByte_None)
qed

text \<open>A text that is an address is not a prefix, so the order in which the two are tried is immaterial.\<close>

lemma ParseAddr_not_prefix:
  assumes "ParseAddr s = Some a"
  shows "ParsePrefix s = None"
proof (cases "cutLastByte (CHR ''/'') s")
  case (Some lb)
  obtain l b where lb: "lb = (l, b)" by (cases lb)
  have s: "s = l @ CHR ''/'' # b"
    using Some lb by (auto simp: cutLastByte_def dest!: cutByte_Some) (metis append.assoc append_Cons append_Nil rev.simps(2) rev_append rev_rev_ident)
  then have "CHR ''/'' \<in> set s" by simp
  then have "parseIPv6 s = Some a"
    using assms ParseAddr_loop_cases parseIPv4_chars unfolding ParseAddr_def by blast
  then obtain l' z where z: "cutByte (CHR ''%'') s = Some (l', z)" "CHR ''/'' \<notin> set l'"
    using parseIPv6_zone [of s a] \<open>CHR ''/'' \<in> set s\<close> by (cases "cutByte (CHR ''%'') s") auto
  then have "CHR ''%'' \<in> set l"
    using s cutByte_Some [OF z(1)] by (auto simp: append_eq_append_conv2 append_eq_Cons_conv Cons_eq_append_conv)
  then have "ParseAddr l = Some ip \<Longrightarrow> \<exists>w z. ip = V6 w z \<and> z \<noteq> []" for ip using ParseAddr_zoned by blast
  then show ?thesis using Some lb by (auto simp: ParsePrefix_def split: option.splits)
qed (simp add: ParsePrefix_def)

section \<open>Names of a host\<close>

text \<open>The addresses that reach the IPv4 host \<open>v\<close>: itself and the IPv6 addresses that carry it.\<close>

definition namesHost :: "32 word \<Rightarrow> Addr \<Rightarrow> bool" where
  "namesHost v a \<longleftrightarrow> a = V4 v \<or> (\<exists>w. a = V6 w [] \<and> drop_bit 32 w \<noteq> 0xffff \<and> carries w v)"

text \<open>A rule that names the host, by any of its addresses or by a range around it.\<close>

definition ruleNames :: "string \<Rightarrow> 32 word \<Rightarrow> bool" where
  "ruleNames e v \<longleftrightarrow> (\<exists>a. parseRuleAddr e = Some a \<and> namesHost v a)
     \<or> (\<exists>p. ParsePrefix (TrimSpace e) = Some p \<and> Contains p (V4 v))"

lemma translated_names:
  assumes "namesHost v a" "a \<noteq> V4 v" "hostV4 v"
  shows "V4 v \<in> set (TranslatedV4s a)"
proof -
  obtain w where "a = V6 w []" "drop_bit 32 w \<noteq> 0xffff" "carries w v" using assms by (auto simp: namesHost_def)
  then show ?thesis using set_TranslatedV4s [of w] assms(3) by (auto simp: Is4In6_def)
qed

lemma matches_prefix:
  assumes "ParsePrefix (TrimSpace e) = Some p" "Contains p (V4 v)"
  shows "matches e val (V4 v) True"
proof -
  have "\<not> Is4In6 (pAddr p)" using assms(2) by (auto simp: Contains_def Is4In6_def split: Addr.splits)
  then show ?thesis using assms by (simp add: matches_def Let_def)
qed

lemma matches_rule_addr:
  assumes "parseRuleAddr e = Some (V4 v)"
  shows "matches e val (V4 v) True"
proof (cases "ParseAddr (TrimSpace e)")
  case (Some a)
  then show ?thesis
    using assms ParseAddr_not_prefix [OF Some] by (simp add: parseRuleAddr_def matches_def Let_def)
next
  case None
  then obtain p where p: "ParsePrefix (TrimSpace e) = Some p" "pBits p = BitLen (pAddr p)"
      "Unmap (noZone (pAddr p)) = V4 v"
    using assms by (auto simp: parseRuleAddr_def Let_def split: option.splits if_splits)
  show ?thesis
  proof (cases "pAddr p")
    case (V6 w z)
    with p(3) have m: "Is4In6 (V6 w z)" "ucast w = v"
      by (auto simp: Unmap_def noZone_def Is4In6_def split: if_splits)
    then have "Addr_Prefix (Unmap (pAddr p)) (pBits p - 96) = Some \<lparr>pAddr = V4 v, pBits = 32\<rparr>"
      using p(2) V6 by (simp add: Addr_Prefix_def Unmap_def BitLen_def maskAddr_def)
    with p(1) m V6 show ?thesis by (simp add: matches_def Let_def Contains_def)
  qed (use p matches_prefix in \<open>auto simp: BitLen_def Contains_def Unmap_def noZone_def\<close>)
qed

lemma matchesExclusion_names:
  assumes "hostV4 v" "ruleNames e v" "namesHost v b"
  shows "matchesExclusion e val b True"
proof -
  have direct: "matchesExclusion e val b True" if m: "\<And>x. matches e x (V4 v) True"
  proof (cases "b = V4 v")
    case False
    then have "list_ex (\<lambda>v4. matches e (addrString4 v4) v4 True) (TranslatedV4s b)"
      using translated_names [OF assms(3)] assms(1) m by (auto simp: list_ex_iff)
    then show ?thesis by (simp add: matchesExclusion_def Let_def)
  qed (simp add: matchesExclusion_def m)
  from assms(2) consider p where "ParsePrefix (TrimSpace e) = Some p" "Contains p (V4 v)"
    | "parseRuleAddr e = Some (V4 v)" | a where "parseRuleAddr e = Some a" "a \<noteq> V4 v" "namesHost v a"
    unfolding ruleNames_def by blast
  then show ?thesis
  proof cases
    case 1
    then show ?thesis using direct matches_prefix by blast
  next
    case 2
    then show ?thesis using direct matches_rule_addr by blast
  next
    case 3
    then have r: "V4 v \<in> set (TranslatedV4s a)" using translated_names assms(1) by blast
    have "b = V4 v \<or> V4 v \<in> set (TranslatedV4s b)" using translated_names assms(1,3) by blast
    then have "list_ex (\<lambda>ruleV4. (True \<and> ruleV4 = b) \<or> list_ex (\<lambda>tv4. ruleV4 = tv4) (TranslatedV4s b)) (TranslatedV4s a)"
      using r by (auto simp: list_ex_iff)
    then show ?thesis using 3(1) by (simp add: matchesExclusion_def Let_def)
  qed
qed

lemma Permits_iff:
  "fst (Permits t allowed exclusions) \<longleftrightarrow> cValue t \<noteq> []
     \<and> (\<forall>e \<in> set exclusions. \<not> matchesExclusion e (cValue t) (cAddr t) (cKind t = KindAddress))
     \<and> (\<exists>a \<in> set allowed. matches a (cValue t) (cAddr t) (cKind t = KindAddress))"
  by (auto simp: Permits_def Let_def find_None_iff find_Some_iff split: option.splits)

section \<open>Properties\<close>

text \<open>
  C32. Excluding a host excludes every name it has. If an exclusion rule names an IPv4 host (by its
  address, by a range around it, or by any IPv6 address that carries it through NAT64, 6to4,
  Teredo, ISATAP or as IPv4-compatible), then no target that is that host, by its IPv4 address or
  by any such IPv6 address, is permitted, whatever the allow rules are.
\<close>

theorem Permits_exclusion_covers_names:
  assumes "hostV4 v" "e \<in> set exclusions" "ruleNames e v"
    and "cKind t = KindAddress" "namesHost v (cAddr t)"
  shows "\<not> fst (Permits t allowed exclusions)"
  using matchesExclusion_names [OF assms(1,3,5)] assms(2,4) by (auto simp: Permits_iff)

text \<open>
  An allow rule is not widened through translation: when every allow rule is an IPv4 address or
  an IPv4 range, no IPv6 target is permitted, not even one that carries an allowed IPv4 host.
\<close>

theorem Permits_allow_not_widened:
  assumes "\<forall>r \<in> set allowed. (\<exists>p. ParsePrefix (TrimSpace r) = Some p \<and> Is4 (pAddr p))
             \<or> (\<exists>w. ParseAddr (TrimSpace r) = Some (V4 w))"
    and "cKind t = KindAddress" "cAddr t = V6 w z"
  shows "\<not> fst (Permits t allowed exclusions)"
proof -
  have "\<not> matches r (cValue t) (V6 w z) True" if "r \<in> set allowed" for r
  proof -
    consider p where "ParsePrefix (TrimSpace r) = Some p" "Is4 (pAddr p)"
      | x where "ParseAddr (TrimSpace r) = Some (V4 x)" using assms(1) \<open>r \<in> set allowed\<close> by blast
    then show ?thesis
    proof cases
      case 1
      then show ?thesis by (auto simp: matches_def Let_def Is4_def Is4In6_def Contains_def split: Addr.splits)
    next
      case 2
      then show ?thesis using ParseAddr_not_prefix [OF 2] by (simp add: matches_def Let_def)
    qed
  qed
  then show ?thesis using assms(2,3) by (auto simp: Permits_iff)
qed

text \<open>
  Rules act in one direction each: with more allow rules and fewer exclusions everything that
  was permitted still is, in particular the order and repetition of rules do not matter; and with
  no allow rule nothing is permitted.
\<close>

theorem Permits_monotone:
  assumes "set allowed \<subseteq> set allowed'" "set exclusions' \<subseteq> set exclusions"
  shows "(fst (Permits t allowed exclusions) \<longrightarrow> fst (Permits t allowed' exclusions')) \<and> \<not> fst (Permits t [] exclusions)"
  using assms by (auto simp: Permits_iff)

section \<open>Concrete rules\<close>

definition ex_nat64 :: Canonical where
  "ex_nat64 = \<lparr>cValue = ''64:ff9b::a00:5'', cKind = KindAddress, cAddr = V6 0x0064ff9b00000000000000000a000005 [],
     cPrefix = \<lparr>pAddr = NoAddr, pBits = 0\<rparr>\<rparr>"

lemma ex_rule: "ParseAddr (TrimSpace ''10.0.0.5'') = Some (V4 0x0a000005)"
proof -
  have "TrimSpace ''10.0.0.5'' = ''10.0.0.5''" by (rule TrimSpace_id) (simp_all add: graphic_def)
  then show ?thesis
    by (simp add: ParseAddr_def parseIPv4_def isDigit_def digitVal_def ofBytes_def)
qed

theorem Permits_exclusion_covers_names_witness:
  "\<not> fst (Permits ex_nat64 [''64:ff9b::/96''] [''10.0.0.5''])"
proof (rule Permits_exclusion_covers_names [where v = "0x0a000005" and e = "''10.0.0.5''"])
  show "ruleNames ''10.0.0.5'' 0x0a000005"
    using ex_rule by (simp add: ruleNames_def parseRuleAddr_def namesHost_def)
  show "namesHost 0x0a000005 (cAddr ex_nat64)"
    by (simp add: namesHost_def ex_nat64_def carries_def)
qed (simp_all add: ex_nat64_def hostV4_def)

theorem Permits_allow_not_widened_witness:
  "\<not> fst (Permits ex_nat64 [''10.0.0.5''] [])"
  by (rule Permits_allow_not_widened [where w = "0x0064ff9b00000000000000000a000005" and z = "[]"])
     (simp_all add: ex_rule ex_nat64_def)

definition ex_name :: Canonical where
  "ex_name = \<lparr>cValue = ''printer'', cKind = KindHostname, cAddr = NoAddr, cPrefix = \<lparr>pAddr = NoAddr, pBits = 0\<rparr>\<rparr>"

theorem Permits_monotone_witness:
  "fst (Permits ex_name [''printer''] [''10.0.0.5'']) \<and> fst (Permits ex_name [''printer'', ''db''] [])"
proof -
  have t: "TrimSpace ''printer'' = ''printer''" by (rule TrimSpace_id) (simp_all add: graphic_def)
  have m: "matches ''printer'' ''printer'' NoAddr False"
    by (simp add: matches_def t ParsePrefix_def cutLastByte_def ParseAddr_def)
  have "\<not> matchesExclusion ''10.0.0.5'' ''printer'' NoAddr False"
    using ex_rule ParseAddr_not_prefix [OF ex_rule]
    by (simp add: matchesExclusion_def matches_def parseRuleAddr_def TranslatedV4s_def Is6_def)
  with m have p: "fst (Permits ex_name [''printer''] [''10.0.0.5''])"
    by (simp add: Permits_iff ex_name_def)
  with Permits_monotone [of "[''printer'']" "[''printer'', ''db'']" "[]" "[''10.0.0.5'']" ex_name]
  show ?thesis by simp
qed

end
