(* ===== verification/Scan_Job.thy ===== *)
theory Scan_Job
  imports Scanpoint_Budget Scope
begin

text \<open>
  The life of one assignment at the scan point: the credential holder (\<open>internal/scanpoint/creds.go\<close>),
  the signing agent (\<open>credagent.go\<close>), the job record (\<open>job.go\<close>), and how \<open>runJob\<close>,
  \<open>awaitCredential\<close>, \<open>abort\<close>, \<open>finish\<close>, \<open>terminate\<close> (\<open>runtime.go\<close>) and
  \<open>engineHost.authorise\<close>, \<open>start\<close>, \<open>stop\<close>, \<open>wait\<close> (\<open>enginehost.go\<close>) interleave.

  The goroutines of a job run concurrently, so their code is a step relation: one step is a
  stretch of code between two points where another goroutine can act on the job (a mutex, a
  channel, the engine process). The goroutine of \<open>runJob\<close> and the one that owns the terminal path
  have a program counter each, and every function has its own relation. The canonicalisation of a
  target (\<open>target.Matches\<close>) and the parser of private keys (\<open>golang.org/x/crypto/ssh\<close>) are
  arguments. The step relations are nondeterministic where the code depends on the clock, the
  operating system or the engine process.
\<close>

section \<open>Credentials\<close>

text \<open>The bytes a credential's closures share; \<open>None\<close> once they are erased.\<close>

record Credential =
  material :: "string option"
  GrantID :: string
  credScope :: "string list"
  credExpires :: time

definition NewCredential :: "string \<Rightarrow> string list \<Rightarrow> time \<Rightarrow> string \<Rightarrow> Credential" where
  "NewCredential grantID scp expires m =
     \<lparr>material = Some m, GrantID = grantID, credScope = scp, credExpires = expires\<rparr>"

definition Reveal :: "Credential \<Rightarrow> string" where
  "Reveal c = (case material c of Some m \<Rightarrow> m | None \<Rightarrow> [])"

definition Zeroise :: "Credential \<Rightarrow> Credential" where
  "Zeroise c = c\<lparr>material := None\<rparr>"

definition Zeroised :: "Credential \<Rightarrow> bool" where
  "Zeroised c \<longleftrightarrow> material c = None"

record CredAgent =
  keyBytes :: "string option"
  azeroised :: bool

definition NewCredAgent :: "(string \<Rightarrow> string option) \<Rightarrow> Credential \<Rightarrow> CredAgent option" where
  "NewCredAgent parseKey cred =
     (if length (Reveal cred) = 0 then None
      else map_option (\<lambda>k. \<lparr>keyBytes = Some k, azeroised = False\<rparr>) (parseKey (Reveal cred)))"

definition agentZeroise :: "CredAgent \<Rightarrow> CredAgent" where
  "agentZeroise a = a\<lparr>keyBytes := None, azeroised := True\<rparr>"

section \<open>The job record\<close>

datatype TerminationReason = COMPLETED | LEASE_LOST | CANCELLED | KILLED | ENGINE_FAILURE | SCOPE_VIOLATION_HALT

text \<open>
  \<open>reason\<close> is \<open>None\<close> until it is set. \<open>credReady\<close> is whether the channel is closed. \<open>once\<close> is done
  exactly when \<open>aborting\<close> is set, in the same call.
\<close>

record job =
  epoch :: int
  creds :: "Credential list"
  agents :: "CredAgent list"
  credReady :: bool
  expires :: time
  aborting :: bool
  reason :: "TerminationReason option"

definition LeaseSafetyMargin :: duration where "LeaseSafetyMargin = 5 * Second"

text \<open>The grant is either kept or erased on the spot; the second component is what became of it.\<close>

definition addCredential :: "Credential \<Rightarrow> job \<Rightarrow> job \<times> Credential" where
  "addCredential c j =
     (if aborting j then (j, Zeroise c)
      else (j\<lparr>creds := creds j @ [c], credReady := True\<rparr>, c))"

definition addAgent :: "CredAgent \<Rightarrow> job \<Rightarrow> job" where
  "addAgent a j = j\<lparr>agents := agents j @ [a]\<rparr>"

definition firstCredential :: "job \<Rightarrow> Credential option" where
  "firstCredential j = (if length (creds j) = 0 then None else Some (hd (creds j)))"

definition zeroiseCredentials :: "job \<Rightarrow> job" where
  "zeroiseCredentials j = j\<lparr>agents := map agentZeroise (agents j), creds := map Zeroise (creds j)\<rparr>"

definition credentialsZeroised :: "job \<Rightarrow> bool" where
  "credentialsZeroised j \<longleftrightarrow> list_all azeroised (agents j) \<and> list_all Zeroised (creds j)"

definition setEpoch :: "int \<Rightarrow> job \<Rightarrow> job" where "setEpoch e j = j\<lparr>epoch := e\<rparr>"
definition setExpiry :: "time \<Rightarrow> job \<Rightarrow> job" where "setExpiry t j = j\<lparr>expires := t\<rparr>"

definition leaseLapsed :: "job \<Rightarrow> time \<Rightarrow> bool" where
  "leaseLapsed j now =
     (let e = expires j in if IsZero e then False else now > e - LeaseSafetyMargin)"

definition beginAbort :: "TerminationReason \<Rightarrow> job \<Rightarrow> job \<times> bool" where
  "beginAbort r j = (if aborting j then (j, False) else (j\<lparr>aborting := True, reason := Some r\<rparr>, True))"

text \<open>Whether \<open>awaitCredential\<close> accepts the grant at the time \<open>now\<close> for the job's tasks.\<close>

definition grantUsable :: "time \<Rightarrow> Task list \<Rightarrow> Credential \<Rightarrow> bool" where
  "grantUsable now tasks c \<longleftrightarrow>
     \<not> (\<not> IsZero (credExpires c) \<and> now > credExpires c)
     \<and> list_all (\<lambda>t. tTarget t \<in> set (credScope c)) tasks"

section \<open>The scope check of the scan point\<close>

record engineHost =
  allowed :: "string list"
  exclusions :: "string list"
  core :: CoreEndpoints

definition authorise :: "(string \<Rightarrow> Canonical option) \<Rightarrow> engineHost \<Rightarrow> string \<Rightarrow> bool" where
  "authorise Matches h raw =
     (case Matches raw of
        None \<Rightarrow> False
      | Some c \<Rightarrow> if coreContains (core h) c then False else fst (Permits c (allowed h) (exclusions h)))"

text \<open>The first target refused, or \<open>None\<close> when there is none.\<close>

fun authoriseAll :: "(string \<Rightarrow> Canonical option) \<Rightarrow> engineHost \<Rightarrow> wireTarget list \<Rightarrow> wireTarget option" where
  "authoriseAll Matches h [] = None"
| "authoriseAll Matches h (t # ts) =
     (if \<not> authorise Matches h (wValue t) then Some t else authoriseAll Matches h ts)"

lemma authoriseAll_None: "authoriseAll M h ts = None \<longleftrightarrow> (\<forall>t \<in> set ts. authorise M h (wValue t))"
  by (induction ts) auto

section \<open>The step relations\<close>

text \<open>
  Where \<open>runJob\<close> is: before anything; waiting for the grant; with an agent built and not yet
  registered; with it registered; about to call \<open>start\<close>; inside \<open>start\<close> past its checks; with the
  process created and \<open>h.cmd\<close> not yet set; waiting for the process; about to call \<open>finish\<close>; inside
  the \<open>terminate\<close> it owns; about to run its deferred calls; returned.
\<close>

datatype runPC =
    RInit
  | RAwait
  | RAgent CredAgent
  | RAdded
  | RStart
  | RChecked
  | RSpawned
  | RWait
  | RFinish TerminationReason
  | ROwner
  | RDefer
  | RReturned

text \<open>Where the goroutine that owns the terminal path is.\<close>

datatype ownerPC =
    NoOwner
  | ACancel TerminationReason
  | AStop TerminationReason
  | AKill TerminationReason
  | AZeroise TerminationReason
  | ATerminate TerminationReason
  | AReport TerminationReason
  | ADone

text \<open>
  \<open>cmd\<close> is whether \<open>h.cmd\<close> is set, \<open>running\<close> whether the engine process exists, \<open>signalled\<close>
  whether \<open>stop\<close> sent it a signal. \<open>sent\<close> lists the \<open>JobTerminal\<close> messages handed to \<open>send\<close>:
  the reason and the attestation that the credentials are erased.
\<close>

record life =
  lj :: job
  run :: runPC
  owner :: ownerPC
  ctxDone :: bool
  stopRequested :: bool
  cmd :: bool
  running :: bool
  signalled :: bool
  sawDone :: bool
  inTable :: bool
  spawns :: nat
  sent :: "(TerminationReason \<times> bool) list"

definition newLife :: "int \<Rightarrow> time \<Rightarrow> life" where
  "newLife e t =
     \<lparr>lj = \<lparr>epoch = e, creds = [], agents = [], credReady = False, expires = t, aborting = False, reason = None\<rparr>,
      run = RInit, owner = NoOwner, ctxDone = False, stopRequested = False, cmd = False, running = False,
      signalled = False, sawDone = False, inTable = True, spawns = 0, sent = []\<rparr>"

text \<open>What does not change during the job.\<close>

record ('p, 'm) jobEnv =
  Matches :: "string \<Rightarrow> Canonical option"
  parseKey :: "string \<Rightarrow> string option"
  host :: engineHost
  tasks :: "Task list"
  needsCred :: bool
  jobBudget :: "('p, 'm) engineBudget"

definition scopeOK :: "('p, 'm) jobEnv \<Rightarrow> bool" where
  "scopeOK E \<longleftrightarrow> authoriseAll (Matches E) (host E) (wireTargets (tasks E)) = None"

inductive message_step :: "life \<Rightarrow> life \<Rightarrow> bool" where
  onCredential: "inTable l \<Longrightarrow> message_step l (l\<lparr>lj := fst (addCredential c (lj l))\<rparr>)"
| onLeaseGrant: "inTable l \<Longrightarrow> message_step l (l\<lparr>lj := setExpiry t (setEpoch e (lj l))\<rparr>)"
| parentCancelled: "message_step l (l\<lparr>ctxDone := True\<rparr>)"

inductive awaitCredential :: "('p, 'm) jobEnv \<Rightarrow> life \<Rightarrow> life \<Rightarrow> bool" for E where
  cancelled: "run l = RAwait \<Longrightarrow> ctxDone l \<Longrightarrow> awaitCredential E l (l\<lparr>run := RDefer\<rparr>)"
| timed_out: "run l = RAwait \<Longrightarrow> awaitCredential E l (l\<lparr>run := RFinish ENGINE_FAILURE\<rparr>)"
| none: "run l = RAwait \<Longrightarrow> credReady (lj l) \<Longrightarrow> firstCredential (lj l) = None \<Longrightarrow>
    awaitCredential E l (l\<lparr>run := RDefer\<rparr>)"
| unusable: "run l = RAwait \<Longrightarrow> credReady (lj l) \<Longrightarrow> firstCredential (lj l) = Some c \<Longrightarrow>
    \<not> grantUsable now (tasks E) c \<Longrightarrow> awaitCredential E l (l\<lparr>run := RFinish ENGINE_FAILURE\<rparr>)"
| no_agent: "run l = RAwait \<Longrightarrow> credReady (lj l) \<Longrightarrow> firstCredential (lj l) = Some c \<Longrightarrow>
    grantUsable now (tasks E) c \<Longrightarrow> NewCredAgent (parseKey E) c = None \<Longrightarrow>
    awaitCredential E l (l\<lparr>run := RFinish ENGINE_FAILURE\<rparr>)"
| agent: "run l = RAwait \<Longrightarrow> credReady (lj l) \<Longrightarrow> firstCredential (lj l) = Some c \<Longrightarrow>
    grantUsable now (tasks E) c \<Longrightarrow> NewCredAgent (parseKey E) c = Some a \<Longrightarrow>
    awaitCredential E l (l\<lparr>run := RAgent a\<rparr>)"
| agent_added: "run l = RAgent a \<Longrightarrow> awaitCredential E l (l\<lparr>lj := addAgent a (lj l), run := RAdded\<rparr>)"
| file_failed: "run l = RAdded \<Longrightarrow> awaitCredential E l (l\<lparr>run := RFinish ENGINE_FAILURE\<rparr>)"
| file_made: "run l = RAdded \<Longrightarrow> \<not> azeroised (last (agents (lj l))) \<Longrightarrow> awaitCredential E l (l\<lparr>run := RStart\<rparr>)"

inductive start :: "('p, 'm) jobEnv \<Rightarrow> life \<Rightarrow> life \<Rightarrow> bool" for E where
  stopped: "run l = RStart \<Longrightarrow> stopRequested l \<or> ctxDone l \<Longrightarrow> start E l (l\<lparr>run := RDefer\<rparr>)"
| out_of_scope: "run l = RStart \<Longrightarrow> \<not> stopRequested l \<Longrightarrow> \<not> ctxDone l \<Longrightarrow> \<not> scopeOK E \<Longrightarrow>
    start E l (l\<lparr>run := RFinish SCOPE_VIOLATION_HALT\<rparr>)"
| probes: "run l = RStart \<Longrightarrow> \<not> stopRequested l \<Longrightarrow> \<not> ctxDone l \<Longrightarrow> scopeOK E \<Longrightarrow>
    \<not> probesAllowed (jobBudget E) \<Longrightarrow> start E l (l\<lparr>run := RFinish ENGINE_FAILURE\<rparr>)"
| checked: "run l = RStart \<Longrightarrow> \<not> stopRequested l \<Longrightarrow> \<not> ctxDone l \<Longrightarrow> scopeOK E \<Longrightarrow>
    probesAllowed (jobBudget E) \<Longrightarrow> start E l (l\<lparr>run := RChecked\<rparr>)"
| failed: "run l = RChecked \<Longrightarrow> start E l (l\<lparr>run := RFinish ENGINE_FAILURE\<rparr>)"
| spawned: "run l = RChecked \<Longrightarrow>
    start E l (l\<lparr>running := True, spawns := Suc (spawns l), run := RSpawned\<rparr>)"
| handed: "run l = RSpawned \<Longrightarrow> start E l (l\<lparr>cmd := True, run := RWait\<rparr>)"
| not_handed: "run l = RSpawned \<Longrightarrow> start E l (l\<lparr>cmd := True, run := RFinish ENGINE_FAILURE\<rparr>)"

inductive engine_step :: "life \<Rightarrow> life \<Rightarrow> bool" where
  says_done: "running l \<Longrightarrow> engine_step l (l\<lparr>sawDone := True\<rparr>)"
| exits: "running l \<Longrightarrow> engine_step l (l\<lparr>running := False\<rparr>)"

inductive wait_step :: "life \<Rightarrow> life \<Rightarrow> bool" where
  wait_stopped: "run l = RWait \<Longrightarrow> \<not> running l \<Longrightarrow> stopRequested l \<Longrightarrow> wait_step l (l\<lparr>run := RDefer\<rparr>)"
| wait_completed: "run l = RWait \<Longrightarrow> \<not> running l \<Longrightarrow> \<not> stopRequested l \<Longrightarrow> sawDone l \<Longrightarrow>
    wait_step l (l\<lparr>run := RFinish COMPLETED\<rparr>)"
| wait_failed: "run l = RWait \<Longrightarrow> \<not> running l \<Longrightarrow> \<not> stopRequested l \<Longrightarrow>
    wait_step l (l\<lparr>run := RFinish ENGINE_FAILURE\<rparr>)"

inductive finish :: "life \<Rightarrow> life \<Rightarrow> bool" where
  owns: "run l = RFinish r \<Longrightarrow> beginAbort r (lj l) = (j, True) \<Longrightarrow>
    finish l (l\<lparr>lj := j, owner := ATerminate r, run := ROwner\<rparr>)"
| late: "run l = RFinish r \<Longrightarrow> beginAbort r (lj l) = (j, False) \<Longrightarrow> finish l (l\<lparr>run := RDefer\<rparr>)"
| returns: "run l = ROwner \<Longrightarrow> owner l = ADone \<Longrightarrow> finish l (l\<lparr>run := RDefer\<rparr>)"

inductive abort :: "life \<Rightarrow> life \<Rightarrow> bool" where
  begins: "inTable l \<Longrightarrow> beginAbort r (lj l) = (j, True) \<Longrightarrow> abort l (l\<lparr>lj := j, owner := ACancel r\<rparr>)"
| cancels: "owner l = ACancel r \<Longrightarrow> abort l (l\<lparr>ctxDone := True, owner := AStop r\<rparr>)"
| zeroises: "owner l = AZeroise r \<Longrightarrow>
    abort l (l\<lparr>lj := zeroiseCredentials (lj l), owner := ATerminate r\<rparr>)"

inductive stop :: "life \<Rightarrow> life \<Rightarrow> bool" where
  records: "owner l = AStop r \<Longrightarrow> stop l (l\<lparr>stopRequested := True, owner := AKill r\<rparr>)"
| no_process: "owner l = AKill r \<Longrightarrow> \<not> cmd l \<Longrightarrow> stop l (l\<lparr>owner := AZeroise r\<rparr>)"
| signals: "owner l = AKill r \<Longrightarrow> cmd l \<Longrightarrow> stop l (l\<lparr>signalled := True, owner := AZeroise r\<rparr>)"

inductive terminate :: "life \<Rightarrow> life \<Rightarrow> bool" where
  erases: "owner l = ATerminate r \<Longrightarrow>
    terminate l (l\<lparr>lj := zeroiseCredentials (lj l), owner := AReport r\<rparr>)"
| reports: "owner l = AReport r \<Longrightarrow>
    terminate l (l\<lparr>sent := sent l @ [(r, credentialsZeroised (lj l))], inTable := False, owner := ADone\<rparr>)"

inductive runJob :: "('p, 'm) jobEnv \<Rightarrow> life \<Rightarrow> life \<Rightarrow> bool" for E where
  plain: "run l = RInit \<Longrightarrow> \<not> needsCred E \<Longrightarrow> runJob E l (l\<lparr>run := RStart\<rparr>)"
| scope: "run l = RInit \<Longrightarrow> needsCred E \<Longrightarrow> \<not> scopeOK E \<Longrightarrow>
    runJob E l (l\<lparr>run := RFinish SCOPE_VIOLATION_HALT\<rparr>)"
| cred: "run l = RInit \<Longrightarrow> needsCred E \<Longrightarrow> scopeOK E \<Longrightarrow> runJob E l (l\<lparr>run := RAwait\<rparr>)"
| awaiting: "awaitCredential E l l' \<Longrightarrow> runJob E l l'"
| starting: "start E l l' \<Longrightarrow> runJob E l l'"
| waiting: "wait_step l l' \<Longrightarrow> runJob E l l'"
| finishing: "finish l l' \<Longrightarrow> runJob E l l'"
| deferred: "run l = RDefer \<Longrightarrow>
    runJob E l (l\<lparr>lj := zeroiseCredentials (lj l), ctxDone := True, run := RReturned\<rparr>)"

text \<open>One step of any goroutine or of the engine process.\<close>

inductive step :: "('p, 'm) jobEnv \<Rightarrow> life \<Rightarrow> life \<Rightarrow> bool" for E where
  message: "message_step l l' \<Longrightarrow> step E l l'"
| job: "runJob E l l' \<Longrightarrow> step E l l'"
| engine: "engine_step l l' \<Longrightarrow> step E l l'"
| aborting: "abort l l' \<Longrightarrow> step E l l'"
| stopping: "stop l l' \<Longrightarrow> step E l l'"
| terminating: "terminate l l' \<Longrightarrow> step E l l'"

inductive reach :: "('p, 'm) jobEnv \<Rightarrow> life \<Rightarrow> bool" for E where
  initial: "reach E (newLife e t)"
| later: "reach E l \<Longrightarrow> step E l l' \<Longrightarrow> reach E l'"

lemmas step_elims = message_step.cases runJob.cases awaitCredential.cases start.cases engine_step.cases
  wait_step.cases finish.cases abort.cases stop.cases terminate.cases

section \<open>Invariants\<close>

lemmas job_ops = addCredential_def addAgent_def zeroiseCredentials_def setEpoch_def setExpiry_def beginAbort_def

text \<open>An invariant holds throughout a life when it holds at first and every step keeps it.\<close>

lemma reach_invariant:
  assumes "reach E l" "\<And>e t. I (newLife e t)" "\<And>l l'. step E l l' \<Longrightarrow> I l \<Longrightarrow> I l'"
  shows "I l"
  using assms by (induction rule: reach.induct) auto

text \<open>The terminal path: who owns it, under which reason, and what has been sent.\<close>

fun ownerReason :: "ownerPC \<Rightarrow> TerminationReason option" where
  "ownerReason (ACancel r) = Some r"
| "ownerReason (AStop r) = Some r"
| "ownerReason (AKill r) = Some r"
| "ownerReason (AZeroise r) = Some r"
| "ownerReason (ATerminate r) = Some r"
| "ownerReason (AReport r) = Some r"
| "ownerReason NoOwner = None"
| "ownerReason ADone = None"

definition terminal_inv :: "life \<Rightarrow> bool" where
  "terminal_inv l \<longleftrightarrow> (aborting (lj l) \<longleftrightarrow> owner l \<noteq> NoOwner)
     \<and> (owner l = ADone \<longrightarrow> (\<exists>r z. sent l = [(r, z)] \<and> reason (lj l) = Some r))
     \<and> (owner l \<noteq> ADone \<longrightarrow> sent l = [])
     \<and> (\<forall>r. ownerReason (owner l) = Some r \<longrightarrow> reason (lj l) = Some r)"

lemma terminal_inv_step: "step E l l' \<Longrightarrow> terminal_inv l \<Longrightarrow> terminal_inv l'"
  by (induction rule: step.induct; (elim step_elims; auto simp: terminal_inv_def job_ops split: if_splits))

text \<open>The secrets: nothing is kept once the terminal path has erased, nor once \<open>runJob\<close> returned.\<close>

definition secret_inv :: "life \<Rightarrow> bool" where
  "secret_inv l \<longleftrightarrow> (aborting (lj l) \<longleftrightarrow> owner l \<noteq> NoOwner)
     \<and> (owner l = ADone \<or> (\<exists>r. owner l = AReport r) \<longrightarrow> list_all Zeroised (creds (lj l)))
     \<and> (run l = RReturned \<longrightarrow> list_all azeroised (agents (lj l)))
     \<and> list_all (\<lambda>x. azeroised x \<longrightarrow> keyBytes x = None) (agents (lj l))
     \<and> (\<forall>x. run l = RAgent x \<longrightarrow> \<not> azeroised x)"

lemma list_all_map_zeroise [simp]:
  "list_all Zeroised (map Zeroise cs)" "list_all azeroised (map agentZeroise as)"
  "list_all (\<lambda>x. azeroised x \<longrightarrow> keyBytes x = None) (map agentZeroise as)"
  by (simp_all add: list_all_iff Zeroised_def Zeroise_def agentZeroise_def)

lemma secret_inv_step: "step E l l' \<Longrightarrow> secret_inv l \<Longrightarrow> secret_inv l'"
  by (induction rule: step.induct;
      (elim step_elims; auto simp: secret_inv_def job_ops NewCredAgent_def split: if_splits))

text \<open>The engine: created at most once, and only past the checks of \<open>start\<close>.\<close>

definition unspawned :: "runPC \<Rightarrow> bool" where
  "unspawned pc = (case pc of RInit \<Rightarrow> True | RAwait \<Rightarrow> True | RAgent _ \<Rightarrow> True | RAdded \<Rightarrow> True
     | RStart \<Rightarrow> True | RChecked \<Rightarrow> True | _ \<Rightarrow> False)"

lemma unspawned_simps [simp]:
  "unspawned RInit" "unspawned RAwait" "unspawned (RAgent a)" "unspawned RAdded" "unspawned RStart"
  "unspawned RChecked" "\<not> unspawned RSpawned" "\<not> unspawned RWait" "\<not> unspawned (RFinish r)"
  "\<not> unspawned ROwner" "\<not> unspawned RDefer" "\<not> unspawned RReturned"
  by (simp_all add: unspawned_def)

definition engine_inv :: "('p, 'm) jobEnv \<Rightarrow> life \<Rightarrow> bool" where
  "engine_inv E l \<longleftrightarrow>
     spawns l \<le> 1 \<and> (spawns l = 0 \<longrightarrow> \<not> running l)
     \<and> (unspawned (run l) \<longrightarrow> spawns l = 0)
     \<and> (run l = RChecked \<or> 0 < spawns l \<longrightarrow> scopeOK E \<and> probesAllowed (jobBudget E))"

lemma engine_inv_step: "step E l l' \<Longrightarrow> engine_inv E l \<Longrightarrow> engine_inv E l'"
  by (induction rule: step.induct; (elim step_elims; simp add: engine_inv_def))

text \<open>The grant of a credentialed job: an engine is created only for a grant scoped to every task.\<close>

definition grantCovers :: "('p, 'm) jobEnv \<Rightarrow> job \<Rightarrow> bool" where
  "grantCovers E j \<longleftrightarrow> creds j \<noteq> [] \<and> list_all (\<lambda>t. tTarget t \<in> set (credScope (hd (creds j)))) (tasks E)"

definition grant_inv :: "('p, 'm) jobEnv \<Rightarrow> life \<Rightarrow> bool" where
  "grant_inv E l \<longleftrightarrow> (needsCred E \<longrightarrow>
     (unspawned (run l) \<and> run l \<noteq> RInit \<and> run l \<noteq> RAwait \<longrightarrow> grantCovers E (lj l))
     \<and> (0 < spawns l \<longrightarrow> grantCovers E (lj l)))"

lemma grantCovers_ops [simp]:
  "grantCovers E j \<Longrightarrow> grantCovers E (fst (addCredential c j))"
  "grantCovers E (setExpiry t j) = grantCovers E j" "grantCovers E (setEpoch e j) = grantCovers E j"
  "grantCovers E (addAgent a j) = grantCovers E j"
  "grantCovers E (zeroiseCredentials j) = grantCovers E j"
  "beginAbort r j = (j', b) \<Longrightarrow> grantCovers E j' = grantCovers E j"
  by (auto simp: grantCovers_def job_ops Zeroise_def hd_map split: if_splits)

lemma firstCredential_covers:
  "firstCredential j = Some c \<Longrightarrow> grantUsable now (tasks E) c \<Longrightarrow> grantCovers E j"
  by (auto simp: firstCredential_def grantUsable_def grantCovers_def split: if_splits)

lemma grant_inv_step: "step E l l' \<Longrightarrow> grant_inv E l \<Longrightarrow> grant_inv E l'"
  by (induction rule: step.induct;
      (elim step_elims; auto simp: grant_inv_def firstCredential_covers))

end
