(* ===== verification/Scan_Lifecycle.thy ===== *)
theory Scan_Lifecycle
  imports Scan_Job
begin

text \<open>
  What the invariants of \<open>Scan_Job\<close> say about a job over its whole life, and two runs of the code
  that end badly.
\<close>

section \<open>Every life\<close>

lemma reach_terminal: "reach E l \<Longrightarrow> terminal_inv l"
  by (erule reach_invariant) (simp add: newLife_def terminal_inv_def, rule terminal_inv_step)

lemma reach_secret: "reach E l \<Longrightarrow> secret_inv l"
  by (erule reach_invariant) (simp add: newLife_def secret_inv_def, rule secret_inv_step)

lemma reach_engine: "reach E l \<Longrightarrow> engine_inv E l"
  by (erule reach_invariant) (simp add: newLife_def engine_inv_def, rule engine_inv_step)

lemma reach_grant: "reach E l \<Longrightarrow> grant_inv E l"
  by (erule reach_invariant) (simp add: newLife_def grant_inv_def, rule grant_inv_step)

text \<open>Once the context is cancelled before the checks of \<open>start\<close>, no engine is created any more.\<close>

definition halted :: "life \<Rightarrow> bool" where
  "halted l \<longleftrightarrow> ctxDone l \<and> spawns l = 0 \<and> \<not> running l \<and> run l \<noteq> RChecked \<and> run l \<noteq> RSpawned"

lemma halted_step: "step E l l' \<Longrightarrow> halted l \<Longrightarrow> halted l'"
  by (induction rule: step.induct; (elim step_elims; simp add: halted_def))

lemma halted_steps: "(step E)\<^sup>*\<^sup>* l l' \<Longrightarrow> halted l \<Longrightarrow> halted l'"
  by (induction rule: rtranclp_induct) (auto intro: halted_step)

section \<open>Properties\<close>

text \<open>
  C3. However lease loss, cancellation, the kill switch and the end of the engine race, a job hands
  at most one JobTerminal to Core, under the reason of the first caller that began to abort, and
  its engine is created at most once.
\<close>

theorem job_reports_once:
  assumes "reach E l"
  shows "length (sent l) \<le> 1 \<and> (\<forall>m \<in> set (sent l). reason (lj l) = Some (fst m)) \<and> spawns l \<le> 1"
  using reach_terminal [OF assms] reach_engine [OF assms]
  by (auto simp: terminal_inv_def engine_inv_def)

text \<open>
  C16. An engine process is created only when every task's target has a canonical form that reaches
  no Core endpoint and is permitted by the allow and exclusion rules of the assignment, when the
  budget holds no probes outside the intrusive mode, and, for a credentialed job, when the first
  grant is scoped to every task.
\<close>

theorem engine_only_authorised:
  assumes "reach E l" "0 < spawns l"
  shows "(\<forall>t \<in> set (tasks E). \<exists>c. Matches E (tTarget t) = Some c \<and> \<not> coreContains (core (host E)) c
            \<and> fst (Permits c (allowed (host E)) (exclusions (host E))))
       \<and> probesAllowed (jobBudget E) \<and> (needsCred E \<longrightarrow> grantCovers E (lj l))"
proof -
  have "scopeOK E" and p: "probesAllowed (jobBudget E)"
    using reach_engine [OF assms(1)] assms(2) by (auto simp: engine_inv_def)
  then have "\<forall>t \<in> set (tasks E). authorise (Matches E) (host E) (tTarget t)"
    by (simp add: scopeOK_def authoriseAll_None wireTargets_def)
  then show ?thesis
    using p reach_grant [OF assms(1)] assms(2)
    by (fastforce simp: authorise_def grant_inv_def split: option.splits if_splits)
qed

text \<open>
  A stop that cancels the job's context before \<open>start\<close> has made its checks prevents the
  engine for good: from then on no process is ever created, whatever the goroutines do next.
\<close>

theorem stop_before_start:
  assumes "reach E l" "ctxDone l" "unspawned (run l)" "run l \<noteq> RChecked" "(step E)\<^sup>*\<^sup>* l l'"
  shows "spawns l' = 0 \<and> \<not> running l'"
proof -
  have "halted l"
    using reach_engine [OF assms(1)] assms(2-4) by (auto simp: halted_def engine_inv_def)
  then show ?thesis using halted_steps [OF assms(5)] by (simp add: halted_def)
qed

text \<open>
  C17. Once the terminal message has been sent and \<open>runJob\<close> has returned, every credential the job
  ever held is erased and no signing agent keeps a key.
\<close>

theorem credentials_die:
  assumes "reach E l" "owner l = ADone" "run l = RReturned"
  shows "credentialsZeroised (lj l) \<and> (\<forall>c \<in> set (creds (lj l)). Reveal c = []) \<and> (\<forall>a \<in> set (agents (lj l)). keyBytes a = None)"
  using reach_secret [OF assms(1)] assms(2,3)
  by (auto simp: secret_inv_def credentialsZeroised_def list_all_iff Zeroised_def Reveal_def)

section \<open>Concrete runs\<close>

definition ex_task :: Task where
  "ex_task = \<lparr>tTaskId = ''t1'', tTarget = ''printer'', tFragile = False\<rparr>"

definition ex_env :: "bool \<Rightarrow> (string, string) jobEnv" where
  "ex_env nc =
     \<lparr>Matches = (\<lambda>s. if s = ''printer'' then Some ex_name else None), parseKey = (\<lambda>s. Some s),
      host = \<lparr>allowed = [''printer''], exclusions = [], core = \<lparr>addrs = []\<rparr>\<rparr>,
      tasks = [ex_task], needsCred = nc,
      jobBudget = \<lparr>RatePPS = 10, ConnectTimeoutMS = 1000, MaxConcurrentPerTarget = 1, SafetyMode = ''safe'',
        Probes = [], BannerMatches = [], MaxProbesPerPort = 8\<rparr>\<rparr>"

lemma ex_env_scope [simp]: "scopeOK (ex_env nc)"
proof -
  have t: "TrimSpace ''printer'' = ''printer''" by (rule TrimSpace_id) (simp_all add: graphic_def)
  have m: "matches ''printer'' ''printer'' NoAddr False"
    by (simp add: matches_def t ParsePrefix_def cutLastByte_def ParseAddr_def)
  then show ?thesis
    by (simp add: scopeOK_def authoriseAll_None ex_env_def wireTargets_def authorise_def ex_task_def
        coreContains_def Permits_iff ex_name_def)
qed

lemma ex_env_simps [simp]:
  "probesAllowed (jobBudget (ex_env nc))" "needsCred (ex_env nc) = nc" "parseKey (ex_env nc) s = Some s"
  "tasks (ex_env nc) = [ex_task]"
  by (simp_all add: ex_env_def probesAllowed_def)

text \<open>
  The race of \<open>start\<close> and \<open>stop\<close>: \<open>start\<close> has made its checks, a cancellation then runs to the
  end of \<open>terminate\<close> finding no process, and the engine is created afterwards.
\<close>

definition ex_racing :: life where
  "ex_racing = (newLife 1 0)\<lparr>
     lj := (lj (newLife 1 0))\<lparr>aborting := True, reason := Some CANCELLED\<rparr>, run := RWait, owner := ADone,
     ctxDone := True, stopRequested := True, cmd := True, running := True, inTable := False,
     spawns := 1, sent := [(CANCELLED, True)]\<rparr>"

lemma ex_checked: "reach (ex_env False) ((newLife 1 0)\<lparr>run := RChecked\<rparr>)"
proof -
  have "reach (ex_env False) (newLife 1 0)" by (rule initial)
  then have "reach (ex_env False) ((newLife 1 0)\<lparr>run := RStart\<rparr>)"
    by (rule later) (rule step.job, rule plain; simp add: newLife_def)
  then have "reach (ex_env False) ((newLife 1 0)\<lparr>run := RStart, run := RChecked\<rparr>)"
    by (rule later) (rule step.job, rule starting, rule checked; simp add: newLife_def)
  then show ?thesis by simp
qed

text \<open>The whole terminal path of an abort whose \<open>stop\<close> finds no process.\<close>

lemma zeroise_twice [simp]:
  "zeroiseCredentials (zeroiseCredentials j) = zeroiseCredentials j" "credentialsZeroised (zeroiseCredentials j)"
  by (simp_all add: zeroiseCredentials_def credentialsZeroised_def Zeroise_def agentZeroise_def)

lemma abort_without_process:
  assumes "reach E l" "owner l = NoOwner" "inTable l" "\<not> cmd l" "\<not> aborting (lj l)" "sent l = []"
  shows "reach E (l\<lparr>lj := zeroiseCredentials ((lj l)\<lparr>aborting := True, reason := Some r\<rparr>), owner := ADone,
    ctxDone := True, stopRequested := True, inTable := False, sent := [(r, True)]\<rparr>)"
proof -
  let ?j = "(lj l)\<lparr>aborting := True, reason := Some r\<rparr>"
  let ?s = "l\<lparr>lj := ?j, owner := ACancel r\<rparr>"
  have "beginAbort r (lj l) = (?j, True)" using assms by (simp add: beginAbort_def)
  then have "reach E ?s" using later [OF assms(1) step.aborting [OF begins]] assms by blast
  from later [OF this step.aborting [OF cancels]]
  have "reach E (?s\<lparr>ctxDone := True, owner := AStop r\<rparr>)" by simp
  from later [OF this step.stopping [OF records]]
  have "reach E (?s\<lparr>ctxDone := True, owner := AStop r, stopRequested := True, owner := AKill r\<rparr>)" by simp
  from later [OF this step.stopping [OF no_process]]
  have "reach E (?s\<lparr>ctxDone := True, stopRequested := True, owner := AZeroise r\<rparr>)" using assms by simp
  from later [OF this step.aborting [OF zeroises]]
  have "reach E (?s\<lparr>ctxDone := True, stopRequested := True, lj := zeroiseCredentials ?j, owner := ATerminate r\<rparr>)"
    by simp
  from later [OF this step.terminating [OF erases]]
  have "reach E (?s\<lparr>ctxDone := True, stopRequested := True, lj := zeroiseCredentials ?j, owner := AReport r\<rparr>)"
    by simp
  from later [OF this step.terminating [OF reports]]
  show ?thesis using assms by (cases l) simp
qed

lemma ex_racing_reach: "reach (ex_env False) ex_racing"
proof -
  have "reach (ex_env False)
     ((newLife 1 0)\<lparr>run := RChecked, lj := (lj (newLife 1 0))\<lparr>aborting := True, reason := Some CANCELLED\<rparr>,
      owner := ADone, ctxDone := True, stopRequested := True, inTable := False, sent := [(CANCELLED, True)]\<rparr>)"
    using abort_without_process [OF ex_checked, of CANCELLED] by (simp add: newLife_def zeroiseCredentials_def)
  from later [OF this step.job [OF starting [OF spawned]]]
  have "reach (ex_env False)
     ((newLife 1 0)\<lparr>run := RSpawned, lj := (lj (newLife 1 0))\<lparr>aborting := True, reason := Some CANCELLED\<rparr>,
      owner := ADone, ctxDone := True, stopRequested := True, inTable := False, sent := [(CANCELLED, True)],
      running := True, spawns := 1\<rparr>)"
    by (simp add: newLife_def)
  from later [OF this step.job [OF starting [OF handed]]]
  show ?thesis by (simp add: newLife_def ex_racing_def)
qed

text \<open>
  C40. The check of a stop in \<open>start\<close> is made once, before the process is created. A cancellation
  that arrives between the check and the creation finds no process to signal, reports the job
  terminal and removes it from the table; the engine is created afterwards, and nothing can stop it.
\<close>

theorem engine_survives_termination:
  "\<exists>l. reach (ex_env False) l \<and> sent l = [(CANCELLED, True)] \<and> \<not> inTable l \<and> running l \<and> \<not> signalled l"
  using ex_racing_reach by (intro exI [of _ ex_racing]) (simp add: ex_racing_def newLife_def)

text \<open>
  The race of \<open>awaitCredential\<close> and the terminal path: the agent is built from the grant, a
  cancellation erases all the job holds and attests it, and the agent is registered afterwards.
\<close>

definition ex_grant :: Credential where
  "ex_grant = NewCredential ''g1'' [''printer''] 0 ''key''"

definition ex_agent :: CredAgent where
  "ex_agent = \<lparr>keyBytes = Some ''key'', azeroised = False\<rparr>"

abbreviation ex_waiting :: life where
  "ex_waiting \<equiv> (newLife 1 0)\<lparr>lj := fst (addCredential ex_grant (lj (newLife 1 0))), run := RAgent ex_agent\<rparr>"

lemma ex_waiting_reach: "reach (ex_env True) ex_waiting"
proof -
  let ?l = "(newLife 1 0)\<lparr>run := RAwait\<rparr>"
  have "reach (ex_env True) ?l"
    by (rule later [OF initial]) (rule step.job, rule cred; simp add: newLife_def)
  then have "reach (ex_env True) (?l\<lparr>lj := fst (addCredential ex_grant (lj ?l))\<rparr>)"
    by (rule later) (rule step.message, rule onCredential, simp add: newLife_def)
  then have "reach (ex_env True) (?l\<lparr>lj := fst (addCredential ex_grant (lj ?l)), run := RAgent ex_agent\<rparr>)"
    by (rule later) (rule step.job, rule awaiting,
        rule awaitCredential.agent [where c = ex_grant and now = 0];
        simp add: newLife_def addCredential_def firstCredential_def grantUsable_def ex_grant_def NewCredential_def
          ex_task_def NewCredAgent_def Reveal_def ex_agent_def)
  then show ?thesis by (simp add: newLife_def)
qed

definition ex_attested :: life where
  "ex_attested = ex_waiting\<lparr>
     lj := addAgent ex_agent (zeroiseCredentials ((lj ex_waiting)\<lparr>aborting := True, reason := Some CANCELLED\<rparr>)),
     run := RAdded, owner := ADone, ctxDone := True, stopRequested := True, inTable := False, sent := [(CANCELLED, True)]\<rparr>"

lemma ex_attested_reach: "reach (ex_env True) ex_attested"
proof -
  let ?l = "ex_waiting\<lparr>lj := zeroiseCredentials ((lj ex_waiting)\<lparr>aborting := True, reason := Some CANCELLED\<rparr>),
    owner := ADone, ctxDone := True, stopRequested := True, inTable := False, sent := [(CANCELLED, True)]\<rparr>"
  have "reach (ex_env True) ?l"
    by (rule abort_without_process [OF ex_waiting_reach]) (simp_all add: newLife_def addCredential_def)
  then have "reach (ex_env True) (?l\<lparr>lj := addAgent ex_agent (lj ?l), run := RAdded\<rparr>)"
    by (rule later) (rule step.job, rule awaiting, rule agent_added, simp)
  then show ?thesis by (simp add: ex_attested_def newLife_def)
qed

text \<open>
  The terminal message can attest that every credential is erased while a signing agent still
  holds the key: \<open>awaitCredential\<close> registers an agent it built before the terminal path erased the
  job's secrets, and \<open>addAgent\<close>, unlike \<open>addCredential\<close>, does not look at \<open>aborting\<close>.
\<close>

theorem attestation_before_agent:
  "\<exists>l. reach (ex_env True) l \<and> sent l = [(CANCELLED, True)] \<and> \<not> credentialsZeroised (lj l)
     \<and> (\<exists>a \<in> set (agents (lj l)). keyBytes a = Some ''key'')"
  using ex_attested_reach
  by (intro exI [of _ ex_attested])
     (simp add: ex_attested_def addAgent_def zeroiseCredentials_def credentialsZeroised_def ex_agent_def)

text \<open>
  The context of a job descends from the context of the stream that delivered it, which ends with
  the stream: a disconnect while the job waits for its grant.
\<close>

definition ex_orphan :: life where
  "ex_orphan = (newLife 1 0)\<lparr>run := RReturned, ctxDone := True\<rparr>"

lemma ex_orphan_reach: "reach (ex_env True) ex_orphan"
proof -
  let ?l = "(newLife 1 0)\<lparr>run := RAwait\<rparr>"
  have "reach (ex_env True) ?l"
    by (rule later [OF initial]) (rule step.job, rule cred; simp add: newLife_def)
  then have "reach (ex_env True) (?l\<lparr>ctxDone := True\<rparr>)"
    by (rule later) (rule step.message, rule parentCancelled)
  then have "reach (ex_env True) (?l\<lparr>ctxDone := True, run := RDefer\<rparr>)"
    by (rule later) (rule step.job, rule awaiting, rule awaitCredential.cancelled; simp)
  from later [OF this step.job [OF deferred]]
  show ?thesis by (simp add: ex_orphan_def newLife_def zeroiseCredentials_def)
qed

text \<open>
  A disconnect ends a job that has not started yet without reporting it: \<open>runJob\<close> returns
  believing that an abort owns the terminal path, no one does, and the job stays in the table with
  nothing sent, where its lease is still renewed.
\<close>

theorem disconnect_orphans_job:
  "\<exists>l. reach (ex_env True) l \<and> run l = RReturned \<and> owner l = NoOwner \<and> inTable l \<and> sent l = [] \<and> spawns l = 0"
  using ex_orphan_reach by (intro exI [of _ ex_orphan]) (simp add: ex_orphan_def newLife_def)

section \<open>Witnesses\<close>

theorem job_reports_once_witness:
  "length (sent ex_racing) \<le> 1 \<and> spawns ex_racing \<le> 1 \<and> sent ex_racing = [(CANCELLED, True)]"
  using job_reports_once [OF ex_racing_reach] by (simp add: ex_racing_def)

theorem engine_only_authorised_witness:
  "fst (Permits ex_name [''printer''] []) \<and> spawns ex_racing = 1"
  using engine_only_authorised [OF ex_racing_reach]
  by (simp add: ex_racing_def ex_env_def ex_task_def)

theorem stop_before_start_witness: "spawns ex_attested = 0 \<and> \<not> running ex_attested"
  by (rule stop_before_start [OF ex_attested_reach, where l' = ex_attested])
     (simp_all add: ex_attested_def)

lemma ex_attested_end:
  "reach (ex_env True) (ex_attested\<lparr>lj := zeroiseCredentials (lj ex_attested), ctxDone := True, run := RReturned\<rparr>)"
proof -
  have "reach (ex_env True) (ex_attested\<lparr>run := RStart\<rparr>)"
    by (rule later [OF ex_attested_reach])
       (rule step.job, rule awaiting, rule file_made;
        simp add: ex_attested_def addAgent_def ex_agent_def)
  then have "reach (ex_env True) (ex_attested\<lparr>run := RStart, run := RDefer\<rparr>)"
    by (rule later) (rule step.job, rule starting, rule stopped; simp add: ex_attested_def)
  from later [OF this step.job [OF deferred]]
  show ?thesis by (simp add: ex_attested_def)
qed

theorem credentials_die_witness:
  "credentialsZeroised (zeroiseCredentials (lj ex_attested)) \<and> agents (lj ex_attested) = [ex_agent]"
  using credentials_die [OF ex_attested_end]
  by (simp add: ex_attested_def addAgent_def zeroiseCredentials_def newLife_def addCredential_def)

end
