(* ===== verification/Go_Text.thy ===== *)
theory Go_Text
  imports Go_Prelude
begin

text \<open>
  More of Go's \<open>strings\<close> package: \<open>Split\<close> and \<open>Join\<close> around one byte, \<open>TrimRight\<close> with one
  byte, \<open>Fields\<close>, and the facts about \<open>TrimSpace\<close> that code splitting text into lines relies on.
\<close>

section \<open>Splitting and joining\<close>

fun splitByte :: "char \<Rightarrow> string \<Rightarrow> string list" where
  "splitByte b [] = [[]]"
| "splitByte b (c # s) =
     (if c = b then [] # splitByte b s
      else (case splitByte b s of l # ls \<Rightarrow> (c # l) # ls | [] \<Rightarrow> [[c]]))"

fun joinByte :: "char \<Rightarrow> string list \<Rightarrow> string" where
  "joinByte b [] = []"
| "joinByte b [l] = l"
| "joinByte b (l # ls) = l @ b # joinByte b ls"

definition trimRightByte :: "char \<Rightarrow> string \<Rightarrow> string" where
  "trimRightByte b s = rev (dropWhile (\<lambda>c. c = b) (rev s))"

lemma splitByte_ne [simp]: "splitByte b s \<noteq> []"
  by (induction s) (auto split: list.splits)

lemma splitByte_free: "b \<notin> set s \<Longrightarrow> splitByte b s = [s]"
  by (induction s) auto

lemma splitByte_append: "splitByte b (s @ b # t) = splitByte b s @ splitByte b t"
  by (induction s) (auto split: list.splits)

lemma splitByte_cut: "b \<notin> set s \<Longrightarrow> splitByte b (s @ b # t) = s # splitByte b t"
  by (simp add: splitByte_append splitByte_free)

lemma in_splitByte: "l \<in> set (splitByte b s) \<Longrightarrow> b \<notin> set l"
  by (induction s arbitrary: l) (auto split: if_splits list.splits)

lemma split_join: "ls \<noteq> [] \<Longrightarrow> \<forall>l \<in> set ls. b \<notin> set l \<Longrightarrow> splitByte b (joinByte b ls) = ls"
  by (induction b ls rule: joinByte.induct) (auto simp: splitByte_free splitByte_cut)

lemma join_split [simp]: "joinByte b (splitByte b s) = s"
proof (induction s)
  case (Cons c s)
  then show ?case
    by (cases "splitByte b s"; cases "tl (splitByte b s)") (auto simp: neq_Nil_conv)
qed simp

lemma splitByte_trailing: "set (splitByte b (s @ replicate n b)) \<union> {[]} = set (splitByte b s) \<union> {[]}"
proof (induction n arbitrary: s)
  case (Suc n)
  have e: "s @ replicate (Suc n) b = (s @ replicate n b) @ b # []"
    by (simp add: replicate_append_same)
  show ?case unfolding e splitByte_append using Suc by auto
qed simp

lemma trimRightByte_eq: "\<exists>n. s = trimRightByte b s @ replicate n b"
proof -
  have "rev s = takeWhile (\<lambda>c. c = b) (rev s) @ dropWhile (\<lambda>c. c = b) (rev s)" by simp
  moreover have "takeWhile (\<lambda>c. c = b) (rev s) = replicate (length (takeWhile (\<lambda>c. c = b) (rev s))) b"
    by (metis (mono_tags, lifting) replicate_length_same set_takeWhileD)
  ultimately have "s = trimRightByte b s @ rev (replicate (length (takeWhile (\<lambda>c. c = b) (rev s))) b)"
    by (metis rev_append rev_rev_ident trimRightByte_def)
  then show ?thesis by (metis rev_replicate)
qed

lemma trimRightByte_sub: "set (trimRightByte b s) \<subseteq> set s"
  by (auto simp: trimRightByte_def dest: set_dropWhileD)

section \<open>Fields\<close>

text \<open>
  \<open>strings.Fields\<close>: the maximal runs without white space. An encoding of white space starts with a
  byte that continues no other rune, so looking for one at every byte is looking at every rune.
\<close>

definition spaceAt :: "string \<Rightarrow> string option" where
  "spaceAt s = find (\<lambda>q. q \<noteq> [] \<and> prefix q s) spaceSeqs"

lemma spaceAt_length: "spaceAt s = Some q \<Longrightarrow> length s - length q < length s"
proof -
  assume "spaceAt s = Some q"
  then have "q \<noteq> []" "prefix q s" by (auto simp: spaceAt_def find_Some_iff)
  then have "0 < length q" "length q \<le> length s" by (auto dest: prefix_length_le)
  then show ?thesis by linarith
qed

function fields_loop :: "string \<Rightarrow> string \<Rightarrow> string list" where
  "fields_loop cur s =
     (case spaceAt s of
        Some q \<Rightarrow> (if cur = [] then [] else [cur]) @ fields_loop [] (drop (length q) s)
      | None \<Rightarrow>
          (case s of
             [] \<Rightarrow> if cur = [] then [] else [cur]
           | c # cs \<Rightarrow> fields_loop (cur @ [c]) cs))"
  by pat_completeness auto
termination
  by (relation "measure (\<lambda>(cur, s). length s)") (auto dest: spaceAt_length)

declare fields_loop.simps [simp del]

definition Fields :: "string \<Rightarrow> string list" where
  "Fields s = fields_loop [] s"

lemma spaceAt_graphic [simp]: "graphic c \<Longrightarrow> spaceAt (c # s) = None" "spaceAt [] = None"
  by (auto simp: spaceAt_def find_None_iff prefix_Cons dest: spaceSeqs_ends)

lemma spaceAt_blank [simp]: "spaceAt (CHR '' '' # s) = Some '' ''"
  by (simp add: spaceAt_def spaceSeqs_def char_of_eq_iff)

lemma fields_loop_simps [simp]:
  "fields_loop cur [] = (if cur = [] then [] else [cur])"
  "graphic c \<Longrightarrow> fields_loop cur (c # s) = fields_loop (cur @ [c]) s"
  "fields_loop cur (CHR '' '' # s) = (if cur = [] then [] else [cur]) @ fields_loop [] s"
  by (simp_all add: fields_loop.simps [of cur])

section \<open>White space at the ends\<close>

lemma spaceSeqs_nonempty: "q \<in> set spaceSeqs \<Longrightarrow> q \<noteq> []"
  by (auto simp: spaceSeqs_def)

definition startsWithin :: "string list \<Rightarrow> string \<Rightarrow> bool" where
  "startsWithin qs s \<longleftrightarrow> (\<exists>q \<in> set qs. q \<noteq> [] \<and> prefix q s)"

lemma find_prefix_iff: "find (\<lambda>q. q \<noteq> [] \<and> prefix q s) qs = None \<longleftrightarrow> \<not> startsWithin qs s"
  by (auto simp: startsWithin_def find_None_iff)

lemma stripSeqs_stop: "\<not> startsWithin qs s \<Longrightarrow> stripSeqs qs s = s"
  using find_prefix_iff [of s qs] by (simp add: stripSeqs.simps [of qs s])

lemma stripSeqs_stripped: "\<not> startsWithin qs (stripSeqs qs s)"
proof (induction qs s rule: stripSeqs.induct)
  case (1 qs s)
  show ?case
  proof (cases "find (\<lambda>q. q \<noteq> [] \<and> prefix q s) qs")
    case None
    then show ?thesis using find_prefix_iff [of s qs] stripSeqs_stop by simp
  next
    case (Some q)
    then show ?thesis using 1 by (simp add: stripSeqs.simps [of qs s])
  qed
qed

lemma stripSeqs_suffix: "suffix (stripSeqs qs s) s"
proof (induction qs s rule: stripSeqs.induct)
  case (1 qs s)
  then show ?case
    by (subst stripSeqs.simps) (auto split: option.splits intro: suffix_order.trans suffix_drop)
qed

lemma TrimSpace_parts:
  "\<exists>l r. s = l @ TrimSpace s @ r" "\<not> startsWithin spaceSeqs (TrimSpace s)"
  "\<not> startsWithin (map rev spaceSeqs) (rev (TrimSpace s))"
proof -
  let ?m = "stripSeqs spaceSeqs s"
  obtain l where l: "s = l @ ?m" using stripSeqs_suffix by (auto simp: suffix_def)
  obtain r where "rev ?m = r @ stripSeqs (map rev spaceSeqs) (rev ?m)"
    using stripSeqs_suffix by (auto simp: suffix_def)
  then have r: "?m = TrimSpace s @ rev r" by (metis TrimSpace_def rev_append rev_rev_ident)
  show "\<exists>l r. s = l @ TrimSpace s @ r" using l r by metis
  show "\<not> startsWithin (map rev spaceSeqs) (rev (TrimSpace s))"
    using stripSeqs_stripped by (simp add: TrimSpace_def)
  have "\<not> startsWithin spaceSeqs ?m" by (rule stripSeqs_stripped)
  then show "\<not> startsWithin spaceSeqs (TrimSpace s)"
    using r unfolding startsWithin_def by (metis prefix_order.trans prefixI)
qed

lemma TrimSpace_idem [simp]: "TrimSpace (TrimSpace s) = TrimSpace s"
  by (metis TrimSpace_def TrimSpace_parts(2,3) rev_rev_ident stripSeqs_stop)

lemma TrimSpace_subset: "set (TrimSpace s) \<subseteq> set s"
  using TrimSpace_parts(1) [of s] by (metis Un_iff set_append subsetI)

end
