(* ===== verification/Netip_Text.thy ===== *)
theory Netip_Text
  imports Netip Go_Text
begin

text \<open>
  The text of addresses and prefixes in \<open>net/netip\<close>: hexadecimal fields without leading zeros, the
  first of the longest runs of at least two zero fields written as \<open>::\<close>, and the fact that the parsers
  of theory \<open>Netip\<close> read every such text back.
\<close>

unbundle bit_operations_syntax

section \<open>Text\<close>

definition hexDigit :: "nat \<Rightarrow> char" where
  "hexDigit d = char_of (if d < 10 then 48 + d else 87 + d)"

definition appendHex :: "nat \<Rightarrow> string" where
  "appendHex x =
     (if x \<ge> 4096 then [hexDigit (x div 4096 mod 16)] else []) @ (if x \<ge> 256 then [hexDigit (x div 256 mod 16)] else [])
     @ (if x \<ge> 16 then [hexDigit (x div 16 mod 16)] else []) @ [hexDigit (x mod 16)]"

text \<open>The eight 16-bit fields of an address, the most significant first.\<close>

definition v6Fields :: "128 word \<Rightarrow> nat list" where
  "v6Fields w = map (\<lambda>i. unat w div 65536 ^ (7 - i) mod 65536) [0..<8]"

definition zeroRun :: "nat list \<Rightarrow> nat \<Rightarrow> nat \<times> nat \<Rightarrow> nat \<times> nat" where
  "zeroRun hs i = (\<lambda>(s, e).
     let j = i + length (takeWhile (\<lambda>h. h = 0) (drop i hs))
     in if j - i \<ge> 2 \<and> j - i > e - s then (i, j) else (s, e))"

definition longestZeros :: "nat list \<Rightarrow> nat \<times> nat" where
  "longestZeros hs = fold (zeroRun hs) [0..<8] (255, 255)"

definition joinHex :: "nat list \<Rightarrow> string" where
  "joinHex hs = joinByte (CHR '':'') (map appendHex hs)"

definition v6String :: "128 word \<Rightarrow> string" where
  "v6String w =
     (let hs = v6Fields w; (s, e) = longestZeros hs
      in if s \<ge> 8 then joinHex hs else joinHex (take s hs) @ ''::'' @ joinHex (drop e hs))"

definition Addr_String :: "Addr \<Rightarrow> string" where
  "Addr_String a =
     (case a of
        NoAddr \<Rightarrow> ''invalid IP''
      | V4 w \<Rightarrow> v4String w
      | V6 w z \<Rightarrow>
          (if Is4In6 a then ''::ffff:'' @ v4String (ucast w) else v6String w) @ (if z = [] then [] else CHR ''%'' # z))"

text \<open>\<open>Prefix.String\<close> of a valid prefix.\<close>

definition Prefix_String :: "netPrefix \<Rightarrow> string" where
  "Prefix_String p = Addr_String (pAddr p) @ CHR ''/'' # utoa (nat (pBits p))"

section \<open>Digits in a base\<close>

definition digitsIn :: "nat \<Rightarrow> nat \<Rightarrow> nat \<Rightarrow> nat list" where
  "digitsIn B k n = map (\<lambda>i. n div B ^ (k - 1 - i) mod B) [0..<k]"

lemma digitsIn_Suc: "digitsIn B (Suc k) n = (n div B ^ k mod B) # digitsIn B k n"
proof -
  have "[0..<Suc k] = 0 # map Suc [0..<k]" by (simp add: upt_conv_Cons map_Suc_upt)
  then show ?thesis by (simp add: digitsIn_def)
qed

lemma foldl_digitsIn: "foldl (\<lambda>n d. n * B + d) a (digitsIn B k n) = a * B ^ k + n mod B ^ k"
proof (induction k arbitrary: a)
  case (Suc k)
  have "n mod B ^ Suc k = B ^ k * (n div B ^ k mod B) + n mod B ^ k"
    by (metis mod_mult2_eq mult.commute power_Suc)
  then show ?case by (simp only: digitsIn_Suc foldl.simps Suc.IH) (simp add: algebra_simps)
qed (simp add: digitsIn_def)

lemma v6Fields_digits: "v6Fields w = digitsIn 65536 8 (unat w)"
  by (simp add: v6Fields_def digitsIn_def)

lemma v6Fields_value: "foldl (\<lambda>n d. n * 65536 + d) 0 (v6Fields w) = unat w"
proof -
  have "unat w < 2 ^ LENGTH(128)" by (rule unsigned_less)
  then have "unat w < 65536 ^ 8" by simp
  then show ?thesis unfolding v6Fields_digits foldl_digitsIn by simp
qed

lemma length_v6Fields [simp]: "length (v6Fields w) = 8"
  by (simp add: v6Fields_def)

lemma v6Fields_ne: "v6Fields w \<noteq> []"
  using length_v6Fields [of w] by fastforce

lemma v6Fields_bound: "h \<in> set (v6Fields w) \<Longrightarrow> h < 65536"
  by (auto simp: v6Fields_def)

definition bytes2 :: "nat list \<Rightarrow> nat list" where
  "bytes2 hs = concat (map (\<lambda>h. [h div 256, h mod 256]) hs)"

lemma bytes2_simps [simp]: "bytes2 [] = []" "bytes2 (h # hs) = [h div 256, h mod 256] @ bytes2 hs"
  by (simp_all add: bytes2_def)

lemma bytes2_append [simp]: "bytes2 (xs @ ys) = bytes2 xs @ bytes2 ys"
  by (simp add: bytes2_def)

lemma length_bytes2 [simp]: "length (bytes2 hs) = 2 * length hs"
  by (induction hs) auto

lemma bytes2_zeros: "bytes2 (replicate n 0) = replicate (2 * n) 0"
  by (induction n) (simp_all add: replicate_app_Cons_same)

lemma foldl_bytes2: "foldl (\<lambda>n b. n * 256 + b) a (bytes2 hs) = foldl (\<lambda>n d. n * 65536 + d) a hs"
proof (induction hs arbitrary: a)
  case (Cons h hs)
  have "(a * 256 + h div 256) * 256 + h mod 256 = a * 65536 + h" by simp
  then show ?case by (simp only: bytes2_simps foldl_append foldl.simps Cons.IH)
qed simp

lemma ofBytes_fields: "ofBytes (bytes2 (v6Fields w)) = w"
  by (simp add: ofBytes_def foldl_bytes2 v6Fields_value)

section \<open>Reading fields\<close>

lemma hexVal_hexDigit [simp]: "d < 16 \<Longrightarrow> hexVal (hexDigit d) = Some d"
proof -
  have "list_all (\<lambda>d. hexVal (hexDigit d) = Some d) [0..<16]" by code_simp
  then show "d < 16 \<Longrightarrow> hexVal (hexDigit d) = Some d" by (auto simp: list_all_iff)
qed

definition hexChar :: "char \<Rightarrow> bool" where "hexChar c \<longleftrightarrow> hexVal c \<noteq> None"

lemma hexChar_hexDigit [simp]: "d < 16 \<Longrightarrow> hexChar (hexDigit d)"
  by (simp add: hexChar_def)

lemma hexChar_consts [simp]:
  "\<not> hexChar (CHR '':'')" "\<not> hexChar (CHR ''/'')" "\<not> hexChar (CHR ''.'')" "\<not> hexChar (CHR ''%'')"
  by code_simp+

definition hexValue :: "string \<Rightarrow> nat" where "hexValue ds = foldl (\<lambda>n c. n * 16 + the (hexVal c)) 0 ds"

lemma hexRun_append:
  assumes "list_all hexChar ds" "rest = [] \<or> \<not> hexChar (hd rest)"
  shows "hexRun (ds @ rest) = (length ds, hexValue ds, rest)"
proof -
  have "takeWhile hexChar (ds @ rest) = ds" "dropWhile hexChar (ds @ rest) = rest"
    using assms by (cases rest; auto simp: list_all_iff)+
  then show ?thesis by (simp add: hexRun_def hexValue_def hexChar_def [abs_def] Let_def)
qed

lemma appendHex_digits:
  assumes "h < 65536"
  shows "\<exists>k \<in> {1..4}. h < 16 ^ k \<and> appendHex h = map hexDigit (digitsIn 16 k h)"
proof -
  consider "h < 16" | "16 \<le> h" "h < 256" | "256 \<le> h" "h < 4096" | "4096 \<le> h" using assms by linarith
  then show ?thesis
  proof cases
    case 1 then show ?thesis by (intro bexI [of _ 1]) (simp_all add: appendHex_def digitsIn_def)
  next
    case 2 then show ?thesis by (intro bexI [of _ 2]) (simp_all add: appendHex_def digitsIn_def upt_rec)
  next
    case 3 then show ?thesis by (intro bexI [of _ 3]) (simp_all add: appendHex_def digitsIn_def upt_rec)
  next
    case 4 then show ?thesis using assms by (intro bexI [of _ 4]) (simp_all add: appendHex_def digitsIn_def upt_rec)
  qed
qed

lemma hexValue_digits: "list_all (\<lambda>d. d < 16) ds \<Longrightarrow> hexValue (map hexDigit ds) = foldl (\<lambda>n d. n * 16 + d) 0 ds"
proof -
  have "list_all (\<lambda>d. d < 16) ds \<Longrightarrow>
      foldl (\<lambda>n c. n * 16 + the (hexVal c)) a (map hexDigit ds) = foldl (\<lambda>n d. n * 16 + d) a ds" for a
    by (induction ds arbitrary: a) auto
  then show "list_all (\<lambda>d. d < 16) ds \<Longrightarrow> hexValue (map hexDigit ds) = foldl (\<lambda>n d. n * 16 + d) 0 ds"
    by (simp add: hexValue_def)
qed

lemma appendHex_facts:
  assumes "h < 65536"
  shows "list_all hexChar (appendHex h)" "length (appendHex h) \<in> {1..4}" "hexValue (appendHex h) = h"
proof -
  obtain k where k: "k \<in> {1..4}" "h < 16 ^ k" "appendHex h = map hexDigit (digitsIn 16 k h)"
    using appendHex_digits [OF assms] by blast
  have b: "list_all (\<lambda>d. d < 16) (digitsIn 16 k h)" by (auto simp: digitsIn_def list_all_iff)
  show "list_all hexChar (appendHex h)" using b by (auto simp: k(3) list_all_iff)
  show "length (appendHex h) \<in> {1..4}" using k by (simp add: digitsIn_def)
  show "hexValue (appendHex h) = h" using k(2) by (simp add: k(3) hexValue_digits [OF b] foldl_digitsIn)
qed

lemma hexRun_field:
  assumes "h < 65536" "rest = [] \<or> \<not> hexChar (hd rest)"
  shows "\<exists>l \<in> {1..4}. hexRun (appendHex h @ rest) = (l, h, rest)"
  using hexRun_append [OF appendHex_facts(1) [OF assms(1)] assms(2)] appendHex_facts [OF assms(1)] by auto

lemma joinHex_simps [simp]:
  "joinHex [] = []" "joinHex [h] = appendHex h" "joinHex (h # h' # hs) = appendHex h @ CHR '':'' # joinHex (h' # hs)"
  by (simp_all add: joinHex_def)

abbreviation small :: "nat list \<Rightarrow> bool" where "small hs \<equiv> list_all (\<lambda>h. h < 65536) hs"

lemma appendHex_head: "h < 65536 \<Longrightarrow> appendHex h \<noteq> [] \<and> hexChar (hd (appendHex h))"
  using appendHex_facts [of h] by (cases "appendHex h") auto

lemma joinHex_head: "small hs \<Longrightarrow> hs \<noteq> [] \<Longrightarrow> \<exists>c r. joinHex hs = c # r \<and> hexChar c"
proof (cases hs)
  case (Cons h hs')
  moreover assume "small hs"
  ultimately have "appendHex h \<noteq> []" "hexChar (hd (appendHex h))" using appendHex_head by auto
  then obtain c r where "appendHex h = c # r" "hexChar c" by (cases "appendHex h") auto
  then show ?thesis using Cons by (cases hs') auto
qed simp

lemma v6_loop_fields:
  assumes "small hs" "hs \<noteq> []" "length hs \<le> k"
  shows "v6_loop k bytes ell (joinHex hs) = Some (bytes @ bytes2 hs, ell, [])"
  using assms
proof (induction hs arbitrary: k bytes)
  case (Cons h hs)
  then obtain k' where k: "k = Suc k'" by (cases k) auto
  show ?case
  proof (cases hs)
    case Nil
    obtain l where "l \<in> {1..4}" "hexRun (appendHex h) = (l, h, [])" using hexRun_field [of h "[]"] Cons.prems by auto
    then show ?thesis using Nil k by simp
  next
    case (Cons h' hs')
    obtain c r where cr: "joinHex hs = c # r" "hexChar c" using joinHex_head [of hs] Cons Cons.prems by auto
    obtain l where "l \<in> {1..4}" "hexRun (appendHex h @ CHR '':'' # joinHex hs) = (l, h, CHR '':'' # joinHex hs)"
      using hexRun_field [of h "CHR '':'' # joinHex hs"] Cons.prems by auto
    moreover have "v6_loop k' (bytes @ [h div 256, h mod 256]) ell (joinHex hs)
        = Some ((bytes @ [h div 256, h mod 256]) @ bytes2 hs, ell, [])"
      using Cons.IH [of k'] Cons.prems k Cons by auto
    moreover have "c \<noteq> CHR '':''" using cr by auto
    ultimately show ?thesis using Cons cr k by (auto simp: Let_def)
  qed
qed simp

text \<open>Fields before an ellipsis.\<close>

lemma v6_loop_ellipsis:
  assumes "small hs" "hs \<noteq> []" "length hs < k"
  shows "v6_loop k bytes None (joinHex hs @ ''::'' @ t) =
    (if t = [] then Some (bytes @ bytes2 hs, Some (length (bytes @ bytes2 hs)), [])
     else v6_loop (k - length hs) (bytes @ bytes2 hs) (Some (length (bytes @ bytes2 hs))) t)"
  using assms
proof (induction hs arbitrary: k bytes)
  case (Cons h hs)
  then obtain k' where k: "k = Suc k'" by (cases k) auto
  show ?case
  proof (cases hs)
    case Nil
    obtain l where "l \<in> {1..4}" "hexRun (appendHex h @ ''::'' @ t) = (l, h, ''::'' @ t)"
      using hexRun_field [of h "''::'' @ t"] Cons.prems by auto
    then show ?thesis using Nil k by (simp add: Let_def)
  next
    case (Cons h' hs')
    obtain c r where cr: "joinHex hs = c # r" "hexChar c" using joinHex_head [of hs] Cons Cons.prems by auto
    obtain l where "l \<in> {1..4}"
      "hexRun (appendHex h @ CHR '':'' # joinHex hs @ ''::'' @ t) = (l, h, CHR '':'' # joinHex hs @ ''::'' @ t)"
      using hexRun_field [of h "CHR '':'' # joinHex hs @ ''::'' @ t"] Cons.prems by auto
    moreover have "c \<noteq> CHR '':''" using cr by auto
    ultimately show ?thesis using Cons cr k Cons.IH [of k' "bytes @ [h div 256, h mod 256]"] Cons.prems
      by (auto simp: Let_def)
  qed
qed simp

section \<open>The longest run of zeros\<close>

text \<open>The run found is one of at least two zero fields, or there is none.\<close>

definition runOK :: "nat list \<Rightarrow> nat \<times> nat \<Rightarrow> bool" where
  "runOK hs = (\<lambda>(s, e). (s, e) = (255, 255) \<or>
     s + 2 \<le> e \<and> e \<le> length hs \<and> hs = take s hs @ replicate (e - s) 0 @ drop e hs)"

lemma zeroRun_OK: "i < length hs \<Longrightarrow> runOK hs p \<Longrightarrow> runOK hs (zeroRun hs i p)"
proof -
  let ?z = "takeWhile (\<lambda>h. h = 0) (drop i hs)"
  have z: "?z = replicate (length ?z) 0" by (intro replicate_eqI) (auto dest: set_takeWhileD)
  have "hs = take i hs @ ?z @ drop (i + length ?z) hs"
    by (metis add.commute append_take_drop_id drop_drop dropWhile_eq_drop takeWhile_dropWhile_id)
  then have "hs = take i hs @ replicate (length ?z) 0 @ drop (i + length ?z) hs" using z by simp
  moreover have "i + length ?z \<le> length hs" if "i < length hs"
    using length_takeWhile_le [of "\<lambda>h. h = 0" "drop i hs"] that by simp
  ultimately show "i < length hs \<Longrightarrow> runOK hs p \<Longrightarrow> runOK hs (zeroRun hs i p)"
    by (auto simp: runOK_def zeroRun_def Let_def split: prod.splits)
qed

lemma longestZeros_OK: "length hs = 8 \<Longrightarrow> runOK hs (longestZeros hs)"
proof -
  have "set is \<subseteq> {..<length hs} \<Longrightarrow> runOK hs p \<Longrightarrow> runOK hs (fold (zeroRun hs) is p)" for "is" p
    by (induction "is" arbitrary: p) (auto simp: zeroRun_OK)
  then show "length hs = 8 \<Longrightarrow> runOK hs (longestZeros hs)"
    by (simp add: longestZeros_def atLeast0LessThan [symmetric]) (simp add: runOK_def)
qed

section \<open>Reading addresses back\<close>

lemma joinHex_chars: "small hs \<Longrightarrow> set (joinHex hs) \<subseteq> {c. hexChar c} \<union> {CHR '':''}"
proof (induction hs rule: induct_list012)
  case (2 h) then show ?case using appendHex_facts(1) [of h] by (auto simp: list_all_iff)
next
  case (3 h h' hs) then show ?case using appendHex_facts(1) [of h] by (auto simp: list_all_iff)
qed simp

lemma ParseAddr_loop_v6:
  "set s \<subseteq> {c. hexChar c} \<union> {CHR '':''} \<Longrightarrow> CHR '':'' \<in> set s \<Longrightarrow> ParseAddr_loop t s = parseIPv6 t"
  by (induction s) (auto split: if_splits)

lemma v6String_shape:
  obtains (full) "v6String w = joinHex (v6Fields w)"
  | (zeros) s e where "v6String w = joinHex (take s (v6Fields w)) @ ''::'' @ joinHex (drop e (v6Fields w))"
      "s + 2 \<le> e" "e \<le> 8" "v6Fields w = take s (v6Fields w) @ replicate (e - s) 0 @ drop e (v6Fields w)"
proof -
  obtain s e where se: "longestZeros (v6Fields w) = (s, e)" by (cases "longestZeros (v6Fields w)")
  then have r: "runOK (v6Fields w) (s, e)" using longestZeros_OK [of "v6Fields w"] by simp
  show thesis
  proof (cases "s \<ge> 8")
    case True then show ?thesis using full se by (simp add: v6String_def)
  next
    case False
    then have "(s, e) \<noteq> (255, 255)" by auto
    then show ?thesis using zeros [of s e] r False se unfolding runOK_def v6String_def Let_def by auto
  qed
qed

lemma small_fields: "small (v6Fields w)" "small (take s (v6Fields w))" "small (drop e (v6Fields w))"
  using v6Fields_bound [of _ w] by (auto simp: list_all_iff dest: in_set_takeD in_set_dropD)

lemma v6String_chars: "set (v6String w) \<subseteq> {c. hexChar c} \<union> {CHR '':''}" "CHR '':'' \<in> set (v6String w)"
proof -
  show "set (v6String w) \<subseteq> {c. hexChar c} \<union> {CHR '':''}"
    by (rule v6String_shape [of w]) (use joinHex_chars small_fields in auto)
  have "CHR '':'' \<in> set (joinHex hs)" if "length hs \<ge> 2" for hs
    using that by (cases hs; cases "tl hs") auto
  then show "CHR '':'' \<in> set (v6String w)" by (rule_tac v6String_shape [of w]) auto
qed

lemma foldl_zeros: "foldl (\<lambda>n b. n * 256 + b) 0 (replicate k (0 :: nat)) = 0"
  by (induction k) auto

text \<open>What the loop reads, filled in at the ellipsis.\<close>

lemma v6_finish_zeros:
  assumes "length hs + length ts \<le> 6"
  shows "v6_finish (bytes2 hs @ bytes2 ts, Some (2 * length hs), []) =
    Some (bytes2 (hs @ replicate (8 - length hs - length ts) 0 @ ts))"
  using assms by (simp add: v6_finish_def bytes2_zeros diff_mult_distrib2 [symmetric] mult.commute)

lemma parseIPv6_v6String: "parseIPv6 (v6String w) = Some (V6 w [])"
proof -
  have z: "cutByte (CHR ''%'') (v6String w) = None"
    using v6String_chars(1) [of w] by (auto simp: cutByte_None)
  show ?thesis
  proof (rule v6String_shape [of w])
    assume f: "v6String w = joinHex (v6Fields w)"
    obtain c r where "joinHex (v6Fields w) = c # r" "hexChar c"
      using joinHex_head [OF small_fields(1) v6Fields_ne] by blast
    then have "\<not> HasPrefix (v6String w) ''::''" by (auto simp: f)
    moreover have "v6_loop 8 [] None (v6String w) = Some (bytes2 (v6Fields w), None, [])"
      using v6_loop_fields [OF small_fields(1) v6Fields_ne, of w 8 "[]"] by (simp add: f)
    ultimately show ?thesis using z by (simp add: parseIPv6_def v6_finish_def ofBytes_fields)
  next
    fix s e
    let ?hs = "take s (v6Fields w)" and ?ts = "drop e (v6Fields w)"
    assume v: "v6String w = joinHex ?hs @ ''::'' @ joinHex ?ts" "s + 2 \<le> e" "e \<le> 8"
      "v6Fields w = ?hs @ replicate (e - s) 0 @ ?ts"
    have l: "length ?hs = s" "length ?ts = 8 - e" "8 - s - (8 - e) = e - s" using v by auto
    have fin: "v6_finish (bytes2 ?hs @ bytes2 ?ts, Some (2 * s), []) = Some (bytes2 (v6Fields w))"
      using v6_finish_zeros [of ?hs ?ts] v(2,3,4) l by simp
    have t: "joinHex ?ts = [] \<longleftrightarrow> ?ts = []" using joinHex_head [OF small_fields(3), of e w] by fastforce
    show ?thesis
    proof (cases "s = 0")
      case True
      have "?ts \<noteq> [] \<Longrightarrow> v6_loop 8 [] (Some 0) (joinHex ?ts) = Some (bytes2 ?ts, Some 0, [])"
        using v6_loop_fields [OF small_fields(3), of e w 8] by simp
      moreover have "w = 0" if "?ts = []"
        using ofBytes_fields [of w] v(4) that True bytes2_zeros [of "e - s"] by (simp add: ofBytes_def foldl_zeros)
      ultimately show ?thesis using z v(1) True fin t by (auto simp: parseIPv6_def ofBytes_fields)
    next
      case False
      then have ne: "?hs \<noteq> []" using v(2,3) by (metis length_0_conv l(1))
      obtain c r where "joinHex ?hs = c # r" "hexChar c" using joinHex_head [OF small_fields(2) ne] by blast
      then have np: "\<not> HasPrefix (v6String w) ''::''" by (auto simp: v(1))
      have "v6_loop 8 [] None (v6String w) = Some (bytes2 ?hs @ bytes2 ?ts, Some (2 * s), [])"
        using v6_loop_ellipsis [OF small_fields(2) ne, of 8 "[]" "joinHex ?ts"] v(1-3) l t
          v6_loop_fields [OF small_fields(3), of e w "8 - s"] by simp
      then show ?thesis using z np fin by (simp add: parseIPv6_def ofBytes_fields)
    qed
  qed
qed

lemma ParseAddr_v6String: "ParseAddr (v6String w) = Some (V6 w [])"
  using ParseAddr_loop_v6 [OF v6String_chars] parseIPv6_v6String by (simp add: ParseAddr_def)

text \<open>The IPv4-mapped form.\<close>

definition mappedText :: "32 word \<Rightarrow> string" where "mappedText v = ''::ffff:'' @ v4String v"

lemma utoa_octet:
  assumes "n \<le> 255" shows "list_all hexChar (utoa n)" "length (utoa n) \<in> {1..4}"
proof -
  have "hexChar c" if "isDigit c" for c using that by (simp add: hexChar_def hexVal_def)
  then show "list_all hexChar (utoa n)" using utoa_digits [of n] by (auto simp: list_all_iff)
  consider "n < 10" | "10 \<le> n" "n div 10 < 10" | "10 \<le> n" "10 \<le> n div 10" "n div 10 div 10 < 10"
    using assms by linarith
  then show "length (utoa n) \<in> {1..4}" by cases (simp_all add: utoa_step utoa_lt_10)
qed

lemma v4String_chars: "set (v4String v) \<subseteq> {c. isDigit c} \<union> {CHR ''.''}"
  using utoa_digits by (auto simp: v4String_def list_all_iff)

lemma v4String_hexRun: "\<exists>l x r. hexRun (v4String v) = (l, x, CHR ''.'' # r) \<and> l \<in> {1..4}"
proof -
  note o = utoa_octet [OF octet_le [of 0 v]]
  show ?thesis
    using hexRun_append [OF o(1), of "CHR ''.'' # utoa (octet 1 v) @ ''.'' @ utoa (octet 2 v) @ ''.'' @ utoa (octet 3 v)"] o(2)
    by (simp add: v4String_def)
qed

lemma v4_loop_v4String: "v4_loop [] 0 0 (v4String v) = Some (map (\<lambda>i. octet i v) [0, 1, 2, 3])"
  unfolding v4String_def v4_loop_String [OF octet_le octet_le octet_le octet_le] by simp

lemma mapped_bytes: "drop_bit 32 w = (0xffff :: 128 word) \<Longrightarrow>
    ofBytes (replicate 10 0 @ [255, 255] @ map (\<lambda>i. octet i (ucast w)) [0, 1, 2, 3]) = w"
proof -
  assume m: "drop_bit 32 w = 0xffff"
  let ?v = "ucast w :: 32 word"
  have "unat ?v < 2 ^ LENGTH(32)" by (rule unsigned_less)
  then have v: "unat ?v < 4294967296" by simp
  have o: "octet 0 ?v = unat ?v div 16777216 mod 256" "octet 1 ?v = unat ?v div 65536 mod 256"
    "octet 2 ?v = unat ?v div 256 mod 256" "octet 3 ?v = unat ?v mod 256"
    by (simp_all add: octet_def unsigned_drop_bit_eq drop_bit_eq_div unat_div)
  have w: "unat w = 65535 * 4294967296 + unat ?v"
  proof -
    have "unat (drop_bit 32 w) = 65535" using m by simp
    then have "unat w div 4294967296 = 65535" by (simp add: drop_bit_eq_div unat_div)
    moreover have "unat ?v = unat w mod 4294967296" by (simp add: unsigned_ucast_eq take_bit_eq_mod)
    ultimately show ?thesis by (metis div_mult_mod_eq)
  qed
  have "foldl (\<lambda>n b. n * 256 + b) 0 (replicate 10 0 @ [255, 255] @ map (\<lambda>i. octet i ?v) [0, 1, 2, 3])
      = 65535 * 4294967296 + (((octet 0 ?v * 256 + octet 1 ?v) * 256 + octet 2 ?v) * 256 + octet 3 ?v)"
    by (simp add: foldl_zeros)
  also have "\<dots> = unat w" by (simp only: o base256 [OF v] w)
  finally show ?thesis by (simp add: ofBytes_def)
qed

lemma ParseAddr_mappedText:
  assumes "drop_bit 32 w = (0xffff :: 128 word)" shows "ParseAddr (mappedText (ucast w)) = Some (V6 w [])"
proof -
  let ?v = "ucast w :: 32 word"
  have nop: "cutByte (CHR ''%'') (v4String ?v) = None" using v4String_chars [of ?v] by (auto simp: cutByte_None isDigit_def)
  have f: "hexRun (''ffff:'' @ v4String ?v) = (4, 65535, CHR '':'' # v4String ?v)"
  proof -
    have "hexDigit 15 = CHR ''f''" by code_simp
    then have "appendHex 65535 = ''ffff''" by (simp add: appendHex_def)
    then show ?thesis
      using hexRun_append [OF appendHex_facts(1), of 65535 "CHR '':'' # v4String ?v"] appendHex_facts(3) [of 65535] by simp
  qed
  obtain l x r where h: "hexRun (v4String ?v) = (l, x, CHR ''.'' # r)" "l \<in> {1..4}" using v4String_hexRun by blast
  obtain c s where "v4String ?v = c # s" by (cases "v4String ?v") (auto simp: v4String_def)
  then have cs: "v4String ?v = c # s" "c \<noteq> CHR '':''" using v4String_chars [of ?v] by (auto simp: isDigit_def)
  have "v6_loop 7 [255, 255] (Some 0) (v4String ?v) = Some ([255, 255] @ map (\<lambda>i. octet i ?v) [0, 1, 2, 3], Some 0, [])"
    using h by (simp add: numeral_eq_Suc v4_loop_v4String del: list.map)
  moreover have "v6_loop (Suc 7) [] (Some 0) (''ffff:'' @ v4String ?v) = v6_loop 7 [255, 255] (Some 0) (v4String ?v)"
    by (simp only: v6_loop.simps f Let_def prod.case) (simp add: cs)
  ultimately have "v6_loop 8 [] (Some 0) (''ffff:'' @ v4String ?v) = Some ([255, 255] @ map (\<lambda>i. octet i ?v) [0, 1, 2, 3], Some 0, [])"
    by simp
  then have "parseIPv6 (mappedText ?v) = Some (V6 w [])"
    using nop mapped_bytes [OF assms]
    by (simp add: parseIPv6_def mappedText_def v6_finish_def)
  then show ?thesis by (simp add: ParseAddr_def mappedText_def)
qed

section \<open>Canonical text\<close>

definition plain :: "Addr \<Rightarrow> bool" where
  "plain a \<longleftrightarrow> (case a of NoAddr \<Rightarrow> False | V4 _ \<Rightarrow> True | V6 _ z \<Rightarrow> z = [])"

text \<open>The text of an address without a zone parses back to the address.\<close>

lemma ParseAddr_String: "plain a \<Longrightarrow> ParseAddr (Addr_String a) = Some a"
  using ParseAddr_mappedText
  by (auto simp: plain_def Addr_String_def Is4In6_def mappedText_def ParseAddr_v4String ParseAddr_v6String split: Addr.splits)

lemma digit_hexChar: "isDigit c \<Longrightarrow> hexChar c"
  by (simp add: hexChar_def hexVal_def)

lemma Addr_String_chars: "plain a \<Longrightarrow> set (Addr_String a) \<subseteq> {c. hexChar c} \<union> {CHR ''.'', CHR '':''}"
proof -
  have f: "hexChar (CHR ''f'')" by code_simp
  show "plain a \<Longrightarrow> set (Addr_String a) \<subseteq> {c. hexChar c} \<union> {CHR ''.'', CHR '':''}"
    using v4String_chars v6String_chars(1) digit_hexChar f
    by (auto simp: plain_def Addr_String_def split: Addr.splits) blast+
qed

text \<open>An IPv6 address is written with two colons at least, an IPv4 address with none.\<close>

lemma joinHex_colons: "length hs \<le> Suc (count_list (joinHex hs) (CHR '':''))"
  by (induction hs rule: induct_list012) auto

lemma v6String_colons: "2 \<le> count_list (v6String w) (CHR '':'')"
proof (rule v6String_shape [of w])
  assume "v6String w = joinHex (v6Fields w)"
  then show ?thesis using joinHex_colons [of "v6Fields w"] by simp
qed simp

lemma Addr_String_colons:
  "count_list (Addr_String (V6 w [])) (CHR '':'') \<ge> 2" "CHR '':'' \<notin> set (v4String v)"
  using v6String_colons v4String_chars [of v] by (auto simp: Addr_String_def isDigit_def)

lemma joinHex_length: "small hs \<Longrightarrow> length (joinHex hs) \<le> 5 * length hs"
proof (induction hs rule: induct_list012)
  case (2 h) then show ?case using appendHex_facts(2) [of h] by simp
next
  case (3 h h' hs) then show ?case using appendHex_facts(2) [of h] by simp
qed simp

lemma v4String_length: "length (v4String v) \<le> 20"
  using utoa_octet(2) [OF octet_le [of 0 v]] utoa_octet(2) [OF octet_le [of 1 v]] utoa_octet(2) [OF octet_le [of 2 v]]
    utoa_octet(2) [OF octet_le [of 3 v]] by (simp add: v4String_def)

lemma Addr_String_length: "plain a \<Longrightarrow> length (Addr_String a) \<le> 42"
proof -
  have v: "length (v6String w) \<le> 42" for w
  proof (rule v6String_shape [of w])
    assume "v6String w = joinHex (v6Fields w)"
    then show ?thesis using joinHex_length [OF small_fields(1), of w] by simp
  next
    fix s e
    assume "v6String w = joinHex (take s (v6Fields w)) @ ''::'' @ joinHex (drop e (v6Fields w))" "s + 2 \<le> e" "e \<le> 8"
    then show ?thesis
      using joinHex_length [OF small_fields(2), of s w] joinHex_length [OF small_fields(3), of e w] by simp
  qed
  show "plain a \<Longrightarrow> length (Addr_String a) \<le> 42"
    using v v4String_length [THEN order_trans] by (cases a) (auto simp: plain_def Addr_String_def)
qed

lemma hexChar_graphic: "hexChar c \<Longrightarrow> graphic c"
  by (auto simp: hexChar_def hexVal_def graphic_def isDigit_def less_eq_char_def split: if_splits
      simp flip: of_nat_of_char [where 'a = int])

lemma v4String_last: "last (v4String v) \<noteq> CHR ''.'' \<and> v4String v \<noteq> []"
proof -
  have "last (utoa n) \<noteq> CHR ''.''" for n
    using utoa_digits [of n] by (auto simp: list_all_iff isDigit_def dest!: bspec [OF _ last_in_set [OF utoa_nonempty]])
  then show ?thesis by (simp add: v4String_def)
qed

lemma Addr_String_ends:
  assumes "plain a"
  shows "Addr_String a \<noteq> []" "graphic (hd (Addr_String a))" "graphic (last (Addr_String a))" "last (Addr_String a) \<noteq> CHR ''.''"
proof -
  show ne: "Addr_String a \<noteq> []" using assms ParseAddr_String [OF assms] by (auto simp: ParseAddr_def)
  have "graphic c" if "c \<in> set (Addr_String a)" for c
    using that Addr_String_chars [OF assms] hexChar_graphic by (auto simp: graphic_def)
  then show "graphic (hd (Addr_String a))" "graphic (last (Addr_String a))" using ne by auto
  have "v6String w \<noteq> []" for w using v6String_chars(2) [of w] by auto
  then have "last (v6String w) \<noteq> CHR ''.''" for w
    using subsetD [OF v6String_chars(1) [of w] last_in_set [of "v6String w"]] by auto
  then show "last (Addr_String a) \<noteq> CHR ''.''"
    using assms v4String_last by (auto simp: plain_def Addr_String_def split: Addr.splits)
qed

end
