(* ===== verification/Canonical_Target.thy ===== *)
theory Canonical_Target
  imports Netip_Text Target
begin

text \<open>
  The canonical form of a target: \<open>Canonicalise\<close>, \<open>Matches\<close>, \<open>normaliseHost\<close>, \<open>LooksLikeAddress\<close> and
  the folding of Unicode digits of \<open>internal/target/target.go\<close>.

  Two tables of the standard library are arguments: \<open>url.Parse\<close>, as the scheme and the host of a text
  that parses as a URL, and the set of runes above U+007F that \<open>unicode.IsDigit\<close> accepts. The case
  folding of host names is that of ASCII.
\<close>

section \<open>Runes\<close>

text \<open>The first rune of a text that is not empty and the number of its bytes (\<open>utf8.DecodeRuneInString\<close>): U+FFFD of one byte where no rune is encoded.\<close>

abbreviation code :: "char \<Rightarrow> nat" where "code c \<equiv> of_char c"

definition cont :: "char \<Rightarrow> bool" where "cont c \<longleftrightarrow> 128 \<le> code c \<and> code c \<le> 191"

definition runeError :: nat where "runeError = 65533"

definition between :: "nat \<Rightarrow> nat \<Rightarrow> char \<Rightarrow> bool" where "between l h c \<longleftrightarrow> l \<le> code c \<and> code c \<le> h"

definition runeWidth :: "string \<Rightarrow> nat" where
  "runeWidth s =
     (let x = code (s ! 0) in
      if 194 \<le> x \<and> x \<le> 223 \<and> 2 \<le> length s \<and> cont (s ! 1) then 2
      else if 224 \<le> x \<and> x \<le> 239 \<and> 3 \<le> length s
        \<and> between (if x = 224 then 160 else 128) (if x = 237 then 159 else 191) (s ! 1) \<and> cont (s ! 2) then 3
      else if 240 \<le> x \<and> x \<le> 244 \<and> 4 \<le> length s
        \<and> between (if x = 240 then 144 else 128) (if x = 244 then 143 else 191) (s ! 1) \<and> cont (s ! 2) \<and> cont (s ! 3) then 4
      else 1)"

definition decodeRune :: "string \<Rightarrow> nat \<times> nat" where
  "decodeRune s =
     (let x = code (s ! 0); y = (\<lambda>i. code (s ! i) - 128); n = runeWidth s in
      (if x < 128 then x
       else if n = 2 then (x - 192) * 64 + y 1
       else if n = 3 then (x - 224) * 4096 + y 1 * 64 + y 2
       else if n = 4 then (x - 240) * 262144 + y 1 * 4096 + y 2 * 64 + y 3
       else runeError, n))"

definition encodeRune :: "nat \<Rightarrow> string" where
  "encodeRune r =
     map char_of
      (if r < 128 then [r]
       else if r < 2048 then [192 + r div 64, 128 + r mod 64]
       else if r < 65536 then [224 + r div 4096, 128 + r div 64 mod 64, 128 + r mod 64]
       else [240 + r div 262144, 128 + r div 4096 mod 64, 128 + r div 64 mod 64, 128 + r mod 64])"

section \<open>The shape of an address\<close>

fun digitValue_loop :: "(nat \<Rightarrow> bool) \<Rightarrow> nat \<Rightarrow> nat \<Rightarrow> nat list \<Rightarrow> nat" where
  "digitValue_loop isDig r prev [] = 9"
| "digitValue_loop isDig r prev (v # vs) = (if \<not> isDig (r - v) then prev else digitValue_loop isDig r v vs)"

text \<open>Only runes that are digits are asked for, so the loop never stops at its first step.\<close>

definition digitValue :: "(nat \<Rightarrow> bool) \<Rightarrow> nat \<Rightarrow> nat" where
  "digitValue isDig r = digitValue_loop isDig r 0 [0..<10]"

definition isASCII :: "string \<Rightarrow> bool" where
  "isASCII s \<longleftrightarrow> list_all (\<lambda>c. code c < 128) s"

lemma runeWidth_pos: "0 < runeWidth s"
  by (simp add: runeWidth_def Let_def)

lemma decodeRune_width: "decodeRune s = (r, n) \<Longrightarrow> n = runeWidth s"
  by (simp add: decodeRune_def Let_def)

function foldDigits_loop :: "(nat \<Rightarrow> bool) \<Rightarrow> string \<Rightarrow> string" where
  "foldDigits_loop isDig s =
     (if s = [] then []
      else let (r, n) = decodeRune s
           in (if r > 127 \<and> isDig r then encodeRune (48 + digitValue isDig r) else encodeRune r)
              @ foldDigits_loop isDig (drop n s))"
  by pat_completeness auto

termination
  by (relation "measure (\<lambda>(d, s). length s)") (auto dest: decodeRune_width [OF sym] simp: runeWidth_pos)

declare foldDigits_loop.simps [simp del]

definition foldDigits :: "(nat \<Rightarrow> bool) \<Rightarrow> string \<Rightarrow> string" where
  "foldDigits isDig s = (if isASCII s then s else foldDigits_loop isDig s)"

text \<open>\<open>strings.FieldsFunc\<close> with separators that are ASCII bytes.\<close>

fun fieldsBy :: "(char \<Rightarrow> bool) \<Rightarrow> string \<Rightarrow> string \<Rightarrow> string list" where
  "fieldsBy sep cur [] = (if cur = [] then [] else [cur])"
| "fieldsBy sep cur (c # s) =
     (if sep c then (if cur = [] then [] else [cur]) @ fieldsBy sep [] s else fieldsBy sep (cur @ [c]) s)"

text \<open>
  \<open>strconv.ParseUint(s, 0, 64)\<close>: the base of the prefix, the digits in it, underscores between digits.
  The value is \<open>None\<close> where the function returns an error.
\<close>

definition digit36 :: "char \<Rightarrow> nat option" where
  "digit36 c =
     (if isDigit c then Some (digitVal c)
      else if isLower (lowerByte c) then Some (code (lowerByte c) - 97 + 10) else None)"

definition uintBase :: "string \<Rightarrow> nat \<times> string" where
  "uintBase s =
     (case s of
        c # d # e # r \<Rightarrow>
          if c = CHR ''0'' then
            (if lowerByte d = CHR ''b'' then (2, e # r) else if lowerByte d = CHR ''o'' then (8, e # r)
             else if lowerByte d = CHR ''x'' then (16, e # r) else (8, d # e # r))
          else (10, s)
      | c # r \<Rightarrow> if c = CHR ''0'' then (8, r) else (10, s)
      | [] \<Rightarrow> (10, s))"

fun uint_loop :: "nat \<Rightarrow> nat \<Rightarrow> string \<Rightarrow> nat option" where
  "uint_loop b n [] = Some n"
| "uint_loop b n (c # s) =
     (if c = CHR ''_'' then uint_loop b n s
      else case digit36 c of
             None \<Rightarrow> None
           | Some d \<Rightarrow> if d \<ge> b \<or> n * b + d \<ge> 2 ^ 64 then None else uint_loop b (n * b + d) s)"

datatype sawBefore = SawStart | SawDigit | SawUnderscore | SawOther

fun underscore_loop :: "bool \<Rightarrow> sawBefore \<Rightarrow> string \<Rightarrow> bool" where
  "underscore_loop hex i [] = (i \<noteq> SawUnderscore)"
| "underscore_loop hex i (c # s) =
     (if isDigit c \<or> hex \<and> CHR ''a'' \<le> lowerByte c \<and> lowerByte c \<le> CHR ''f'' then underscore_loop hex SawDigit s
      else if c = CHR ''_'' then (if i \<noteq> SawDigit then False else underscore_loop hex SawUnderscore s)
      else if i = SawUnderscore then False
      else underscore_loop hex SawOther s)"

definition underscoreOK :: "string \<Rightarrow> bool" where
  "underscoreOK s =
     (case s of
        c # d # r \<Rightarrow>
          if c = CHR ''0'' \<and> lowerByte d \<in> {CHR ''b'', CHR ''o'', CHR ''x''}
          then underscore_loop (lowerByte d = CHR ''x'') SawDigit r else underscore_loop False SawStart s
      | _ \<Rightarrow> underscore_loop False SawStart s)"

definition ParseUint0 :: "string \<Rightarrow> nat option" where
  "ParseUint0 s =
     (if s = [] then None
      else case uintBase s of
             (b, r) \<Rightarrow>
               (case uint_loop b 0 r of
                  None \<Rightarrow> None
                | Some n \<Rightarrow> if CHR ''_'' \<in> set r \<and> \<not> underscoreOK s then None else Some n))"

definition addressSep :: "char \<Rightarrow> bool" where
  "addressSep c \<longleftrightarrow> c = CHR ''.'' \<or> c = CHR ''/'' \<or> c = CHR ''-'' \<or> c = CHR '',''"

definition LooksLikeAddress :: "(nat \<Rightarrow> bool) \<Rightarrow> string \<Rightarrow> bool" where
  "LooksLikeAddress isDig s0 =
     (if s0 = [] then False
      else let s = foldDigits isDig s0
           in if CHR '':'' \<in> set s \<or> CHR ''['' \<in> set s \<or> CHR '']'' \<in> set s then True
              else let fields = fieldsBy addressSep [] s
                   in if length fields = 0 then False else list_all (\<lambda>f. ParseUint0 f \<noteq> None) fields)"

section \<open>The canonical form\<close>

definition normaliseHost :: "string \<Rightarrow> string \<times> bool" where
  "normaliseHost host0 =
     (let host = TrimSpace host0;
          bracketed = (HasPrefix host ''['' \<or> CHR '']'' \<in> set host)
      in case (case SplitHostPort host of None \<Rightarrow> None | Some (h, port) \<Rightarrow> if h \<noteq> [] \<and> validPort port then Some h else None) of
           Some h \<Rightarrow> (trimSuffixByte (CHR ''.'') (TrimSpace h), bracketed)
         | None \<Rightarrow>
             if HasPrefix host ''['' \<and> suffix '']'' host
             then (trimSuffixByte (CHR ''.'') (TrimSpace (trimSuffixByte (CHR '']'') (drop 1 host))), True)
             else (trimSuffixByte (CHR ''.'') host, bracketed))"

definition MaxLength :: nat where "MaxLength = 512"

datatype canonError = EmptyTarget | TargetTooLong nat | NoHost | ErrNotCanonical

definition zeroPrefix :: netPrefix where "zeroPrefix = \<lparr>pAddr = NoAddr, pBits = -1\<rparr>"

definition addressOf :: "Addr \<Rightarrow> Canonical" where
  "addressOf a0 = (let a = Unmap (noZone a0) in \<lparr>cValue = Addr_String a, cKind = KindAddress, cAddr = a, cPrefix = zeroPrefix\<rparr>)"

text \<open>What a host, with its notation removed, is.\<close>

definition judgeHost :: "(nat \<Rightarrow> bool) \<Rightarrow> string \<Rightarrow> bool \<Rightarrow> canonError + Canonical" where
  "judgeHost isDig host bracketed =
     (case ParseAddr host of
        Some a \<Rightarrow> Inr (addressOf a)
      | None \<Rightarrow>
          (case ParsePrefix host of
             Some p \<Rightarrow>
               if pBits p = BitLen (pAddr p) then Inr (addressOf (pAddr p))
               else let m = Masked p
                    in Inr \<lparr>cValue = Prefix_String m, cKind = KindPrefix, cAddr = NoAddr, cPrefix = m\<rparr>
           | None \<Rightarrow>
               if bracketed \<or> LooksLikeAddress isDig host then Inl ErrNotCanonical
               else Inr \<lparr>cValue = ToLower host, cKind = KindHostname, cAddr = NoAddr, cPrefix = zeroPrefix\<rparr>))"

definition Canonicalise :: "(string \<Rightarrow> (string \<times> string) option) \<Rightarrow> (nat \<Rightarrow> bool) \<Rightarrow> string \<Rightarrow> canonError + Canonical" where
  "Canonicalise urlParse isDig raw =
     (let s = TrimSpace raw
      in if s = [] then Inl EmptyTarget
         else if length s > MaxLength then Inl (TargetTooLong (length s))
         else let host = (case urlParse s of None \<Rightarrow> s | Some (scheme, h) \<Rightarrow> if scheme \<noteq> [] \<and> h \<noteq> [] then h else s);
                  (host, bracketed) = normaliseHost host
              in if host = [] then Inl NoHost else judgeHost isDig host bracketed)"

definition zeroCanonical :: Canonical where
  "zeroCanonical = \<lparr>cValue = [], cKind = KindAddress, cAddr = NoAddr, cPrefix = zeroPrefix\<rparr>"

definition Matches :: "(string \<Rightarrow> (string \<times> string) option) \<Rightarrow> (nat \<Rightarrow> bool) \<Rightarrow> string \<Rightarrow> Canonical \<times> bool" where
  "Matches urlParse isDig raw =
     (case Canonicalise urlParse isDig raw of
        Inl _ \<Rightarrow> (zeroCanonical, False)
      | Inr c \<Rightarrow> (c, cValue c = raw))"

section \<open>What the parsers accept\<close>

lemma v4_loop_chars: "v4_loop acc v dl s = Some bs \<Longrightarrow> set s \<subseteq> {c. isDigit c} \<union> {CHR ''.''}"
  by (induction acc v dl s rule: v4_loop.induct) (auto simp: Let_def split: if_splits)

lemma hexRun_split: "hexRun s = (n, x, rest) \<Longrightarrow> \<exists>ds. s = ds @ rest \<and> list_all hexChar ds"
proof -
  assume "hexRun s = (n, x, rest)"
  then have "rest = dropWhile hexChar s" by (simp add: hexRun_def hexChar_def [abs_def] Let_def)
  then have "s = takeWhile hexChar s @ rest" by simp
  moreover have "list_all hexChar (takeWhile hexChar s)" by (auto simp: list_all_iff dest: set_takeWhileD)
  ultimately show ?thesis by blast
qed

lemma v6_loop_chars:
  "v6_loop k bytes ell s = Some (bytes', ell', r) \<Longrightarrow> set s \<subseteq> {c. hexChar c} \<union> {CHR '':'', CHR ''.''} \<union> set r"
proof (induction k arbitrary: bytes ell s)
  case (Suc k)
  obtain n x rest where h: "hexRun s = (n, x, rest)" by (cases "hexRun s")
  then obtain ds where s: "s = ds @ rest" "list_all hexChar ds" using hexRun_split by blast
  have d: "set s \<subseteq> {c. hexChar c} \<union> {CHR ''.''}" if "v4_loop [] 0 0 s = Some bs" for bs
    using v4_loop_chars [OF that] digit_hexChar by auto
  show ?case
    using Suc.prems s h d
    by (auto simp: Let_def list_all_iff split: if_splits list.splits dest!: Suc.IH)
qed auto

lemma ParseAddr_loop_family: "ParseAddr_loop s t = Some a \<Longrightarrow> parseIPv4 s = Some a \<or> parseIPv6 s = Some a"
  by (induction t) (auto split: if_splits)

lemma parseIPv6_chars:
  assumes "parseIPv6 s = Some a" "CHR ''%'' \<notin> set s"
  shows "set s \<subseteq> {c. hexChar c} \<union> {CHR '':'', CHR ''.''}"
proof -
  have c: "cutByte (CHR ''%'') s = None" using assms(2) by (simp add: cutByte_None)
  have fin: "set t \<subseteq> {c. hexChar c} \<union> {CHR '':'', CHR ''.''}"
    if b: "Option.bind (v6_loop 8 [] e t) v6_finish = Some bs" for e t bs
  proof -
    obtain b e' r where l: "v6_loop 8 [] e t = Some (b, e', r)" "v6_finish (b, e', r) = Some bs"
      using b by (cases "v6_loop 8 [] e t") auto
    then have "r = []" by (auto simp: v6_finish_def split: if_splits)
    then show ?thesis using v6_loop_chars [OF l(1)] by simp
  qed
  show ?thesis
  proof (cases "HasPrefix s ''::''")
    case True
    then obtain t where t: "s = ''::'' @ t" by (auto simp: prefix_def)
    then show ?thesis using assms(1) c fin [of _ t] by (auto simp: parseIPv6_def Let_def split: if_splits)
  next
    case False
    then show ?thesis using assms(1) c fin [of None s] by (auto simp: parseIPv6_def Let_def)
  qed
qed

lemma ParseAddr_chars:
  assumes "ParseAddr s = Some a" "CHR ''%'' \<notin> set s"
  shows "set s \<subseteq> {c. hexChar c} \<union> {CHR '':'', CHR ''.''}"
proof -
  have "parseIPv4 s = Some a \<or> parseIPv6 s = Some a"
    using assms(1) ParseAddr_loop_family by (simp add: ParseAddr_def)
  then show ?thesis
    using v4_loop_chars digit_hexChar parseIPv6_chars [OF _ assms(2)] by (fastforce simp: parseIPv4_def)
qed

text \<open>Without a colon only an IPv4 address is read.\<close>

lemma ParseAddr_loop_no_colon: "CHR '':'' \<notin> set t \<Longrightarrow> ParseAddr_loop s t = Some a \<Longrightarrow> parseIPv4 s = Some a"
  by (induction t) (auto split: if_splits)

lemma ParseAddr_no_colon:
  "ParseAddr s = Some a \<Longrightarrow> CHR '':'' \<notin> set s \<Longrightarrow> set s \<subseteq> {c. isDigit c} \<union> {CHR ''.''}"
  using ParseAddr_loop_no_colon [of s s a] v4_loop_chars by (fastforce simp: ParseAddr_def parseIPv4_def)

lemma ParseAddr_valid: "ParseAddr s = Some a \<Longrightarrow> a \<noteq> NoAddr"
  using ParseAddr_loop_family [of s s a]
  by (auto simp: ParseAddr_def parseIPv4_def parseIPv6_def Let_def split: if_splits option.splits prod.splits)

lemma atoi_digits: "atoi s = Some n \<Longrightarrow> isDigit (hd s) \<Longrightarrow> list_all isDigit s"
  by (cases s) (auto simp: atoi_def isDigit_def Let_def split: if_splits)

lemma cutLastByte_Some: "cutLastByte b s = Some (l, r) \<Longrightarrow> s = l @ b # r \<and> b \<notin> set r"
proof -
  assume "cutLastByte b s = Some (l, r)"
  then have "cutByte b (rev s) = Some (rev r, rev l)" by (auto simp: cutLastByte_def)
  then have "rev s = rev r @ b # rev l \<and> b \<notin> set r" using cutByte_Some by fastforce
  then show ?thesis by (simp add: rev_swap)
qed

lemma ParsePrefix_Some:
  assumes "ParsePrefix s = Some p"
  shows "plain (pAddr p)" "0 \<le> pBits p" "pBits p \<le> BitLen (pAddr p)"
    "CHR '':'' \<notin> set s \<Longrightarrow> set s \<subseteq> {c. isDigit c} \<union> {CHR ''.'', CHR ''/''}"
proof -
  obtain l b where c: "cutLastByte (CHR ''/'') s = Some (l, b)"
    using assms by (cases "cutLastByte (CHR ''/'') s") (auto simp: ParsePrefix_def)
  then have s: "s = l @ CHR ''/'' # b" using cutLastByte_Some by blast
  obtain ip where ip: "ParseAddr l = Some ip" using assms c by (auto simp: ParsePrefix_def split: option.splits)
  then have r: "p = \<lparr>pAddr = ip, pBits = pBits p\<rparr>" "0 \<le> pBits p" "pBits p \<le> BitLen ip"
    "(case ip of V6 _ z \<Rightarrow> z = [] | _ \<Rightarrow> True)" "atoi b = Some (pBits p)"
    "length b > 1 \<Longrightarrow> \<not> (hd b < CHR ''1'' \<or> CHR ''9'' < hd b)"
    using assms c by (auto simp: ParsePrefix_def split: option.splits if_splits Addr.splits)
  show "plain (pAddr p)" using r(1,4) ParseAddr_valid [OF ip] by (auto simp: plain_def split: Addr.splits dest!: arg_cong [of p _ pAddr])
  show "0 \<le> pBits p" "pBits p \<le> BitLen (pAddr p)" using r(1,2,3) by (metis netPrefix.select_convs(1))+
  have "isDigit (hd b)"
  proof (cases "length b > 1")
    case True
    then show ?thesis using r(6) by (auto simp: isDigit_def less_char_def not_less simp flip: of_nat_of_char [where 'a = int])
  next
    case False
    then show ?thesis using r(5) by (cases b) (auto simp: atoi_def Let_def split: if_splits)
  qed
  then have "list_all isDigit b" using atoi_digits r(5) by blast
  then show "CHR '':'' \<notin> set s \<Longrightarrow> set s \<subseteq> {c. isDigit c} \<union> {CHR ''.'', CHR ''/''}"
    using ParseAddr_no_colon [OF ip] s by (auto simp: list_all_iff)
qed


section \<open>Settled texts\<close>

text \<open>
  A text that normalisation leaves alone: nothing to trim, no brackets, no port, no root label and
  no URL in it.
\<close>

definition settled :: "string \<Rightarrow> bool" where
  "settled s \<longleftrightarrow> s \<noteq> [] \<and> length s \<le> MaxLength \<and> TrimSpace s = s \<and> CHR ''['' \<notin> set s \<and> CHR '']'' \<notin> set s
     \<and> last s \<noteq> CHR ''.'' \<and> (CHR '':'' \<notin> set s \<or> 2 \<le> count_list s (CHR '':'')) \<and> \<not> sublist ''://'' s"

text \<open>The documented form of a URL with a scheme and a host: \<open>scheme://host\<close> and more.\<close>

definition urlForm :: "(string \<Rightarrow> (string \<times> string) option) \<Rightarrow> bool" where
  "urlForm urlParse \<longleftrightarrow> (\<forall>s scheme h. urlParse s = Some (scheme, h) \<and> scheme \<noteq> [] \<and> h \<noteq> [] \<longrightarrow> sublist ''://'' s)"

lemma SplitHostPort_colons:
  assumes "CHR '':'' \<notin> set s \<or> 2 \<le> count_list s (CHR '':'')" "CHR ''['' \<notin> set s"
  shows "SplitHostPort s = None"
proof (cases "cutLastByte (CHR '':'') s")
  case (Some p)
  then obtain l r where c: "cutLastByte (CHR '':'') s = Some (l, r)" by (cases p) auto
  then have s: "s = l @ CHR '':'' # r" "CHR '':'' \<notin> set r" using cutLastByte_Some by blast+
  then have "count_list r (CHR '':'') = 0" by (simp add: count_list_0_iff)
  then have "CHR '':'' \<in> set l"
    using assms(1) s(1) by (cases "CHR '':'' \<in> set l") (auto simp: count_list_0_iff)
  moreover have "hd s \<noteq> CHR ''[''" using assms(2) s(1) by (cases l) auto
  ultimately show ?thesis using c by (simp add: SplitHostPort_def)
qed (simp add: SplitHostPort_def)

lemma normaliseHost_settled: "settled s \<Longrightarrow> normaliseHost s = (s, False)"
  using SplitHostPort_colons [of s]
  by (auto simp: settled_def normaliseHost_def trimSuffixByte_def Let_def dest!: set_mono_prefix)

lemma Canonicalise_settled:
  assumes "settled s" "urlForm u"
  shows "Canonicalise u d s = judgeHost d s False"
proof -
  have "(case u s of None \<Rightarrow> s | Some (scheme, h) \<Rightarrow> if scheme \<noteq> [] \<and> h \<noteq> [] then h else s) = s"
    using assms by (auto simp: settled_def urlForm_def split: option.splits)
  moreover have "TrimSpace s = s" "s \<noteq> []" "length s \<le> MaxLength" using assms(1) by (auto simp: settled_def)
  ultimately show ?thesis by (simp add: Canonicalise_def normaliseHost_settled [OF assms(1)] Let_def)
qed

lemma sublist_set: "sublist xs ys \<Longrightarrow> set xs \<subseteq> set ys"
  by (auto simp: sublist_def)

lemma hexChar_brackets [simp]: "\<not> hexChar (CHR ''['')" "\<not> hexChar (CHR '']'')"
  by code_simp+

lemma addr_settled: "plain a \<Longrightarrow> settled (Addr_String a)"
proof -
  assume p: "plain a"
  have "CHR ''['' \<notin> set (Addr_String a)" "CHR '']'' \<notin> set (Addr_String a)" "CHR ''/'' \<notin> set (Addr_String a)"
    using Addr_String_chars [OF p] hexChar_brackets by auto
  moreover have "CHR '':'' \<notin> set (Addr_String a) \<or> 2 \<le> count_list (Addr_String a) (CHR '':'')"
    using p Addr_String_colons by (cases a) (auto simp: plain_def Addr_String_def)
  moreover have "\<not> sublist ''://'' (Addr_String a)" using calculation(3) sublist_set by fastforce
  ultimately show ?thesis
    using Addr_String_ends [OF p] Addr_String_length [OF p] by (simp add: settled_def MaxLength_def)
qed

lemma addressOf_plain:
  assumes "a \<noteq> NoAddr"
  shows "plain (cAddr (addressOf a))" "\<not> Is4In6 (cAddr (addressOf a))" "cValue (addressOf a) = Addr_String (cAddr (addressOf a))"
    "addressOf (cAddr (addressOf a)) = addressOf a"
  using assms by (cases a; auto simp: addressOf_def plain_def Is4In6_def Unmap_def noZone_def Let_def)+

text \<open>The canonical form of an address is canonical.\<close>

lemma Canonicalise_address:
  assumes "urlForm u" "a \<noteq> NoAddr"
  shows "Canonicalise u d (cValue (addressOf a)) = Inr (addressOf a)"
  using addressOf_plain [OF assms(2)] Canonicalise_settled [OF addr_settled assms(1)]
  by (simp add: judgeHost_def ParseAddr_String)

section \<open>Prefixes\<close>

lemma utoa_head: "1 \<le> n \<Longrightarrow> hd (utoa n) \<in> {CHR ''1''..CHR ''9''}"
proof (induction n rule: utoa.induct)
  case (1 n)
  show ?case
  proof (cases "n < 10")
    case True
    then show ?thesis using 1(2) by (simp add: utoa_lt_10 less_eq_char_def)
  next
    case False
    then show ?thesis using 1 by (simp add: utoa_step)
  qed
qed

lemma utoa_first: "utoa n = c # s \<Longrightarrow> c \<noteq> CHR ''-'' \<and> c \<noteq> CHR ''+''"
  using utoa_digits [of n] by (auto simp: isDigit_def)

lemma atoi_utoa: "n < 1000 \<Longrightarrow> atoi (utoa n) = Some (int n)"
  using utoa_digits [of n] utoa_first [of n]
  by (cases "utoa n") (auto simp: atoi_def Let_def dest: arg_cong [of "utoa n" _ numVal])


lemma mask_twice:
  "push_bit n (drop_bit n (push_bit n (drop_bit n w))) = push_bit n (drop_bit n (w :: 'a :: len word))"
  by (rule bit_word_eqI) (auto simp: bit_simps)

lemma Masked_facts:
  assumes "plain (pAddr p)"
  shows "plain (pAddr (Masked p))" "BitLen (pAddr (Masked p)) = BitLen (pAddr p)" "pBits (Masked p) = pBits p"
    "Masked (Masked p) = Masked p"
  using assms by (auto simp: Masked_def maskAddr_def plain_def BitLen_def mask_twice split: Addr.splits)

lemma utoa_small_length: "n \<le> 128 \<Longrightarrow> length (utoa n) \<le> 4"
  using utoa_octet(2) [of n] by simp

lemma Prefix_String_chars:
  assumes "plain (pAddr p)"
  shows "set (Prefix_String p) \<subseteq> {c. hexChar c} \<union> {CHR ''.'', CHR '':'', CHR ''/''}"
  using Addr_String_chars [OF assms] utoa_digits [of "nat (pBits p)"] digit_hexChar
  by (auto simp: Prefix_String_def list_all_iff)

lemma count_sublist: "sublist xs ys \<Longrightarrow> count_list xs c \<le> count_list ys c"
  by (auto simp: sublist_def)

lemma utoa_free: "\<not> isDigit c \<Longrightarrow> c \<notin> set (utoa n)"
  using utoa_digits [of n] by (auto simp: list_all_iff)

lemma prefix_settled:
  assumes "plain (pAddr p)" "pBits p \<le> BitLen (pAddr p)"
  shows "settled (Prefix_String p)"
proof -
  let ?a = "Addr_String (pAddr p)" and ?b = "utoa (nat (pBits p))"
  have s: "settled ?a" by (rule addr_settled [OF assms(1)])
  have b: "CHR '':'' \<notin> set ?b" "CHR ''/'' \<notin> set ?b" by (rule utoa_free, simp add: isDigit_def)+
  then have b0: "count_list ?b (CHR '':'') = 0" "count_list ?b (CHR ''/'') = 0" by (simp_all add: count_list_0_iff)
  have d: "isDigit (last ?b)" using utoa_digits [of "nat (pBits p)"] by (simp add: list_all_iff)
  then have "graphic (last (Prefix_String p))" "last (Prefix_String p) \<noteq> CHR ''.''"
    by (auto simp: Prefix_String_def isDigit_def graphic_def)
  moreover have "graphic (hd (Prefix_String p))" using Addr_String_ends [OF assms(1)] by (simp add: Prefix_String_def)
  moreover have "CHR ''/'' \<notin> set ?a" using Addr_String_chars [OF assms(1)] by auto
  then have "count_list (Prefix_String p) (CHR ''/'') = 1" using b0 by (simp add: Prefix_String_def count_list_0_iff)
  then have "\<not> sublist ''://'' (Prefix_String p)" using count_sublist [of "''://''" _ "CHR ''/''"] by fastforce
  moreover have "pBits p \<le> 128" using assms by (auto simp: BitLen_def split: Addr.splits)
  then have "length (Prefix_String p) \<le> MaxLength"
    using Addr_String_length [OF assms(1)] utoa_small_length [of "nat (pBits p)"] by (simp add: Prefix_String_def MaxLength_def nat_le_iff)
  moreover have "CHR ''['' \<notin> set (Prefix_String p)" "CHR '']'' \<notin> set (Prefix_String p)"
    using Prefix_String_chars [OF assms(1)] by auto
  moreover have "CHR '':'' \<notin> set (Prefix_String p) \<or> 2 \<le> count_list (Prefix_String p) (CHR '':'')"
    using s b b0 by (auto simp: settled_def Prefix_String_def)
  ultimately show ?thesis by (simp add: settled_def Prefix_String_def)
qed

lemma ParsePrefix_String:
  assumes "plain (pAddr p)" "0 \<le> pBits p" "pBits p \<le> BitLen (pAddr p)"
  shows "ParsePrefix (Prefix_String p) = Some p"
proof -
  let ?n = "nat (pBits p)"
  have n: "?n < 1000" "int ?n = pBits p" "\<not> pBits p < 0" "\<not> BitLen (pAddr p) < pBits p"
    using assms by (auto simp: BitLen_def split: Addr.splits)
  have h: "\<not> (length (utoa ?n) > 1 \<and> (hd (utoa ?n) < CHR ''1'' \<or> CHR ''9'' < hd (utoa ?n)))"
  proof (cases "?n < 10")
    case True then show ?thesis by (simp add: utoa_lt_10)
  next
    case False
    then have "1 \<le> ?n" by linarith
    then show ?thesis using utoa_head [of ?n] by (auto simp: not_less)
  qed
  have z: "\<not> (case pAddr p of V6 _ z \<Rightarrow> z \<noteq> [] | _ \<Rightarrow> False)" using assms(1) by (auto simp: plain_def split: Addr.splits)
  have "CHR ''/'' \<notin> set (utoa ?n)" by (rule utoa_free) (simp add: isDigit_def)
  then show ?thesis
    using n h z atoi_utoa [OF n(1)] ParseAddr_String [OF assms(1)]
    by (simp add: ParsePrefix_def Prefix_String_def del: int_nat_eq)
qed

lemma ParseAddr_Prefix_String: "plain (pAddr p) \<Longrightarrow> ParseAddr (Prefix_String p) = None"
proof (rule ccontr)
  assume p: "plain (pAddr p)" and "ParseAddr (Prefix_String p) \<noteq> None"
  then obtain a where a: "ParseAddr (Prefix_String p) = Some a" by auto
  have "CHR ''%'' \<notin> set (Prefix_String p)" using Prefix_String_chars [OF p] by auto
  moreover have "CHR ''/'' \<in> set (Prefix_String p)" by (simp add: Prefix_String_def)
  ultimately have "CHR ''/'' \<in> {c. hexChar c} \<union> {CHR '':'', CHR ''.''}" using ParseAddr_chars [OF a] by blast
  then show False by simp
qed

text \<open>The canonical form of a range is canonical.\<close>

lemma Canonicalise_prefix:
  assumes "urlForm u" "plain (pAddr p)" "0 \<le> pBits p" "pBits p < BitLen (pAddr p)"
  shows "Canonicalise u d (Prefix_String (Masked p)) =
    Inr \<lparr>cValue = Prefix_String (Masked p), cKind = KindPrefix, cAddr = NoAddr, cPrefix = Masked p\<rparr>"
proof -
  note m = Masked_facts [OF assms(2)]
  have "settled (Prefix_String (Masked p))" using prefix_settled m assms(4) by simp
  then show ?thesis
    using ParseAddr_Prefix_String [OF m(1)] ParsePrefix_String [OF m(1)] m assms(3,4)
    by (simp add: Canonicalise_settled assms(1) judgeHost_def Let_def)
qed


section \<open>Host names\<close>

lemma code_lowerByte: "code (lowerByte c) = (if isUpper c then code c + 32 else code c)"
proof -
  have "int (code c) = byte c" by (simp add: of_nat_of_char)
  then show ?thesis by (auto simp: lowerByte_def isUpper_def nat_add_distrib)
qed

lemma lowerByte_idem [simp]: "lowerByte (lowerByte c) = lowerByte c"
proof -
  have "\<not> isUpper (lowerByte c)"
    using code_lowerByte [of c] by (auto simp: isUpper_def split: if_splits simp flip: of_nat_of_char [where 'a = int])
  then show ?thesis by (simp add: lowerByte_def [of "lowerByte c"])
qed

lemma lowerByte_eq:
  assumes "\<not> isUpper d" "\<not> isLower d" shows "lowerByte c = d \<longleftrightarrow> c = d"
proof
  assume l: "lowerByte c = d"
  then have "\<not> isUpper c"
    using code_lowerByte [of c] assms(2) by (auto simp: isUpper_def isLower_def simp flip: of_nat_of_char [where 'a = int])
  then show "c = d" using l by (simp add: lowerByte_def)
qed (use assms in \<open>simp add: lowerByte_def\<close>)

lemma isDigit_lowerByte [simp]: "isDigit (lowerByte c) \<longleftrightarrow> isDigit c"
  using code_lowerByte [of c] by (auto simp: isDigit_def isUpper_def split: if_splits simp flip: of_nat_of_char [where 'a = int])

lemma lowerByte_digit: "isDigit c \<Longrightarrow> lowerByte c = c"
  by (auto simp: lowerByte_def isUpper_def isDigit_def)

lemma digit36_lowerByte [simp]: "digit36 (lowerByte c) = digit36 c"
  by (cases "isDigit c") (simp_all add: digit36_def lowerByte_digit)

lemma lowerByte_marks [simp]:
  "lowerByte c = CHR ''_'' \<longleftrightarrow> c = CHR ''_''" "lowerByte c = CHR ''0'' \<longleftrightarrow> c = CHR ''0''"
  "lowerByte c = CHR '':'' \<longleftrightarrow> c = CHR '':''" "lowerByte c = CHR ''['' \<longleftrightarrow> c = CHR ''[''"
  "lowerByte c = CHR '']'' \<longleftrightarrow> c = CHR '']''" "lowerByte c = CHR ''/'' \<longleftrightarrow> c = CHR ''/''"
  "lowerByte c = CHR ''.'' \<longleftrightarrow> c = CHR ''.''" "lowerByte c = CHR ''-'' \<longleftrightarrow> c = CHR ''-''"
  "lowerByte c = CHR '','' \<longleftrightarrow> c = CHR '',''"
  by (rule lowerByte_eq; simp add: isUpper_def isLower_def)+

lemma ToLower_simps [simp]: "ToLower [] = []" "ToLower (c # s) = lowerByte c # ToLower s" "ToLower (s @ t) = ToLower s @ ToLower t"
  "length (ToLower s) = length s" "ToLower s = [] \<longleftrightarrow> s = []" "ToLower (ToLower s) = ToLower s"
  by (simp_all add: ToLower_def)

lemma set_ToLower: "d \<in> set (ToLower s) \<longleftrightarrow> (\<exists>c \<in> set s. lowerByte c = d)"
  by (auto simp: ToLower_def)

text \<open>Reading a number does not depend on the case of its letters.\<close>

lemma uint_loop_lower [simp]: "uint_loop b n (ToLower s) = uint_loop b n s"
  by (induction s arbitrary: n) (auto split: option.splits)

lemma underscore_loop_lower [simp]: "underscore_loop h i (ToLower s) = underscore_loop h i s"
  by (induction s arbitrary: i) auto

lemma uintBase_lower: "uintBase (ToLower s) = map_prod id ToLower (uintBase s)"
  by (auto simp: uintBase_def split: list.splits)

lemma underscoreOK_lower [simp]: "underscoreOK (ToLower s) = underscoreOK s"
proof (cases s)
  case (Cons c r)
  then show ?thesis by (cases r) (auto simp: underscoreOK_def)
qed (simp add: underscoreOK_def)

lemma ParseUint0_lower [simp]: "ParseUint0 (ToLower s) = ParseUint0 s"
  by (cases "uintBase s") (auto simp: ParseUint0_def uintBase_lower set_ToLower split: option.splits)

lemma fieldsBy_lower: "fieldsBy addressSep (ToLower cur) (ToLower s) = map ToLower (fieldsBy addressSep cur s)"
proof (induction s arbitrary: cur)
  case (Cons c s)
  have "addressSep (lowerByte c) = addressSep c" by (simp add: addressSep_def)
  then show ?case using Cons.IH [of "[]"] Cons.IH [of "cur @ [c]"] by simp
qed simp

lemma isASCII_lower [simp]: "isASCII (ToLower s) \<longleftrightarrow> isASCII s"
proof -
  have "code (lowerByte c) < 128 \<longleftrightarrow> code c < 128" for c
    using code_lowerByte [of c] by (auto simp: isUpper_def simp flip: of_nat_of_char [where 'a = int])
  then show ?thesis by (auto simp: isASCII_def ToLower_def list_all_iff)
qed

lemma LooksLikeAddress_lower: "isASCII s \<Longrightarrow> LooksLikeAddress d (ToLower s) = LooksLikeAddress d s"
  using fieldsBy_lower [of "[]" s]
  by (auto simp: LooksLikeAddress_def foldDigits_def set_ToLower list_all_iff Let_def)

lemma lower_fixed: "set (ToLower s) \<subseteq> {c. isDigit c} \<union> {CHR ''.'', CHR ''/''} \<Longrightarrow> ToLower s = s"
  by (induction s) (auto simp: lowerByte_digit)

lemma judgeHost_lower:
  assumes "judgeHost d h False = Inr c" "cKind c = KindHostname" "isASCII h"
  shows "judgeHost d (ToLower h) False = Inr c" "CHR '':'' \<notin> set h" "CHR ''['' \<notin> set h" "CHR '']'' \<notin> set h" "cValue c = ToLower h"
proof -
  have n: "ParseAddr h = None" "ParsePrefix h = None" "\<not> LooksLikeAddress d h" and
    c: "c = \<lparr>cValue = ToLower h, cKind = KindHostname, cAddr = NoAddr, cPrefix = zeroPrefix\<rparr>"
    using assms(1,2) by (auto simp: judgeHost_def addressOf_def Let_def split: option.splits if_splits)
  then have m: "CHR '':'' \<notin> set h \<and> CHR ''['' \<notin> set h \<and> CHR '']'' \<notin> set h \<or> h = []"
    using assms(3) by (auto simp: LooksLikeAddress_def foldDigits_def Let_def split: if_splits)
  then show "CHR '':'' \<notin> set h" "CHR ''['' \<notin> set h" "CHR '']'' \<notin> set h" by auto
  then have nc: "CHR '':'' \<notin> set (ToLower h)" by (simp add: set_ToLower)
  have "ParseAddr (ToLower h) = None"
  proof (rule ccontr)
    assume "ParseAddr (ToLower h) \<noteq> None"
    then obtain a where a: "ParseAddr (ToLower h) = Some a" by auto
    then have "ToLower h = h" using ParseAddr_no_colon [OF a nc] by (intro lower_fixed) auto
    then show False using a n(1) by simp
  qed
  moreover have "ParsePrefix (ToLower h) = None"
  proof (rule ccontr)
    assume "ParsePrefix (ToLower h) \<noteq> None"
    then obtain p where p: "ParsePrefix (ToLower h) = Some p" by auto
    then have "ToLower h = h" using ParsePrefix_Some(4) [OF p nc] by (intro lower_fixed) auto
    then show False using p n(2) by simp
  qed
  ultimately show "judgeHost d (ToLower h) False = Inr c"
    using n(3) c assms(3) by (simp add: judgeHost_def LooksLikeAddress_lower)
  show "cValue c = ToLower h" by (simp add: c)
qed


section \<open>Canonical forms\<close>

lemma normaliseHost_length: "length (fst (normaliseHost h)) \<le> length h"
proof -
  have t: "length (TrimSpace s) \<le> length s" for s using TrimSpace_parts(1) [of s] by (metis length_append le_add1 le_add2 order_trans)
  have b: "length (trimSuffixByte c s) \<le> length s" for c s by (simp add: trimSuffixByte_def)
  have d: "length (drop 1 s) \<le> length s" for s :: string by simp
  have p: "length x \<le> length s" if sp: "SplitHostPort s = Some (x, y)" for s x y
  proof -
    obtain l r where c: "cutLastByte (CHR '':'') s = Some (l, r)"
      using sp by (cases "cutLastByte (CHR '':'') s") (auto simp: SplitHostPort_def)
    then have "length l \<le> length s" using cutLastByte_Some [OF c] by simp
    moreover have "length (drop 1 k) \<le> length s" if "cutByte (CHR '']'') s = Some (k, q)" for k q
      using cutByte_Some [OF that] by simp
    ultimately show ?thesis using sp c
      by (auto simp: SplitHostPort_def split: option.splits if_splits)
  qed
  have A: "length (trimSuffixByte (CHR ''.'') (TrimSpace x)) \<le> length h" if "SplitHostPort (TrimSpace h) = Some (x, y)" for x y
    using b [of "CHR ''.''" "TrimSpace x"] t [of x] p [OF that] t [of h] by linarith
  have B: "length (trimSuffixByte (CHR ''.'') (TrimSpace (trimSuffixByte (CHR '']'') (drop 1 (TrimSpace h))))) \<le> length h"
    using b [of "CHR ''.''" "TrimSpace (trimSuffixByte (CHR '']'') (drop 1 (TrimSpace h)))"]
      t [of "trimSuffixByte (CHR '']'') (drop 1 (TrimSpace h))"] b [of "CHR '']''" "drop 1 (TrimSpace h)"] d [of "TrimSpace h"]
      t [of h] by linarith
  have C: "length (trimSuffixByte (CHR ''.'') (TrimSpace h)) \<le> length h"
    using b [of "CHR ''.''" "TrimSpace h"] t [of h] by linarith
  show ?thesis using A B C by (auto simp: normaliseHost_def Let_def split: option.splits)
qed

text \<open>The documented behaviour of \<open>url.Parse\<close> the canonical form rests on: the host is part of the text.\<close>

definition urlWithin :: "(string \<Rightarrow> (string \<times> string) option) \<Rightarrow> bool" where
  "urlWithin urlParse \<longleftrightarrow> urlForm urlParse \<and> (\<forall>s scheme h. urlParse s = Some (scheme, h) \<longrightarrow> length h \<le> length s)"

lemma Canonicalise_host:
  assumes "Canonicalise u d raw = Inr c" "urlWithin u"
  shows "\<exists>h br. h \<noteq> [] \<and> length h \<le> MaxLength \<and> judgeHost d h br = Inr c"
proof -
  let ?s = "TrimSpace raw"
  define host where "host = (case u ?s of None \<Rightarrow> ?s | Some (scheme, h) \<Rightarrow> if scheme \<noteq> [] \<and> h \<noteq> [] then h else ?s)"
  have s: "?s \<noteq> []" "length ?s \<le> MaxLength" "fst (normaliseHost host) \<noteq> []"
    "judgeHost d (fst (normaliseHost host)) (snd (normaliseHost host)) = Inr c"
    using assms(1) unfolding Canonicalise_def Let_def host_def [symmetric]
    by (auto split: if_splits prod.splits)
  have "length host \<le> length ?s" using assms(2) by (auto simp: host_def urlWithin_def split: option.splits)
  then show ?thesis using s normaliseHost_length [of host] by (meson order_trans)
qed

lemma judgeHost_cases:
  assumes "judgeHost d h br = Inr c"
  obtains (address) a where "c = addressOf a" "a \<noteq> NoAddr"
  | (range) p where "c = \<lparr>cValue = Prefix_String (Masked p), cKind = KindPrefix, cAddr = NoAddr, cPrefix = Masked p\<rparr>"
      "plain (pAddr p)" "0 \<le> pBits p" "pBits p < BitLen (pAddr p)"
  | (name) "cKind c = KindHostname" "judgeHost d h False = Inr c"
proof (cases "ParseAddr h")
  case (Some a)
  then show thesis using assms address [of a] ParseAddr_valid [of h] by (simp add: judgeHost_def)
next
  case A: None
  show thesis
  proof (cases "ParsePrefix h")
    case None
    then show thesis using A assms name by (auto simp: judgeHost_def split: if_splits)
  next
    case (Some p)
    note f = ParsePrefix_Some(1-3) [OF Some]
    show thesis
    proof (cases "pBits p = BitLen (pAddr p)")
      case True
      have "pAddr p \<noteq> NoAddr" using f(1) by (auto simp: plain_def)
      then show thesis using A Some True assms address [of "pAddr p"] by (simp add: judgeHost_def)
    next
      case False
      then show thesis using A Some assms range [of p] f by (simp add: judgeHost_def Let_def)
    qed
  qed
qed

text \<open>A host name that is already trimmed: no white space at its ends and no further root label.\<close>

definition tidyName :: "string \<Rightarrow> bool" where
  "tidyName v \<longleftrightarrow> isASCII v \<and> TrimSpace v = v \<and> last v \<noteq> CHR ''.''"



section \<open>Examples\<close>

lemmas name_defs = Canonicalise_def judgeHost_def normaliseHost_def SplitHostPort_def cutLastByte_def trimSuffixByte_def
  ParseAddr_def parseIPv4_def ParsePrefix_def LooksLikeAddress_def foldDigits_def isASCII_def addressSep_def
  ParseUint0_def uintBase_def digit36_def isDigit_def digitVal_def isLower_def lowerByte_def isUpper_def
  ToLower_def MaxLength_def Let_def graphic_def

abbreviation named :: "string \<Rightarrow> Canonical" where
  "named v \<equiv> \<lparr>cValue = v, cKind = KindHostname, cAddr = NoAddr, cPrefix = zeroPrefix\<rparr>"

lemma ex_name: "Canonicalise (\<lambda>_. None) (\<lambda>_. False) ''Ab.'' = Inr (named ''ab'')"
  by (simp add: name_defs char_of_eq_iff)


text \<open>
  A name with two root labels is stored with one of them left, and that stored value is then not
  in canonical form: both enforcement sites refuse the target that planning produced.
\<close>

theorem two_roots_not_canonical:
  "Canonicalise (\<lambda>_. None) (\<lambda>_. False) ''ab..'' = Inr (named ''ab.'')
   \<and> Matches (\<lambda>_. None) (\<lambda>_. False) ''ab.'' = (named ''ab'', False)"
  by (simp add: Matches_def name_defs char_of_eq_iff)

text \<open>
  The mathematical digits U+1D7CE to U+1D7FF: five alphabets of ten digits without a gap. Counting
  back to the first rune that is no digit gives 9 for all but the first ten.
\<close>

definition mathDigit :: "nat \<Rightarrow> bool" where "mathDigit r \<longleftrightarrow> 120782 \<le> r \<and> r \<le> 120831"

definition doubleStruckOne :: string where "doubleStruckOne = map char_of [240, 157, 159, 153 :: nat]"

lemma foldDigits_ascii: "code c < 128 \<Longrightarrow> foldDigits_loop d (c # s) = c # foldDigits_loop d s"
  by (subst foldDigits_loop.simps) (simp add: decodeRune_def runeWidth_def encodeRune_def Let_def)

lemma digitValue_math: "digitValue mathDigit 120793 = 9"
  by (simp add: digitValue_def mathDigit_def upt_rec)

lemma foldDigits_struck: "foldDigits_loop mathDigit doubleStruckOne = ''9''"
proof -
  have w: "runeWidth doubleStruckOne = 4"
    by (simp add: runeWidth_def doubleStruckOne_def between_def cont_def)
  then have "decodeRune doubleStruckOne = (120793, 4)"
    by (simp add: decodeRune_def Let_def) (simp add: doubleStruckOne_def)
  moreover have "drop 4 doubleStruckOne = []" "doubleStruckOne \<noteq> []" by (simp_all add: doubleStruckOne_def)
  moreover have "foldDigits_loop mathDigit [] = []" by (simp add: foldDigits_loop.simps)
  ultimately show ?thesis
    by (subst foldDigits_loop.simps) (simp add: digitValue_math mathDigit_def encodeRune_def char_of_eq_iff)
qed

lemma TrimSpace_struck: "TrimSpace (''192.0.2.0'' @ doubleStruckOne) = ''192.0.2.0'' @ doubleStruckOne"
proof -
  have "stripSeqs spaceSeqs (''192.0.2.0'' @ doubleStruckOne) = ''192.0.2.0'' @ doubleStruckOne"
    by (rule stripSeqs_id) (auto simp: spaceSeqs_def char_of_eq_iff)
  moreover have "stripSeqs (map rev spaceSeqs) (rev (''192.0.2.0'' @ doubleStruckOne)) = rev (''192.0.2.0'' @ doubleStruckOne)"
    by (rule stripSeqs_id) (auto simp: spaceSeqs_def doubleStruckOne_def)
  ultimately show ?thesis by (simp only: TrimSpace_def rev_rev_ident)
qed

text \<open>
  A numeric address can pass as a host name: in \<open>192.0.2.0\<close> followed by a double-struck digit one
  that digit folds to nine, \<open>09\<close> is no number in any base, and so the text is not taken for an
  address, as it is with the digit one.
\<close>

theorem folded_digit_escapes:
  "foldDigits mathDigit (''192.0.2.0'' @ doubleStruckOne) = ''192.0.2.09''
   \<and> Canonicalise (\<lambda>_. None) mathDigit (''192.0.2.0'' @ doubleStruckOne) = Inr (named (''192.0.2.0'' @ doubleStruckOne))
   \<and> LooksLikeAddress mathDigit ''192.0.2.01''"
proof -
  let ?s = "''192.0.2.0'' @ doubleStruckOne"
  have f: "foldDigits mathDigit ?s = ''192.0.2.09''"
    by (simp add: foldDigits_def foldDigits_ascii foldDigits_struck) (simp add: isASCII_def doubleStruckOne_def)
  have "\<not> LooksLikeAddress mathDigit ?s"
    unfolding LooksLikeAddress_def f by (simp add: name_defs)
  moreover have "normaliseHost ?s = (?s, False)"
    using TrimSpace_struck by (simp add: normaliseHost_def SplitHostPort_def cutLastByte_def doubleStruckOne_def trimSuffixByte_def Let_def char_of_eq_iff
        eq_commute [of "CHR '']''" "char_of n" for n])
  moreover have "ParseAddr ?s = None" "ParsePrefix ?s = None" "ToLower ?s = ?s" "length ?s \<le> MaxLength"
    by (simp_all add: ParseAddr_def parseIPv4_def ParsePrefix_def cutLastByte_def doubleStruckOne_def isDigit_def digitVal_def Let_def
        ToLower_def lowerByte_def isUpper_def MaxLength_def char_of_eq_iff)
  ultimately have "Canonicalise (\<lambda>_. None) mathDigit ?s = Inr (named ?s)"
    using TrimSpace_struck by (simp add: Canonicalise_def judgeHost_def Let_def)
  moreover have "LooksLikeAddress mathDigit ''192.0.2.01''" by (simp add: name_defs)
  ultimately show ?thesis using f by blast
qed

end
