(* ===== verification/Go_Json.thy ===== *)
theory Go_Json
  imports Canonical_Target
begin

text \<open>
  What the code uses of the package \<open>encoding/json\<close>: \<open>json.Valid\<close> and the decoding of an object into
  the fields of a struct. A text is read into a tree, with the strings unquoted as the package does it:
  a lone half of a surrogate pair and a byte that is no UTF-8 become U+FFFD. Numbers are kept as they are
  written.
\<close>

section \<open>Texts\<close>

datatype json =
    JNull
  | JBool bool
  | JNumber string
  | JString string
  | JArray "json list"
  | JObject "(string \<times> json) list"

definition jws :: "string \<Rightarrow> string" where
  "jws s = dropWhile (\<lambda>c. c \<in> {CHR '' '', CHR 0x09, CHR 0x0A, CHR 0x0D}) s"

lemma jws_length [simp]: "length (jws s) \<le> length s"
  by (simp add: jws_def length_dropWhile_le)

subsection \<open>Strings\<close>

definition isHex :: "char \<Rightarrow> bool" where
  "isHex c \<longleftrightarrow> isDigit c \<or> c \<in> set ''abcdefABCDEF''"

definition hexVal :: "char \<Rightarrow> nat" where
  "hexVal c = (if isDigit c then digitVal c else if isLower c then code c - 87 else code c - 55)"

fun getu4 :: "string \<Rightarrow> (nat \<times> string) option" where
  "getu4 (a # b # c # d # s) =
     (if isHex a \<and> isHex b \<and> isHex c \<and> isHex d
      then Some (4096 * hexVal a + 256 * hexVal b + 16 * hexVal c + hexVal d, s) else None)"
| "getu4 _ = None"

definition surrogate :: "nat \<Rightarrow> bool" where "surrogate r \<longleftrightarrow> 0xD800 \<le> r \<and> r < 0xE000"

text \<open>The second half of a surrogate pair, when one follows.\<close>

fun lowHalf :: "nat \<Rightarrow> string \<Rightarrow> (nat \<times> string) option" where
  "lowHalf r (x # y # s) =
     (if x = CHR 0x5C \<and> y = CHR ''u''
      then case getu4 s of
             None \<Rightarrow> None
           | Some (r2, t) \<Rightarrow>
               if r < 0xDC00 \<and> 0xDC00 \<le> r2 \<and> r2 < 0xE000
               then Some (0x10000 + (r - 0xD800) * 1024 + (r2 - 0xDC00), t) else None
      else None)"
| "lowHalf r _ = None"

text \<open>The rune of an escape, from the byte after the backslash, and the rest.\<close>

definition jescape :: "string \<Rightarrow> (nat \<times> string) option" where
  "jescape s =
     (case s of
        [] \<Rightarrow> None
      | e # t \<Rightarrow>
          if e = CHR 0x22 \<or> e = CHR 0x5C \<or> e = CHR ''/'' then Some (code e, t)
          else if e = CHR ''b'' then Some (8, t)
          else if e = CHR ''f'' then Some (12, t)
          else if e = CHR ''n'' then Some (10, t)
          else if e = CHR ''r'' then Some (13, t)
          else if e = CHR ''t'' then Some (9, t)
          else if e = CHR ''u'' then
            (case getu4 t of
               None \<Rightarrow> None
             | Some (r, u) \<Rightarrow>
                 if surrogate r then (case lowHalf r u of Some p \<Rightarrow> Some p | None \<Rightarrow> Some (runeError, u))
                 else Some (r, u))
          else None)"

lemma getu4_length: "getu4 s = Some (r, t) \<Longrightarrow> length t < length s"
  by (cases s rule: getu4.cases) (auto split: if_splits)

lemma lowHalf_length: "lowHalf r s = Some (r', t) \<Longrightarrow> length t < length s"
  by (cases "(r, s)" rule: lowHalf.cases) (auto split: if_splits option.splits dest: getu4_length)

lemma jescape_length: "jescape s = Some (r, t) \<Longrightarrow> length t < length s"
  by (auto simp: jescape_def split: list.splits if_splits option.splits dest!: getu4_length lowHalf_length)

text \<open>The text of a string from the byte after its opening quote, and the rest after the closing one.\<close>

function jstring :: "string \<Rightarrow> (string \<times> string) option" where
  "jstring s =
     (case s of
        [] \<Rightarrow> None
      | c # t \<Rightarrow>
          if c = CHR 0x22 then Some ([], t)
          else if c = CHR 0x5C then
            (case jescape t of
               None \<Rightarrow> None
             | Some (r, u) \<Rightarrow> map_option (apfst ((@) (encodeRune r))) (jstring u))
          else if byte c < 0x20 then None
          else map_option (apfst ((@) (encodeRune (fst (decodeRune s))))) (jstring (drop (runeWidth s) s)))"
  by pat_completeness auto
termination
  by (relation "measure length") (auto dest!: jescape_length simp: runeWidth_pos)

declare jstring.simps [simp del]

subsection \<open>Numbers and literals\<close>

definition jdigits :: "string \<Rightarrow> string option" where
  "jdigits s = (if s \<noteq> [] \<and> isDigit (hd s) then Some (dropWhile isDigit s) else None)"

definition jint :: "string \<Rightarrow> string option" where
  "jint s = (case s of [] \<Rightarrow> None | c # t \<Rightarrow> if c = CHR ''0'' then Some t else jdigits s)"

definition jfrac :: "string \<Rightarrow> string option" where
  "jfrac s = (case s of [] \<Rightarrow> Some s | c # t \<Rightarrow> if c = CHR ''.'' then jdigits t else Some s)"

definition jexp :: "string \<Rightarrow> string option" where
  "jexp s = (case s of [] \<Rightarrow> Some s
     | c # t \<Rightarrow> if c = CHR ''e'' \<or> c = CHR ''E''
               then jdigits (if t \<noteq> [] \<and> (hd t = CHR ''+'' \<or> hd t = CHR ''-'') then tl t else t) else Some s)"

definition jnumber :: "string \<Rightarrow> (json \<times> string) option" where
  "jnumber s =
     map_option (\<lambda>t. (JNumber (take (length s - length t) s), t))
       (Option.bind (jint (if s \<noteq> [] \<and> hd s = CHR ''-'' then tl s else s)) (\<lambda>s. Option.bind (jfrac s) jexp))"

definition jlit :: "string \<Rightarrow> json \<Rightarrow> string \<Rightarrow> (json \<times> string) option" where
  "jlit w v s = (if prefix w s then Some (v, drop (length w) s) else None)"

subsection \<open>Values\<close>

text \<open>
  Every two nested calls consume a byte, so twice the number of bytes is fuel enough; \<open>d\<close> counts the open
  brackets, which the library limits to 10000.
\<close>

fun jvalue :: "nat \<Rightarrow> nat \<Rightarrow> string \<Rightarrow> (json \<times> string) option"
and jelements :: "nat \<Rightarrow> nat \<Rightarrow> string \<Rightarrow> (json list \<times> string) option"
and jmembers :: "nat \<Rightarrow> nat \<Rightarrow> string \<Rightarrow> ((string \<times> json) list \<times> string) option" where
  "jvalue 0 d s = None"
| "jvalue (Suc n) d s =
     (case jws s of
        [] \<Rightarrow> None
      | c # t \<Rightarrow>
          if c = CHR 0x22 then map_option (apfst JString) (jstring t)
          else if c = CHR ''{'' then
            (if d \<ge> 10000 then None
             else case jws t of
                    e # u \<Rightarrow> if e = CHR ''}'' then Some (JObject [], u)
                            else map_option (apfst JObject) (jmembers n (Suc d) t)
                  | [] \<Rightarrow> None)
          else if c = CHR ''['' then
            (if d \<ge> 10000 then None
             else case jws t of
                    e # u \<Rightarrow> if e = CHR '']'' then Some (JArray [], u)
                            else map_option (apfst JArray) (jelements n (Suc d) t)
                  | [] \<Rightarrow> None)
          else if c = CHR ''t'' then jlit ''true'' (JBool True) (c # t)
          else if c = CHR ''f'' then jlit ''false'' (JBool False) (c # t)
          else if c = CHR ''n'' then jlit ''null'' JNull (c # t)
          else jnumber (c # t))"
| "jelements 0 d s = None"
| "jelements (Suc n) d s =
     (case jvalue n d s of
        None \<Rightarrow> None
      | Some (v, r) \<Rightarrow>
          (case jws r of
             [] \<Rightarrow> None
           | c # t \<Rightarrow>
               if c = CHR '']'' then Some ([v], t)
               else if c = CHR '','' then map_option (apfst ((#) v)) (jelements n d t)
               else None))"
| "jmembers 0 d s = None"
| "jmembers (Suc n) d s =
     (case jws s of [] \<Rightarrow> None
      | q # k \<Rightarrow>
          if q \<noteq> CHR 0x22 then None
          else case jstring k of None \<Rightarrow> None
               | Some (key, r) \<Rightarrow>
                   (case jws r of [] \<Rightarrow> None
                    | c # t \<Rightarrow>
                        if c \<noteq> CHR '':'' then None
                        else case jvalue n d t of None \<Rightarrow> None
                             | Some (v, r') \<Rightarrow>
                                 (case jws r' of [] \<Rightarrow> None
                                  | e # u \<Rightarrow>
                                      if e = CHR ''}'' then Some ([(key, v)], u)
                                      else if e = CHR '','' then map_option (apfst ((#) (key, v))) (jmembers n d u)
                                      else None)))"

definition jparse :: "string \<Rightarrow> json option" where
  "jparse s =
     (case jvalue (2 * length s + 1) 0 s of None \<Rightarrow> None | Some (v, r) \<Rightarrow> if jws r = [] then Some v else None)"

definition jsonValid :: "string \<Rightarrow> bool" where
  "jsonValid s \<longleftrightarrow> jparse s \<noteq> None"

section \<open>Structs\<close>

text \<open>
  A key names a field when the two agree up to case (\<open>foldName\<close>). The only runes beyond ASCII that fold to
  an ASCII letter are U+017F and U+212A.
\<close>

fun foldName :: "string \<Rightarrow> string" where
  "foldName [] = []"
| "foldName (c # s) =
     (if isLower c then char_of (code c - 32) # foldName s
      else case s of
             d # t \<Rightarrow>
               if c = CHR 0xC5 \<and> d = CHR 0xBF then CHR ''S'' # foldName t
               else (case t of
                       e # u \<Rightarrow> if c = CHR 0xE2 \<and> d = CHR 0x84 \<and> e = CHR 0xAA then CHR ''K'' # foldName u
                                else c # foldName s
                     | [] \<Rightarrow> c # foldName s)
           | [] \<Rightarrow> [c])"

text \<open>
  What a struct receives for one field: the values of the members that name it, in order. A value of the
  wrong kind is an error of the whole decoding; \<open>null\<close> changes nothing; the last value stays. A text that
  is no object, or \<open>null\<close>, is an error.
\<close>

definition members :: "json \<Rightarrow> (string \<times> json) list option" where
  "members v = (case v of JObject ms \<Rightarrow> Some ms | JNull \<Rightarrow> Some [] | _ \<Rightarrow> None)"

definition fieldValues :: "string \<Rightarrow> (string \<times> json) list \<Rightarrow> json list" where
  "fieldValues name ms = filter (\<lambda>v. v \<noteq> JNull) (map snd (filter (\<lambda>(k, v). foldName k = foldName name) ms))"

fun stringOf :: "json \<Rightarrow> string option" where
  "stringOf (JString s) = Some s"
| "stringOf _ = None"

definition stringField :: "string \<Rightarrow> (string \<times> json) list \<Rightarrow> string option" where
  "stringField name ms =
     (case those (map stringOf (fieldValues name ms)) of
        None \<Rightarrow> None
      | Some [] \<Rightarrow> Some []
      | Some vs \<Rightarrow> Some (last vs))"

text \<open>A struct whose only field is the string \<open>name\<close>.\<close>

definition decodeString :: "string \<Rightarrow> string \<Rightarrow> string option" where
  "decodeString name payload = Option.bind (jparse payload) (\<lambda>v. Option.bind (members v) (stringField name))"

lemma ex_json: "jsonValid ''{}''" "jsonValid ''[1, true, -2.5e+3]''" "\<not> jsonValid ''[1,]''"
  by code_simp+

end
