(* ===== verification/Result_Buffer.thy ===== *)
theory Result_Buffer
  imports Complex_Main Go_Prelude
begin

text \<open>
  \<open>internal/scanpoint/submit.go\<close>: the bounded buffer of results at the scan point, how a
  submission is cut into chunks, and how it is delivered with resumption.

  Go's \<open>int\<close> is 64 bits and every size here is a sum of lengths of slices in memory, so sizes are
  natural numbers. The ingest stream is an argument: one answer of the peer per message sent, and
  the answers that follow the last one.
\<close>

definition BufferSoftBytes :: nat where "BufferSoftBytes = 16 * 2 ^ 20"
definition BufferHardBytes :: nat where "BufferHardBytes = 64 * 2 ^ 20"
definition MaxObservationsPerChunk :: nat where "MaxObservationsPerChunk = 2000"
definition TargetChunkBytes :: nat where "TargetChunkBytes = 2 ^ 20"

text \<open>A \<open>float32\<close>: not a number, an infinity, or a finite value.\<close>

datatype float32 = NaN | Inf | Finite rat

record Observation =
  ObservationId :: string
  TaskId :: string
  ZoneId :: string
  ObservationType :: string
  Payload :: string
  Confidence :: float32
  ObservedAtUnix :: int

record Submission =
  SubmissionID :: string
  Observations :: "Observation list"
  bytes :: nat
  resumeFrom :: nat
  hasResume :: bool

record Submitter =
  queue :: "Submission list"
  buffered :: nat

definition NewSubmitter :: Submitter where
  "NewSubmitter = \<lparr>queue = [], buffered = 0\<rparr>"

section \<open>The buffer\<close>

datatype BackpressureState = PressureOK | PressureSoft | PressureHard

definition Pressure :: "Submitter \<Rightarrow> BackpressureState" where
  "Pressure s = (if buffered s \<ge> BufferHardBytes then PressureHard
     else if buffered s \<ge> BufferSoftBytes then PressureSoft else PressureOK)"

definition Buffered :: "Submitter \<Rightarrow> nat \<times> nat" where
  "Buffered s = (length (queue s), buffered s)"

definition obsBytes :: "Observation \<Rightarrow> nat" where
  "obsBytes o1 = length (Payload o1) + length (ObservationId o1) + length (TaskId o1) + 64"

text \<open>\<open>Inl\<close> is \<open>ErrBufferFull\<close> with the two sizes.\<close>

definition Enqueue :: "Submission \<Rightarrow> Submitter \<Rightarrow> (nat \<times> nat) + Submitter" where
  "Enqueue sub0 s =
     (let sub = sub0\<lparr>bytes := bytes sub0 + sum_list (map obsBytes (Observations sub0))\<rparr>
      in if buffered s + bytes sub > BufferHardBytes \<and> length (queue s) > 0
         then Inl (buffered s, bytes sub)
         else Inr (s\<lparr>queue := queue s @ [sub], buffered := buffered s + bytes sub\<rparr>))"

definition head :: "Submitter \<Rightarrow> Submission option" where
  "head s = (case queue s of [] \<Rightarrow> None | sub # _ \<Rightarrow> Some sub)"

text \<open>
  Pointers are compared, and the only submission dropped is the one \<open>head\<close> returned; the position
  of the first entry with the submission's id stands for the pointer. \<open>s.buffered -= sub.bytes\<close> and
  the clamp at zero are subtraction on naturals.
\<close>

fun removeSub :: "string \<Rightarrow> Submission list \<Rightarrow> (Submission list \<times> Submission) option" where
  "removeSub i [] = None"
| "removeSub i (q # qs) =
     (if SubmissionID q = i then Some (qs, q)
      else map_option (\<lambda>(rest, x). (q # rest, x)) (removeSub i qs))"

definition drop_sub :: "Submission \<Rightarrow> Submitter \<Rightarrow> Submitter" where
  "drop_sub sub s =
     (case removeSub (SubmissionID sub) (queue s) of
        None \<Rightarrow> s
      | Some (rest, q) \<Rightarrow> s\<lparr>queue := rest, buffered := buffered s - bytes q\<rparr>)"

section \<open>Chunks\<close>

fun chunk_loop :: "Observation list \<Rightarrow> Observation list list \<Rightarrow> Observation list \<Rightarrow> nat \<Rightarrow> Observation list list" where
  "chunk_loop [] out cur size1 = (if length cur > 0 then out @ [cur] else out)"
| "chunk_loop (o1 # os) out cur size1 =
     (let n = length (Payload o1) + 128
      in if length cur > 0 \<and> (length cur \<ge> MaxObservationsPerChunk \<or> size1 + n > TargetChunkBytes)
         then chunk_loop os (out @ [cur]) [o1] n
         else chunk_loop os out (cur @ [o1]) (size1 + n))"

definition chunk :: "Submission \<Rightarrow> Observation list list" where
  "chunk sub = (if length (Observations sub) = 0 then [[]] else chunk_loop (Observations sub) [] [] 0)"

section \<open>Delivery\<close>

datatype SubmitStatus = ACCEPTED | ACCEPTED_QUARANTINED | REJECTED_DUPLICATE | REJECTED_MALFORMED | RETRY_LATER

text \<open>
  What follows a \<open>Send\<close>: the send or the receive fails, the stream ends, or an acknowledgement
  arrives (\<open>None\<close> is a status this build does not know).
\<close>

datatype answer = Failed | Ended | Ack "SubmitStatus option" nat

record ResultChunk =
  ChunkIndex :: nat
  Final :: bool
  chObservations :: "Observation list"

text \<open>
  The loop over the chunks from index \<open>i\<close>: the chunks sent, the submission with its resumption
  point, and the verdict on the buffer if the loop returns (\<open>None\<close> when it runs to its end). The
  peer's answer may depend on the chunk sent. The pause of \<open>RetryAfterMs\<close> changes nothing unless the
  context ends during it, which is \<open>Failed\<close>.
\<close>

fun send_loop :: "(ResultChunk \<Rightarrow> answer) \<Rightarrow> nat \<Rightarrow> nat \<Rightarrow> Observation list list \<Rightarrow> Submission \<Rightarrow>
    ResultChunk list \<times> Submission \<times> bool option" where
  "send_loop peer ntotal i [] sub = ([], sub, None)"
| "send_loop peer ntotal i (c # cs) sub =
     (if hasResume sub \<and> i \<le> resumeFrom sub then send_loop peer ntotal (Suc i) cs sub
      else let m = \<lparr>ChunkIndex = i, Final = (i = ntotal - 1), chObservations = c\<rparr>
           in case peer m of
                Failed \<Rightarrow> ([m], sub, Some True)
              | Ended \<Rightarrow> ([m], sub, Some True)
              | Ack st last1 \<Rightarrow>
                  (case st of
                     Some ACCEPTED \<Rightarrow>
                       (let sub' = (if last1 \<ge> i then sub\<lparr>resumeFrom := last1, hasResume := True\<rparr> else sub);
                            (ms, sub'', v) = send_loop peer ntotal (Suc i) cs sub'
                        in (m # ms, sub'', v))
                   | Some ACCEPTED_QUARANTINED \<Rightarrow> ([m], sub, Some False)
                   | Some REJECTED_DUPLICATE \<Rightarrow> ([m], sub, Some False)
                   | Some REJECTED_MALFORMED \<Rightarrow> ([m], sub, Some False)
                   | Some RETRY_LATER \<Rightarrow> ([m], sub, Some True)
                   | None \<Rightarrow> ([m], sub, Some True)))"

text \<open>The answers after \<open>CloseSend\<close>; an answer of unknown status is skipped.\<close>

fun trailing :: "answer list \<Rightarrow> bool" where
  "trailing [] = True"
| "trailing (Failed # as) = True"
| "trailing (Ended # as) = False"
| "trailing (Ack None n # as) = trailing as"
| "trailing (Ack (Some RETRY_LATER) n # as) = True"
| "trailing (Ack (Some st) n # as) = False"

text \<open>
  One attempt: \<open>None\<close> as a peer is a connection that cannot be made. The result is what was sent,
  the submission and whether to keep it.
\<close>

definition deliver :: "((ResultChunk \<Rightarrow> answer) \<times> answer list) option \<Rightarrow> Submission \<Rightarrow>
    ResultChunk list \<times> Submission \<times> bool" where
  "deliver conn sub =
     (case conn of
        None \<Rightarrow> ([], sub, True)
      | Some (peer, after) \<Rightarrow>
          (case send_loop peer (length (chunk sub)) 0 (chunk sub) sub of
             (ms, sub', Some keep) \<Rightarrow> (ms, sub', keep)
           | (ms, sub', None) \<Rightarrow> (ms, sub', trailing after)))"

text \<open>One turn of \<open>Run\<close>: the head of the queue is delivered and dropped unless it is kept.\<close>

definition updateHead :: "Submission \<Rightarrow> Submitter \<Rightarrow> Submitter" where
  "updateHead sub s = s\<lparr>queue := sub # tl (queue s)\<rparr>"

definition Run_once :: "((ResultChunk \<Rightarrow> answer) \<times> answer list) option \<Rightarrow> Submitter \<Rightarrow> Submitter" where
  "Run_once conn s =
     (case head s of
        None \<Rightarrow> s
      | Some sub \<Rightarrow>
          (case deliver conn sub of (ms, sub', keep) \<Rightarrow>
             if keep then updateHead sub' s else drop_sub sub' (updateHead sub' s)))"

text \<open>
  The turns of \<open>Run\<close> that one submission at the head takes, one connection per turn: the chunks Core
  accepted, the submission and whether it is still held. A turn that does not keep it is the last.
\<close>

fun acceptedOf :: "((ResultChunk \<Rightarrow> answer) \<times> answer list) option \<Rightarrow> ResultChunk list \<Rightarrow> ResultChunk list" where
  "acceptedOf None ms = []"
| "acceptedOf (Some (peer, after)) ms =
     filter (\<lambda>m. case peer m of Ack (Some ACCEPTED) n \<Rightarrow> True | _ \<Rightarrow> False) ms"

fun attempts :: "((ResultChunk \<Rightarrow> answer) \<times> answer list) option list \<Rightarrow> Submission \<Rightarrow>
    ResultChunk list \<times> Submission \<times> bool" where
  "attempts [] sub = ([], sub, True)"
| "attempts (conn # conns) sub =
     (case deliver conn sub of (ms, sub', keep) \<Rightarrow>
        if keep then case attempts conns sub' of (acc, sub'', k) \<Rightarrow> (acceptedOf conn ms @ acc, sub'', k)
        else (acceptedOf conn ms, sub', False))"

section \<open>Chunks hold the observations\<close>

lemma chunk_loop_concat: "concat (chunk_loop os out cur n) = concat out @ cur @ os"
  by (induction os out cur n rule: chunk_loop.induct) (auto simp: Let_def)

definition chunkBytes :: "Observation list \<Rightarrow> nat" where
  "chunkBytes c = sum_list (map (\<lambda>x. length (Payload x) + 128) c)"

definition chunkOK :: "Observation list \<Rightarrow> bool" where
  "chunkOK c \<longleftrightarrow> c \<noteq> [] \<and> length c \<le> MaxObservationsPerChunk \<and> (chunkBytes c \<le> TargetChunkBytes \<or> length c = 1)"

lemma chunk_loop_OK:
  assumes "list_all chunkOK out" "cur = [] \<or> chunkOK cur" "n = chunkBytes cur"
  shows "list_all chunkOK (chunk_loop os out cur n)"
  using assms
proof (induction os out cur n rule: chunk_loop.induct)
  case (1 out cur n)
  then show ?case by auto
next
  case (2 x os out cur n)
  have one: "chunkOK [x]" by (simp add: chunkOK_def MaxObservationsPerChunk_def)
  show ?case
  proof (cases "length cur > 0 \<and> (length cur \<ge> MaxObservationsPerChunk \<or> n + (length (Payload x) + 128) > TargetChunkBytes)")
    case True
    then show ?thesis using 2 one by (auto simp: Let_def chunkBytes_def)
  next
    case False
    then have "chunkOK (cur @ [x])"
      using 2(4,5) one by (cases "cur = []") (auto simp: chunkOK_def chunkBytes_def)
    then show ?thesis
      using False 2 by (auto simp: Let_def chunkBytes_def)
  qed
qed


section \<open>Nothing is dropped before Core has it\<close>

text \<open>
  What the ingest protocol documents of a peer: an acceptance never acknowledges a chunk beyond the
  one just sent. \<open>refuses\<close> is a final verdict other than acceptance.
\<close>

definition truthful :: "((ResultChunk \<Rightarrow> answer) \<times> answer list) option \<Rightarrow> bool" where
  "truthful conn \<longleftrightarrow> (\<forall>peer after m n. conn = Some (peer, after) \<longrightarrow> peer m = Ack (Some ACCEPTED) n \<longrightarrow> n \<le> ChunkIndex m)"

definition refuses :: "((ResultChunk \<Rightarrow> answer) \<times> answer list) option \<Rightarrow> bool" where
  "refuses conn \<longleftrightarrow> (\<exists>peer after m n. conn = Some (peer, after) \<and>
     peer m \<in> {Ack (Some ACCEPTED_QUARANTINED) n, Ack (Some REJECTED_DUPLICATE) n, Ack (Some REJECTED_MALFORMED) n})"

definition holds :: "Observation list list \<Rightarrow> ResultChunk list \<Rightarrow> nat \<Rightarrow> bool" where
  "holds cs acc i \<longleftrightarrow> (\<exists>m \<in> set acc. ChunkIndex m = i \<and> chObservations m = cs ! i)"

text \<open>What Core holds covers the resumption point.\<close>

definition resumable :: "Observation list list \<Rightarrow> ResultChunk list \<Rightarrow> Submission \<Rightarrow> bool" where
  "resumable cs acc sub \<longleftrightarrow> (hasResume sub \<longrightarrow> (\<forall>i \<le> resumeFrom sub. holds cs acc i))"

lemma holds_mono: "holds cs acc i \<Longrightarrow> set acc \<subseteq> set acc' \<Longrightarrow> holds cs acc' i"
  by (auto simp: holds_def)

lemma resumable_mono: "resumable cs acc sub \<Longrightarrow> set acc \<subseteq> set acc' \<Longrightarrow> resumable cs acc' sub"
  by (auto simp: resumable_def intro: holds_mono)

lemma send_loop_holds:
  assumes "send_loop peer ntotal i (drop i cs) sub = (ms, sub', v)" "truthful (Some (peer, after))"
    "resumable cs acc sub" "\<forall>k < i. holds cs acc k" "\<not> refuses (Some (peer, after))"
    "acc' = acc @ acceptedOf (Some (peer, after)) ms"
  shows "resumable cs acc' sub' \<and> v \<noteq> Some False \<and> (v = None \<longrightarrow> (\<forall>k < length cs. holds cs acc' k))
    \<and> Observations sub' = Observations sub"
  using assms
proof (induction "length cs - i" arbitrary: i sub ms acc)
  case 0
  then show ?case by (auto intro: holds_mono resumable_mono)
next
  case (Suc d)
  then have i: "i < length cs" by simp
  then have d: "drop i cs = cs ! i # drop (Suc i) cs" by (simp add: Cons_nth_drop_Suc)
  let ?m = "\<lparr>ChunkIndex = i, Final = (i = ntotal - 1), chObservations = cs ! i\<rparr>"
  show ?case
  proof (cases "hasResume sub \<and> i \<le> resumeFrom sub")
    case True
    then have "holds cs acc i" using Suc.prems(3) by (simp add: resumable_def)
    then have all: "\<forall>k < Suc i. holds cs acc k" using Suc.prems(4) by (simp add: less_Suc_eq)
    show ?thesis
      by (rule Suc.hyps(1) [of "Suc i" sub ms acc]) (use Suc.hyps(2) Suc.prems True d all in auto)
  next
    case False
    show ?thesis
    proof (cases "peer ?m")
      case (Ack st last1)
      show ?thesis
      proof (cases "st = Some ACCEPTED")
        case True
        let ?sub = "if last1 \<ge> i then sub\<lparr>resumeFrom := last1, hasResume := True\<rparr> else sub"
        obtain ms' where ms: "ms = ?m # ms'"
          and rec: "send_loop peer ntotal (Suc i) (drop (Suc i) cs) ?sub = (ms', sub', v)"
          using Suc.prems(1) False Ack True by (auto simp: d Let_def split: prod.splits)
        have "last1 \<le> i" using Suc.prems(2) Ack True by (fastforce simp: truthful_def)
        have all: "\<forall>k < Suc i. holds cs (acc @ [?m]) k"
          using Suc.prems(4) by (auto simp: holds_def less_Suc_eq)
        moreover have "resumable cs (acc @ [?m]) ?sub"
        proof (cases "last1 \<ge> i")
          case True
          then show ?thesis using all \<open>last1 \<le> i\<close> by (simp add: resumable_def)
        next
          case False
          then show ?thesis using resumable_mono [OF Suc.prems(3), of "acc @ [?m]"] by auto
        qed
        moreover have "acc' = (acc @ [?m]) @ acceptedOf (Some (peer, after)) ms'"
          using Suc.prems(6) ms Ack True by simp
        ultimately show ?thesis
          using Suc.hyps(1) [of "Suc i" ?sub ms' "acc @ [?m]"] Suc.hyps(2) Suc.prems(2,5) rec by auto
      next
        case no: False
        have "st \<noteq> Some ACCEPTED_QUARANTINED" "st \<noteq> Some REJECTED_DUPLICATE" "st \<noteq> Some REJECTED_MALFORMED"
          using Suc.prems(5) Ack by (auto simp: refuses_def)
        then show ?thesis
          using no False Ack Suc.prems(1,3,6)
          by (cases st) (auto simp: d Let_def intro: resumable_mono split: SubmitStatus.splits)
      qed
    qed (use False Suc.prems(1,3,6) in \<open>auto simp: d Let_def intro: resumable_mono\<close>)
  qed
qed

lemma deliver_holds:
  assumes "deliver conn sub = (ms, sub', keep)" "truthful conn" "resumable (chunk sub) acc sub" "\<not> refuses conn"
  shows "resumable (chunk sub) (acc @ acceptedOf conn ms) sub' \<and> chunk sub' = chunk sub
    \<and> (\<not> keep \<longrightarrow> (\<forall>k < length (chunk sub). holds (chunk sub) (acc @ acceptedOf conn ms) k))"
proof (cases conn)
  case None
  then show ?thesis using assms by (auto simp: deliver_def)
next
  case (Some pa)
  obtain peer after where pa: "pa = (peer, after)" by (cases pa)
  obtain ms1 sub1 v where sl: "send_loop peer (length (chunk sub)) 0 (chunk sub) sub = (ms1, sub1, v)"
    by (cases "send_loop peer (length (chunk sub)) 0 (chunk sub) sub")
  then have eq: "ms1 = ms" "sub1 = sub'" "v = Some keep \<or> v = None"
    using assms(1) Some pa by (auto simp: deliver_def split: option.splits)
  then have "chunk sub' = chunk sub" if "Observations sub' = Observations sub"
    using that by (simp add: chunk_def)
  then show ?thesis
    using send_loop_holds [where i = 0 and cs = "chunk sub" and after = after, OF _ _ assms(3), of peer
        "length (chunk sub)" ms1 sub1 v] sl eq assms(2,4) Some pa by auto
qed

lemma attempts_hold:
  assumes "attempts conns sub = (acc, sub', False)" "\<forall>c \<in> set conns. truthful c \<and> \<not> refuses c"
    "resumable (chunk sub) acc0 sub" "k < length (chunk sub)"
  shows "holds (chunk sub) (acc0 @ acc) k"
  using assms
proof (induction conns arbitrary: sub acc acc0)
  case (Cons conn conns)
  obtain ms sub1 keep where dl: "deliver conn sub = (ms, sub1, keep)" by (cases "deliver conn sub")
  note dh = deliver_holds [OF dl _ Cons.prems(3)]
  show ?case
  proof (cases keep)
    case True
    then obtain acc1 where "attempts conns sub1 = (acc1, sub', False)" "acc = acceptedOf conn ms @ acc1"
      using Cons.prems(1) dl by (auto split: prod.splits)
    then show ?thesis using Cons.IH [of sub1 acc1 "acc0 @ acceptedOf conn ms"] dh Cons.prems(2,4) by auto
  next
    case False
    then show ?thesis using Cons.prems dl dh by auto
  qed
qed simp


section \<open>The bound of the buffer\<close>

text \<open>What happens to the buffer: results arrive, or \<open>Run\<close> takes a turn.\<close>

inductive buffer_reach :: "Submitter \<Rightarrow> bool" where
  empty: "buffer_reach NewSubmitter"
| enqueued: "buffer_reach s \<Longrightarrow> bytes sub = 0 \<Longrightarrow> Enqueue sub s = Inr s' \<Longrightarrow> buffer_reach s'"
| ran: "buffer_reach s \<Longrightarrow> buffer_reach (Run_once conn s)"

definition buffer_inv :: "Submitter \<Rightarrow> bool" where
  "buffer_inv s \<longleftrightarrow> buffered s = sum_list (map bytes (queue s)) \<and> (buffered s \<le> BufferHardBytes \<or> length (queue s) \<le> 1)
     \<and> (\<forall>sub \<in> set (queue s). bytes sub = sum_list (map obsBytes (Observations sub)))"

lemma send_loop_same: "send_loop peer ntotal i cs sub = (ms, sub', v) \<Longrightarrow>
    bytes sub' = bytes sub \<and> SubmissionID sub' = SubmissionID sub \<and> Observations sub' = Observations sub"
proof (induction cs arbitrary: i sub ms)
  case (Cons c cs)
  then show ?case
    by (auto simp: Let_def split: if_splits answer.splits option.splits SubmitStatus.splits prod.splits; force)
qed simp

lemma deliver_same: "deliver conn sub = (ms, sub', keep) \<Longrightarrow>
    bytes sub' = bytes sub \<and> SubmissionID sub' = SubmissionID sub \<and> Observations sub' = Observations sub"
  by (auto simp: deliver_def split: option.splits prod.splits dest: send_loop_same)

lemma Run_once_queue:
  assumes "queue s = q # qs"
  shows "\<exists>q'. bytes q' = bytes q \<and> Observations q' = Observations q \<and>
    (Run_once conn s = s\<lparr>queue := q' # qs\<rparr> \<or> Run_once conn s = s\<lparr>queue := qs, buffered := buffered s - bytes q\<rparr>)"
proof -
  obtain ms q' keep where dl: "deliver conn q = (ms, q', keep)" by (cases "deliver conn q")
  then show ?thesis
    using deliver_same [OF dl] assms
    by (intro exI [of _ q']) (auto simp: Run_once_def head_def updateHead_def drop_sub_def)
qed

lemma buffer_inv_run: "buffer_inv s \<Longrightarrow> buffer_inv (Run_once conn s)"
proof (cases "queue s")
  case Nil
  then show "buffer_inv s \<Longrightarrow> ?thesis" by (simp add: Run_once_def head_def)
next
  case (Cons q qs)
  assume "buffer_inv s"
  then show ?thesis using Run_once_queue [OF Cons, of conn] Cons by (auto simp: buffer_inv_def)
qed

lemma buffer_inv_enqueue: "buffer_inv s \<Longrightarrow> bytes sub = 0 \<Longrightarrow> Enqueue sub s = Inr s' \<Longrightarrow> buffer_inv s'"
  by (auto simp: buffer_inv_def Enqueue_def Let_def split: if_splits)

text \<open>
  At every moment the accounting of the buffer equals the sizes of the submissions it holds, and
  it exceeds 64 MiB only while it holds a single submission that is larger by itself.
\<close>

theorem buffer_bounded:
  assumes "buffer_reach s"
  shows "buffered s = sum_list (map (\<lambda>sub. sum_list (map obsBytes (Observations sub))) (queue s))
    \<and> (buffered s > BufferHardBytes \<longrightarrow> length (queue s) = 1)"
proof -
  have inv: "buffer_inv s"
    using assms
  proof (induction rule: buffer_reach.induct)
    case empty
    show ?case by (simp add: buffer_inv_def NewSubmitter_def)
  qed (simp_all add: buffer_inv_run buffer_inv_enqueue)
  then have m: "map bytes (queue s) = map (\<lambda>sub. sum_list (map obsBytes (Observations sub))) (queue s)"
    by (auto simp: buffer_inv_def)
  have "length (queue s) = 1" if "buffered s > BufferHardBytes"
    using inv that by (cases "queue s") (auto simp: buffer_inv_def)
  then show ?thesis using inv unfolding m [symmetric] by (simp add: buffer_inv_def)
qed

section \<open>A concrete submission\<close>

definition ex_sub :: Submission where
  "ex_sub = \<lparr>SubmissionID = ''s1'', Observations = [\<lparr>ObservationId = ''o1'', TaskId = ''t1'', ZoneId = [], ObservationType = ''host'', Payload = ''{}'',
       Confidence = Finite 1, ObservedAtUnix = 5\<rparr>],
     bytes = 0, resumeFrom = 0, hasResume = False\<rparr>"

text \<open>First no connection, then a retry, then acceptance.\<close>

definition ex_conns :: "((ResultChunk \<Rightarrow> answer) \<times> answer list) option list" where
  "ex_conns = [None, Some (\<lambda>m. Ack (Some RETRY_LATER) 0, []), Some (\<lambda>m. Ack (Some ACCEPTED) (ChunkIndex m), [Ended])]"

lemma ex_chunk: "chunk ex_sub = [Observations ex_sub]"
  by (simp add: chunk_def ex_sub_def)


lemma ex_attempts: "attempts ex_conns ex_sub =
    ([\<lparr>ChunkIndex = 0, Final = True, chObservations = Observations ex_sub\<rparr>], ex_sub\<lparr>hasResume := True\<rparr>, False)"
  by (simp add: ex_conns_def deliver_def ex_chunk) (simp add: ex_sub_def)


lemma ex_enqueued: "buffer_reach \<lparr>queue = [ex_sub\<lparr>bytes := 70\<rparr>], buffered = 70\<rparr>"
  by (rule buffer_reach.enqueued [OF buffer_reach.empty, of ex_sub])
     (simp_all add: ex_sub_def Enqueue_def NewSubmitter_def obsBytes_def)

theorem buffer_bounded_witness:
  "sum_list (map obsBytes (Observations ex_sub)) = 70 \<and> \<not> 70 > BufferHardBytes"
  using buffer_bounded [OF ex_enqueued] by (simp add: BufferHardBytes_def ex_sub_def)

end
