(* ===== verification/Engine_Output.thy ===== *)
theory Engine_Output
  imports Go_Json Result_Buffer Scan_Lifecycle
begin

text \<open>
  From an engine's messages to what Core is sent: \<open>engineHost.pump\<close> and \<open>results\<close>
  (\<open>internal/scanpoint/enginehost.go\<close>), \<open>validObservation\<close>, \<open>toWire\<close> and the assembly of the
  submission and of the task counts in \<open>terminate\<close> (\<open>runtime.go\<close>). The parser of uuids
  (\<open>github.com/google/uuid\<close>) is an argument.
\<close>

section \<open>Observations on the way to Core\<close>

record EngineObservation =
  eoObservationID :: string
  eoTaskID :: string
  eoType :: string
  eoPayload :: string
  eoConfidence :: float32
  eoObservedAt :: time

datatype whyInvalid = BadObservationId | BadTaskId | NoType | BadPayload | BadConfidence | NoObservedAt

definition validObservation :: "(string \<Rightarrow> bool) \<Rightarrow> EngineObservation \<Rightarrow> whyInvalid option" where
  "validObservation uuidOK ob =
     (if \<not> uuidOK (eoObservationID ob) then Some BadObservationId
      else if \<not> uuidOK (eoTaskID ob) then Some BadTaskId
      else if eoType ob = [] then Some NoType
      else if length (eoPayload ob) = 0 \<or> \<not> jsonValid (eoPayload ob) then Some BadPayload
      else if (case eoConfidence ob of NaN \<Rightarrow> True | Inf \<Rightarrow> True | Finite c \<Rightarrow> c < 0 \<or> c > 1) then Some BadConfidence
      else if IsZero (eoObservedAt ob) then Some NoObservedAt
      else None)"

text \<open>\<open>unix\<close> is \<open>time.Time.Unix\<close>: whole seconds since 1970, of an instant counted from year 1.\<close>

definition unix :: "time \<Rightarrow> int" where
  "unix t = t div 1000000000 - 62135596800"

definition wireOf :: "EngineObservation \<Rightarrow> Observation" where
  "wireOf ob = \<lparr>ObservationId = eoObservationID ob, TaskId = eoTaskID ob, ZoneId = [],
     ObservationType = eoType ob, Payload = eoPayload ob, Confidence = eoConfidence ob,
     ObservedAtUnix = unix (eoObservedAt ob)\<rparr>"

fun toWire :: "(string \<Rightarrow> bool) \<Rightarrow> EngineObservation list \<Rightarrow> Observation list \<times> nat" where
  "toWire uuidOK [] = ([], 0)"
| "toWire uuidOK (ob # obs) =
     (case toWire uuidOK obs of (out, dropped) \<Rightarrow>
        if validObservation uuidOK ob \<noteq> None then (out, Suc dropped) else (wireOf ob # out, dropped))"

section \<open>The engine's messages\<close>

definition MaxJobObservations :: nat where "MaxJobObservations = 50000"
definition MaxJobObservationBytes :: nat where "MaxJobObservationBytes = 32 * 2 ^ 20"

datatype FromEngine =
    KindObservation "EngineObservation option"
  | KindAuthorise string
  | KindSent uint32
  | KindDone
  | KindOther

datatype readResult = ReadEOF | ReadError | Read FromEngine

record hostOutput =
  observations :: "EngineObservation list"
  observedBytes :: nat
  truncated :: bool
  hostSent :: uint32
  hostDone :: bool

definition newOutput :: hostOutput where
  "newOutput = \<lparr>observations = [], observedBytes = 0, truncated = False, hostSent = 0, hostDone = False\<rparr>"

definition pump_observation :: "EngineObservation \<Rightarrow> hostOutput \<Rightarrow> hostOutput" where
  "pump_observation ob h =
     (let n = length (eoPayload ob) + 128
      in if length (observations h) \<ge> MaxJobObservations \<or> observedBytes h + n > MaxJobObservationBytes
         then h\<lparr>truncated := True\<rparr>
         else h\<lparr>observations := observations h @ [ob], observedBytes := observedBytes h + n\<rparr>)"

text \<open>
  One turn of the loop per read. With each read come what the turn reads of the world around it: the
  value of \<open>stopRequested\<close> and whether the answer could be written. The answers are the target and the
  verdict; the reason of a refusal is not sent.
\<close>

fun pump :: "(string \<Rightarrow> Canonical option) \<Rightarrow> engineHost \<Rightarrow> (readResult \<times> bool \<times> bool) list \<Rightarrow> hostOutput \<Rightarrow>
    hostOutput \<times> (string \<times> bool) list" where
  "pump M e [] h = (h, [])"
| "pump M e ((r, stopped, written) # rs) h =
     (case r of
        ReadEOF \<Rightarrow> (h, [])
      | ReadError \<Rightarrow> (h, [])
      | Read (KindObservation None) \<Rightarrow> pump M e rs h
      | Read (KindObservation (Some ob)) \<Rightarrow> pump M e rs (pump_observation ob h)
      | Read (KindAuthorise t) \<Rightarrow>
          (let ok = (if \<not> stopped then authorise M e t else False)
           in if \<not> written then (h, [])
              else case pump M e rs h of (h', answers) \<Rightarrow> (h', (t, ok) # answers))
      | Read (KindSent n) \<Rightarrow> pump M e rs (h\<lparr>hostSent := hostSent h + n\<rparr>)
      | Read KindDone \<Rightarrow> pump M e rs (h\<lparr>hostDone := True\<rparr>)
      | Read KindOther \<Rightarrow> pump M e rs h)"

definition results :: "hostOutput \<Rightarrow> EngineObservation list \<times> uint32 \<times> bool" where
  "results h = (observations h, hostSent h, truncated h)"

text \<open>
  What \<open>terminate\<close> assembles: the observations and the flag of the submission, and the task counts.
  \<open>None\<close> is a job with no host.
\<close>

definition terminateReport :: "(string \<Rightarrow> bool) \<Rightarrow> hostOutput option \<Rightarrow> Task list \<Rightarrow> bool \<Rightarrow>
    Observation list \<times> bool \<times> uint32 \<times> uint32" where
  "terminateReport uuidOK h tks incomplete0 =
     (let (obs, completed, incomplete) =
            (case h of
               None \<Rightarrow> ([], 0, incomplete0)
             | Some h \<Rightarrow>
                 (let (raw, _, trunc) = results h;
                      (obs, dropped) = toWire uuidOK raw
                  in (obs, u32 (int (length obs)), incomplete0 \<or> trunc \<or> dropped > 0)));
          n = u32 (int (length tks));
          failed = (if n > completed then n - completed else 0)
      in (obs, incomplete, completed, failed))"

section \<open>Bounds and faithfulness of the pump\<close>

text \<open>The observations the loop reads before it ends.\<close>

fun readObservations :: "(readResult \<times> bool \<times> bool) list \<Rightarrow> EngineObservation list" where
  "readObservations [] = []"
| "readObservations ((r, stopped, written) # rs) =
     (case r of
        ReadEOF \<Rightarrow> []
      | ReadError \<Rightarrow> []
      | Read (KindObservation (Some ob)) \<Rightarrow> ob # readObservations rs
      | Read (KindAuthorise t) \<Rightarrow> if written then readObservations rs else []
      | _ \<Rightarrow> readObservations rs)"

definition output_inv :: "EngineObservation list \<Rightarrow> hostOutput \<Rightarrow> bool" where
  "output_inv got h \<longleftrightarrow> length (observations h) \<le> MaxJobObservations
     \<and> observedBytes h = sum_list (map (\<lambda>ob. length (eoPayload ob) + 128) (observations h))
     \<and> observedBytes h \<le> MaxJobObservationBytes
     \<and> subseq (observations h) got \<and> (observations h = got \<longleftrightarrow> \<not> truncated h)"

lemma subseq_shorter: "subseq xs ys \<Longrightarrow> xs \<noteq> ys @ [y]"
  using list_emb_length by fastforce

lemma output_inv_observation: "output_inv got h \<Longrightarrow> output_inv (got @ [ob]) (pump_observation ob h)"
  by (auto simp: output_inv_def pump_observation_def Let_def subseq_shorter intro: subseq_order.trans
      dest: subseq_shorter)

lemma pump_inv:
  assumes "output_inv got h"
  shows "output_inv (got @ readObservations rs) (fst (pump M e rs h))"
  using assms
proof (induction M e rs h arbitrary: got rule: pump.induct)
  case (2 M e r stopped written rs h)
  show ?case
  proof (cases r)
    case (Read m)
    show ?thesis
    proof (cases m)
      case (KindObservation ob)
      show ?thesis
      proof (cases ob)
        case None
        then show ?thesis using 2 Read KindObservation by simp
      next
        case (Some x)
        have "output_inv ((got @ [x]) @ readObservations rs) (fst (pump M e rs (pump_observation x h)))"
          by (rule 2(2)) (simp_all add: Read KindObservation Some output_inv_observation 2)
        then show ?thesis using Read KindObservation Some by simp
      qed
    next
      case (KindAuthorise t)
      have "output_inv (got @ readObservations rs) (fst (pump M e rs h))" if written
        using 2(3) [OF Read KindAuthorise refl _ 2(7)] that by simp
      then show ?thesis using 2(7) Read KindAuthorise by (cases "pump M e rs h") (auto simp: Let_def)
    next
      case (KindSent n)
      have "output_inv got (h\<lparr>hostSent := hostSent h + n\<rparr>)" using 2 by (simp add: output_inv_def)
      then show ?thesis using 2(4) Read KindSent by simp
    next
      case KindDone
      have "output_inv got (h\<lparr>hostDone := True\<rparr>)" using 2 by (simp add: output_inv_def)
      then show ?thesis using 2(5) Read KindDone by simp
    next
      case KindOther
      then show ?thesis using 2(6,7) Read by simp
    qed
  qed (use 2 in simp_all)
qed simp

lemma newOutput_inv: "output_inv [] newOutput"
  by (simp add: output_inv_def newOutput_def)

lemma toWire_exact:
  "fst (toWire u obs) = map wireOf (filter (\<lambda>ob. validObservation u ob = None) obs)
   \<and> snd (toWire u obs) = length (filter (\<lambda>ob. validObservation u ob \<noteq> None) obs)"
  by (induction obs) (auto split: prod.splits)

text \<open>
  However an engine behaves, the scan point keeps at most 50000 observations and 32 MiB of them
  for a job, in the order they were read, and it marks the job truncated exactly when it dropped one.
\<close>

theorem pump_bounded:
  assumes "fst (pump M e rs newOutput) = h"
  shows "length (observations h) \<le> 50000
    \<and> sum_list (map (\<lambda>ob. length (eoPayload ob) + 128) (observations h)) \<le> 32 * 2 ^ 20
    \<and> subseq (observations h) (readObservations rs)
    \<and> (truncated h \<longleftrightarrow> observations h \<noteq> readObservations rs)"
  using pump_inv [OF newOutput_inv, of rs M e] assms
  by (auto simp: output_inv_def MaxJobObservations_def MaxJobObservationBytes_def)


text \<open>
  An engine that asks about a target it found is permitted only targets the scan point's own
  scope check permits, and none at all once a stop was requested.
\<close>

theorem pump_answers_authorised:
  assumes "(t, True) \<in> set (snd (pump M e rs h))"
  shows "authorise M e t \<and> (\<exists>w. (Read (KindAuthorise t), False, w) \<in> set rs)"
  using assms
proof (induction M e rs h rule: pump.induct)
  case (2 M e r stopped written rs h)
  show ?case
  proof (cases "\<exists>t'. r = Read (KindAuthorise t')")
    case True
    then obtain t' where r: "r = Read (KindAuthorise t')" by blast
    note ih = 2(3) [OF r refl refl]
    show ?thesis using 2(7) r ih by (auto simp: Let_def split: prod.splits if_splits)
  next
    case False
    then show ?thesis
      using 2 by (auto split: readResult.splits FromEngine.splits option.splits)
  qed
qed simp

section \<open>A concrete engine\<close>

definition ex_ob :: EngineObservation where
  "ex_ob = \<lparr>eoObservationID = ''o1'', eoTaskID = ''t1'', eoType = ''host'', eoPayload = ''{}'',
     eoConfidence = Finite 1, eoObservedAt = 62135596805000000000\<rparr>"

definition ex_reads :: "(readResult \<times> bool \<times> bool) list" where
  "ex_reads = [(Read (KindObservation (Some ex_ob)), False, True), (Read (KindAuthorise ''printer''), False, True),
     (Read (KindAuthorise ''printer''), True, True), (Read KindDone, False, True), (ReadEOF, False, True)]"

lemma ex_pump: "pump (Matches (ex_env False)) (host (ex_env False)) ex_reads newOutput =
    (\<lparr>observations = [ex_ob], observedBytes = 130, truncated = False, hostSent = 0, hostDone = True\<rparr>,
     [(''printer'', True), (''printer'', False)])"
proof -
  have "authorise (Matches (ex_env False)) (host (ex_env False)) ''printer''"
    using ex_env_scope [of False] by (simp add: scopeOK_def wireTargets_def ex_task_def split: if_splits)
  then show ?thesis
    by (simp add: ex_reads_def newOutput_def pump_observation_def ex_ob_def MaxJobObservations_def
        MaxJobObservationBytes_def)
qed

theorem pump_bounded_witness: "subseq [ex_ob] (readObservations ex_reads) \<and> [ex_ob] = readObservations ex_reads"
  using pump_bounded [of "Matches (ex_env False)" "host (ex_env False)" ex_reads, OF refl]
  by (simp add: ex_pump)


theorem pump_answers_authorised_witness: "authorise (Matches (ex_env False)) (host (ex_env False)) ''printer''"
  using pump_answers_authorised [of "''printer''" "Matches (ex_env False)" "host (ex_env False)" ex_reads newOutput]
  by (simp add: ex_pump)

end
