(* ===== verification/Host_Key_Trust.thy ===== *)
theory Host_Key_Trust
  imports Go_Text
begin

text \<open>
  \<open>internal/hostkeytrust/hostkeytrust.go\<close>: the field of a credentialed assignment that carries
  host-key trust material behind a header naming its source. Core composes it, the scan point parses
  it. The parser of \<open>known_hosts\<close> lines and the key fingerprint (\<open>golang.org/x/crypto/ssh\<close>) are
  arguments of \<open>ValidatePin\<close>.
\<close>

type_synonym Source = string

definition SourceOperator :: Source where "SourceOperator = ''operator''"
definition SourceObserved :: Source where "SourceObserved = ''observed''"
definition HeaderPrefix :: string where "HeaderPrefix = ''# cvap-trust-source: ''"

abbreviation newline :: char where "newline \<equiv> CHR 0x0A"

datatype trustError = ErrNoHeader | ErrUnknownSource string | ErrNoMaterial

definition hasMaterial :: "string \<Rightarrow> bool" where
  "hasMaterial s = list_ex (\<lambda>line0. let line = TrimSpace line0 in \<not> (line = [] \<or> HasPrefix line ''#''))
     (splitByte newline s)"

definition Compose :: "Source \<Rightarrow> string \<Rightarrow> trustError + string" where
  "Compose src material =
     (if src \<noteq> SourceOperator \<and> src \<noteq> SourceObserved then Inl (ErrUnknownSource src)
      else if \<not> hasMaterial material then Inl ErrNoMaterial
      else Inr (HeaderPrefix @ src @ [newline] @ trimRightByte newline material @ [newline]))"

definition Parse :: "string \<Rightarrow> trustError + (Source \<times> string)" where
  "Parse field =
     (let (first0, rest) = (case cutByte newline field of Some lr \<Rightarrow> lr | None \<Rightarrow> (field, []));
          first = TrimSpace first0
      in if \<not> HasPrefix first HeaderPrefix then Inl ErrNoHeader
         else let src = TrimSpace (drop (length HeaderPrefix) first)
              in if src \<noteq> SourceOperator \<and> src \<noteq> SourceObserved then Inl (ErrUnknownSource src)
                 else if \<not> hasMaterial rest then Inl ErrNoMaterial
                 else Inr (src, rest))"

definition LinesCovering :: "string \<Rightarrow> string \<Rightarrow> string list" where
  "LinesCovering material target =
     filter (\<lambda>line.
         if line = [] \<or> HasPrefix line ''#'' \<or> HasPrefix line ''|'' then False
         else let f = Fields line
              in if length f < 2 then False
                 else list_ex (\<lambda>h0. let h = TrimSpace h0 in h = target \<or> h = ''['' @ target @ '']:22'')
                        (splitByte (CHR '','') (hd f)))
       (map TrimSpace (splitByte newline material))"

section \<open>Operator pins\<close>

definition MaxPinBytes :: nat where "MaxPinBytes = 64 * 2 ^ 10"
definition MaxPinLines :: nat where "MaxPinLines = 1000"

text \<open>The errors, with the line number where the message has one.\<close>

datatype pinError =
    PinTooLong
  | PinTooManyLines
  | PinControl nat
  | PinMarker nat
  | PinHashed nat
  | PinNotKnownHosts nat
  | PinNotOneLine nat
  | PinPattern nat
  | PinPort nat
  | PinNoMaterial

text \<open>The first host refused, if any.\<close>

fun checkHosts :: "nat \<Rightarrow> string list \<Rightarrow> pinError option" where
  "checkHosts n [] = None"
| "checkHosts n (h # hs) =
     (if CHR ''*'' \<in> set h \<or> CHR ''?'' \<in> set h \<or> HasPrefix h ''!'' then Some (PinPattern n)
      else if HasPrefix h ''['' \<and> \<not> suffix '']:22'' h then Some (PinPort n)
      else checkHosts n hs)"

text \<open>The hosts, the key and the rest of one line, or \<open>None\<close> for a parse error.\<close>

type_synonym 'k knownHostsParser = "string \<Rightarrow> (string list \<times> 'k \<times> string) option"

fun pin_loop :: "'k knownHostsParser \<Rightarrow> nat \<Rightarrow> string list \<Rightarrow> string list \<Rightarrow> 'k list \<Rightarrow>
    pinError + (string list \<times> 'k list)" where
  "pin_loop parse i [] lines1 keys1 = Inr (lines1, keys1)"
| "pin_loop parse i (raw # raws) lines1 keys1 =
     (let line = TrimSpace (trimRightByte (CHR 0x0D) raw)
      in if line = [] \<or> HasPrefix line ''#'' then pin_loop parse (Suc i) raws lines1 keys1
         else if length lines1 \<ge> MaxPinLines then Inl PinTooManyLines
         else if list_ex (\<lambda>c. byte c < 0x20 \<and> c \<noteq> CHR 0x09 \<or> byte c = 0x7f) line then Inl (PinControl (i + 1))
         else if HasPrefix line ''@'' then Inl (PinMarker (i + 1))
         else if HasPrefix line ''|'' then Inl (PinHashed (i + 1))
         else (case parse line of
                 None \<Rightarrow> Inl (PinNotKnownHosts (i + 1))
               | Some (hosts, key, rest) \<Rightarrow>
                   if length hosts = 0 \<or> TrimSpace rest \<noteq> [] then Inl (PinNotOneLine (i + 1))
                   else (case checkHosts (i + 1) hosts of
                           Some e \<Rightarrow> Inl e
                         | None \<Rightarrow> pin_loop parse (Suc i) raws (lines1 @ [line]) (keys1 @ [key]))))"

definition ValidatePin :: "'k knownHostsParser \<Rightarrow> ('k \<Rightarrow> string) \<Rightarrow> string \<Rightarrow> pinError + (string \<times> string list)" where
  "ValidatePin parse FingerprintSHA256 material =
     (if length material > MaxPinBytes then Inl PinTooLong
      else case pin_loop parse 0 (splitByte newline material) [] [] of
             Inl e \<Rightarrow> Inl e
           | Inr (lines1, keys1) \<Rightarrow>
               if length lines1 = 0 then Inl PinNoMaterial
               else Inr (joinByte newline lines1 @ [newline], map FingerprintSHA256 keys1))"

section \<open>The round trip of the field\<close>

lemma hasMaterial_set: "set (splitByte newline s) \<union> {[]} = set (splitByte newline t) \<union> {[]} \<Longrightarrow> hasMaterial s = hasMaterial t"
  unfolding hasMaterial_def list_ex_iff Let_def
  by (metis (no_types, lifting) TrimSpace_Nil Un_iff empty_iff insert_iff)

lemma hasMaterial_composed: "hasMaterial (trimRightByte newline m @ [newline]) = hasMaterial m"
proof -
  obtain n where n: "m = trimRightByte newline m @ replicate n newline" using trimRightByte_eq by metis
  have "set (splitByte newline m) \<union> {[]} = set (splitByte newline (trimRightByte newline m)) \<union> {[]}"
    using splitByte_trailing [of newline "trimRightByte newline m" n] n by simp
  moreover have "set (splitByte newline (trimRightByte newline m @ [newline])) \<union> {[]}
      = set (splitByte newline (trimRightByte newline m)) \<union> {[]}"
    using splitByte_trailing [of newline "trimRightByte newline m" 1] by simp
  ultimately show ?thesis by (intro hasMaterial_set) simp
qed

lemma source_header:
  assumes "src = SourceOperator \<or> src = SourceObserved"
  shows "TrimSpace (HeaderPrefix @ src) = HeaderPrefix @ src" "TrimSpace src = src" "newline \<notin> set (HeaderPrefix @ src)"
  using assms
  by (auto simp: HeaderPrefix_def SourceOperator_def SourceObserved_def graphic_def intro!: TrimSpace_id)

lemma Parse_composed:
  assumes "src = SourceOperator \<or> src = SourceObserved"
  shows "Parse (HeaderPrefix @ src @ [newline] @ m) = (if hasMaterial m then Inr (src, m) else Inl ErrNoMaterial)"
proof -
  have "cutByte newline ((HeaderPrefix @ src) @ newline # m) = Some (HeaderPrefix @ src, m)"
    using source_header(3) [OF assms] by (rule cutByte_append)
  then show ?thesis
    using assms source_header [OF assms] by (auto simp: Parse_def Let_def)
qed

text \<open>
  What Core composes the scan point reads back: the same source, and the same material up to the
  newlines at its end. Composing fails exactly on an unknown source or material without a key line.
\<close>

theorem Compose_Parse_roundtrip:
  "case Compose src material of
     Inr w \<Rightarrow> src \<in> {SourceOperator, SourceObserved} \<and> hasMaterial material
       \<and> Parse w = Inr (src, trimRightByte newline material @ [newline])
   | Inl e \<Rightarrow> \<not> (src \<in> {SourceOperator, SourceObserved} \<and> hasMaterial material)"
  using Parse_composed [of src "trimRightByte newline material @ [newline]"] hasMaterial_composed [of material]
  by (auto simp: Compose_def)

text \<open>Whatever the field holds, what \<open>Parse\<close> accepts names one of the two sources and has a key line.\<close>

lemma Parse_sound:
  "Parse field = Inr (src, m) \<Longrightarrow> (src = SourceOperator \<or> src = SourceObserved) \<and> hasMaterial m"
  by (auto simp: Parse_def Let_def split: if_splits prod.splits)

section \<open>A validated pin covers its hosts\<close>

text \<open>What \<open>ssh.ParseKnownHosts\<close> documents of the hosts: they are the first field, split at commas.\<close>

definition parsesHosts :: "'k knownHostsParser \<Rightarrow> bool" where
  "parsesHosts parse \<longleftrightarrow> (\<forall>line hosts key rest. parse line = Some (hosts, key, rest) \<longrightarrow>
     length (Fields line) \<ge> 2 \<and> hosts = splitByte (CHR '','') (hd (Fields line)))"

definition pinLine :: "'k knownHostsParser \<Rightarrow> string \<Rightarrow> bool" where
  "pinLine parse line \<longleftrightarrow> TrimSpace line = line \<and> newline \<notin> set line \<and> line \<noteq> [] \<and> \<not> HasPrefix line ''#''
     \<and> \<not> HasPrefix line ''|''
     \<and> (\<exists>hosts key rest. parse line = Some (hosts, key, rest) \<and> hosts \<noteq> [] \<and> checkHosts 0 hosts = None)"

lemma checkHosts_index: "checkHosts n hs = None \<longleftrightarrow> checkHosts m hs = None"
  by (induction hs) auto

lemma pin_loop_lines:
  assumes "pin_loop parse i raws lines1 keys1 = Inr (lines2, keys2)" "list_all (pinLine parse) lines1"
    "list_all (\<lambda>raw. newline \<notin> set raw) raws"
  shows "list_all (pinLine parse) lines2"
  using assms
proof (induction raws arbitrary: i lines1 keys1)
  case (Cons raw raws)
  let ?line = "TrimSpace (trimRightByte (CHR 0x0D) raw)"
  have nl: "newline \<notin> set ?line"
    using Cons.prems(3) TrimSpace_subset [of "trimRightByte (CHR 0x0D) raw"] trimRightByte_sub [of "CHR 0x0D" raw] by auto
  show ?case
  proof (cases "?line = [] \<or> HasPrefix ?line ''#''")
    case True
    then show ?thesis using Cons by (auto simp: Let_def)
  next
    case False
    obtain hosts key rest where p: "parse ?line = Some (hosts, key, rest)" "hosts \<noteq> []" "checkHosts (i + 1) hosts = None"
      and rec: "pin_loop parse (Suc i) raws (lines1 @ [?line]) (keys1 @ [key]) = Inr (lines2, keys2)"
      and bar: "\<not> HasPrefix ?line ''|''"
      using Cons.prems(1) False
      by (simp only: pin_loop.simps Let_def) (auto split: if_splits option.splits prod.splits)
    have "pinLine parse ?line"
      using p nl False bar checkHosts_index [of "i + 1" hosts 0] by (auto simp: pinLine_def)
    then show ?thesis using Cons.IH [OF rec] Cons.prems(2,3) by simp
  qed
qed simp

text \<open>The name a host field stands for: itself, or what is between the brackets of \<open>[host]:22\<close>.\<close>

definition hostName :: "string \<Rightarrow> string" where
  "hostName h = (if HasPrefix h ''['' then take (length h - 5) (tl h) else h)"

lemma hostName_covers: "HasPrefix h ''['' \<Longrightarrow> suffix '']:22'' h \<Longrightarrow> h = ''['' @ hostName h @ '']:22''"
proof -
  assume h: "HasPrefix h ''[''" "suffix '']:22'' h"
  then obtain t where t: "h = CHR ''['' # t" by (auto simp: prefix_def)
  then have "suffix '']:22'' t" using h(2) by (auto simp: suffix_Cons)
  then obtain u where "t = u @ '']:22''" by (auto simp: suffix_def)
  then show ?thesis using t by (simp add: hostName_def)
qed

lemma checkHosts_covers:
  "checkHosts n hosts = None \<Longrightarrow> h \<in> set hosts \<Longrightarrow> h = hostName h \<or> h = ''['' @ hostName h @ '']:22''"
  by (induction hosts) (auto split: if_splits simp: hostName_def dest: hostName_covers)

text \<open>
  A pin that \<open>ValidatePin\<close> accepts covers what it names: every line of the canonical pin is
  returned by \<open>LinesCovering\<close> for the name of each of its host fields that has no white space at
  its ends, so an accepted pin never turns the credentialed scans of its hosts off.
\<close>

theorem validated_pin_covers:
  assumes "ValidatePin parse fp material = Inr (canonical, fps)" "parsesHosts parse"
    "line \<in> set (splitByte newline canonical)" "line \<noteq> []"
    "h \<in> set (splitByte (CHR '','') (hd (Fields line)))" "TrimSpace h = h"
  shows "line \<in> set (LinesCovering canonical (hostName h))"
proof -
  obtain lines1 keys1 where pl: "pin_loop parse 0 (splitByte newline material) [] [] = Inr (lines1, keys1)"
    and c: "canonical = joinByte newline lines1 @ [newline]" "lines1 \<noteq> []"
    using assms(1) by (auto simp: ValidatePin_def split: if_splits sum.splits)
  have ok: "list_all (pinLine parse) lines1"
    using pin_loop_lines [OF pl] by (auto simp: list_all_iff dest: in_splitByte)
  then have "splitByte newline canonical = lines1 @ [[]]"
    using c split_join [of lines1 newline]
    by (simp add: splitByte_append [of newline "joinByte newline lines1" "[]", simplified] list_all_iff pinLine_def)
  then have "line \<in> set lines1" and all: "line \<in> set (splitByte newline canonical)" using assms(3,4) by auto
  then have pin: "pinLine parse line" using ok by (simp add: list_all_iff)
  then obtain hosts key rest where p: "parse line = Some (hosts, key, rest)" "checkHosts 0 hosts = None"
    by (auto simp: pinLine_def)
  then have f: "length (Fields line) \<ge> 2" "hosts = splitByte (CHR '','') (hd (Fields line))"
    using assms(2) by (auto simp: parsesHosts_def)
  then have "h = hostName h \<or> h = ''['' @ hostName h @ '']:22''"
    using checkHosts_covers [OF p(2)] assms(5) by simp
  then have "list_ex (\<lambda>h0. let h' = TrimSpace h0 in h' = hostName h \<or> h' = ''['' @ hostName h @ '']:22'')
      (splitByte (CHR '','') (hd (Fields line)))"
    using assms(5,6) by (auto simp: list_ex_iff Let_def)
  moreover have "line \<in> set (map TrimSpace (splitByte newline canonical))"
    using all pin by (force simp: pinLine_def)
  ultimately show ?thesis
    using pin f(1) unfolding LinesCovering_def set_filter by (simp add: pinLine_def Let_def)
qed

text \<open>A pin of one line, under a parser that takes the hosts from the first field.\<close>

definition ex_parser :: "unit knownHostsParser" where
  "ex_parser line = (if length (Fields line) \<ge> 2 then Some (splitByte (CHR '','') (hd (Fields line)), (), []) else None)"

definition ex_pin :: string where "ex_pin = ''[db]:22 k x''"

lemma ex_fields: "Fields ex_pin = [''[db]:22'', ''k'', ''x'']" "TrimSpace (trimRightByte (CHR 0x0D) ex_pin) = ex_pin"
  "splitByte newline ex_pin = [ex_pin]"
  by (simp_all add: ex_pin_def Fields_def graphic_def trimRightByte_def)

lemma ex_validated: "ValidatePin ex_parser (\<lambda>_. ''fp'') ex_pin = Inr (ex_pin @ [newline], [''fp''])"
proof -
  have "list_ex (\<lambda>c. byte c < 0x20 \<and> c \<noteq> CHR 0x09 \<or> byte c = 0x7f) ex_pin = False"
    by (simp add: ex_pin_def)
  moreover have "length ex_pin \<le> MaxPinBytes" "ex_pin \<noteq> []"
    "\<not> HasPrefix ex_pin ''#''" "\<not> HasPrefix ex_pin ''@''" "\<not> HasPrefix ex_pin ''|''"
    by (simp_all add: ex_pin_def MaxPinBytes_def)
  moreover have "ex_parser ex_pin = Some ([''[db]:22''], (), [])"
    by (simp add: ex_parser_def ex_fields)
  moreover have "checkHosts 1 [''[db]:22''] = None" by (simp add: suffix_def)
  ultimately show ?thesis
    by (simp add: ValidatePin_def ex_fields MaxPinLines_def)
qed

theorem validated_pin_covers_witness: "ex_pin \<in> set (LinesCovering (ex_pin @ [newline]) ''db'')"
proof -
  have "parsesHosts ex_parser" by (auto simp: parsesHosts_def ex_parser_def)
  moreover have "ex_pin \<in> set (splitByte newline (ex_pin @ [newline]))" "ex_pin \<noteq> []"
    using splitByte_append [of newline ex_pin "[]"] by (simp_all add: ex_fields) (simp add: ex_pin_def)
  moreover have "''[db]:22'' \<in> set (splitByte (CHR '','') (hd (Fields ex_pin)))" by (simp add: ex_fields)
  moreover have "TrimSpace ''[db]:22'' = ''[db]:22''" by (rule TrimSpace_id) (simp_all add: graphic_def)
  moreover have "hostName ''[db]:22'' = ''db''" by (simp add: hostName_def)
  ultimately show ?thesis
    using validated_pin_covers [OF ex_validated, of ex_pin "''[db]:22''"] by simp
qed

end
