(* ===== verification/Scan_Runtime.thy ===== *)
theory Scan_Runtime
  imports Result_Buffer Host_Key_Trust Scan_Job "HOL-Library.AList" "HOL-Library.Multiset"
begin

text \<open>
  The scan point's runtime around its jobs: which binary runs which engine kind
  (\<open>internal/scanpoint/engineset.go\<close>), the job table and the handlers of Core's messages
  (\<open>runtime.go\<close>). A handler is a function on the runtime's state; the goroutines it starts are
  returned as effects, and what they do to a job is the subject of \<open>Scan_Job\<close>.
\<close>

section \<open>Engines\<close>

text \<open>A capability is its engine kind and the rest of it. What a binary reports is an argument.\<close>

record 'c EngineSet =
  byKind :: "(string \<times> string) list"
  caps :: "(string \<times> 'c) list"

datatype engineSetError =
    NoBinaries
  | CapabilitiesFailed string
  | NoCapabilities string
  | NoEngineKind string
  | DuplicateKind string string string

fun addKinds :: "string \<Rightarrow> (string \<times> 'c) list \<Rightarrow> (string \<times> string) list \<Rightarrow> engineSetError + (string \<times> string) list" where
  "addKinds bin [] m = Inr m"
| "addKinds bin (c # cs) m =
     (let kind = fst c
      in if kind = [] then Inl (NoEngineKind bin)
         else case map_of m kind of
                Some prior \<Rightarrow> Inl (DuplicateKind prior bin kind)
              | None \<Rightarrow> addKinds bin cs ((kind, bin) # m))"

fun engines_loop :: "(string \<Rightarrow> (string \<times> 'c) list option) \<Rightarrow> string list \<Rightarrow> 'c EngineSet \<Rightarrow> engineSetError + 'c EngineSet" where
  "engines_loop EngineCapabilities [] set1 = Inr set1"
| "engines_loop EngineCapabilities (bin # bins) set1 =
     (case EngineCapabilities bin of
        None \<Rightarrow> Inl (CapabilitiesFailed bin)
      | Some cs \<Rightarrow>
          if length cs = 0 then Inl (NoCapabilities bin)
          else case addKinds bin cs (byKind set1) of
                 Inl e \<Rightarrow> Inl e
               | Inr m \<Rightarrow> engines_loop EngineCapabilities bins \<lparr>byKind = m, caps = caps set1 @ cs\<rparr>)"

definition NewEngineSet :: "(string \<Rightarrow> (string \<times> 'c) list option) \<Rightarrow> string list \<Rightarrow> engineSetError + 'c EngineSet" where
  "NewEngineSet EngineCapabilities binaries =
     (if length binaries = 0 then Inl NoBinaries
      else case engines_loop EngineCapabilities binaries \<lparr>byKind = [], caps = []\<rparr> of
             Inl e \<Rightarrow> Inl e
           | Inr s \<Rightarrow> Inr (s\<lparr>caps := sort_key fst (caps s)\<rparr>))"

datatype binaryError = NamesNoEngine | NoHostedEngine string

definition BinaryFor :: "'c EngineSet \<Rightarrow> string \<Rightarrow> binaryError + string" where
  "BinaryFor s kind =
     (if kind = [] then Inl NamesNoEngine
      else case map_of (byKind s) kind of None \<Rightarrow> Inl (NoHostedEngine kind) | Some bin \<Rightarrow> Inr bin)"

definition Kinds :: "'c EngineSet \<Rightarrow> string list" where
  "Kinds s = sort (map fst (byKind s))"

section \<open>State\<close>

text \<open>\<open>hRef\<close> is the identity of the job object, which \<open>terminate\<close> compares by pointer.\<close>

record Held =
  hRef :: nat
  hJob :: job
  hTasks :: "Task list"
  hBinary :: string
  hScope :: engineHost
  hNeedsCred :: bool
  hCredUser :: string
  hKnownHosts :: string
  hTrust :: Source

record Assignment =
  aJobId :: string
  aLeaseEpoch :: int
  aLeaseExpires :: time
  aEngine :: string
  aTasks :: "Task list"
  aAllowed :: "string list"
  aExclusions :: "string list"
  aCredUser :: string
  aKnownHosts :: string

datatype refusal = BufferFull | NoEngine binaryError | NoCredUser | BadTrust trustError

text \<open>Messages to Core. A terminal message of the job's own life carries no refusal.\<close>

datatype Msg =
    Terminal string int TerminationReason "refusal option"
  | CancelAck string int uint32
  | KillAck string uint32
  | LeaseRenewal string int
  | Heartbeat uint32 uint32 nat
  | Backpressure BackpressureState uint32 nat

record Runtime =
  jobs :: "(string \<times> Held) list"
  outQ :: "Msg list"
  nextRef :: nat

text \<open>Goroutines that a handler starts.\<close>

datatype effect = RunJob string nat | AbortJob string nat TerminationReason | CancelWith string nat duration Msg

definition OutCap :: nat where "OutCap = 64"

text \<open>\<open>send\<close> does not block: a full queue drops the message.\<close>

definition send :: "Msg \<Rightarrow> Runtime \<Rightarrow> Runtime" where
  "send m r = (if length (outQ r) < OutCap then r\<lparr>outQ := outQ r @ [m]\<rparr> else r)"

definition lookup :: "Runtime \<Rightarrow> string \<Rightarrow> Held option" where
  "lookup r i = map_of (jobs r) i"

definition snapshot :: "Runtime \<Rightarrow> (string \<times> Held) list" where
  "snapshot r = jobs r"

definition updateJob :: "string \<Rightarrow> (job \<Rightarrow> job) \<Rightarrow> Runtime \<Rightarrow> Runtime" where
  "updateJob i f r = (case lookup r i of None \<Rightarrow> r
     | Some h \<Rightarrow> r\<lparr>jobs := AList.update i (h\<lparr>hJob := f (hJob h)\<rparr>) (jobs r)\<rparr>)"

text \<open>The end of \<open>terminate\<close>: the entry goes only if it is this job.\<close>

definition forget :: "string \<Rightarrow> nat \<Rightarrow> Runtime \<Rightarrow> Runtime" where
  "forget i ref r = (case lookup r i of None \<Rightarrow> r
     | Some h \<Rightarrow> if hRef h = ref then r\<lparr>jobs := AList.delete i (jobs r)\<rparr> else r)"

section \<open>Assignments\<close>

datatype offered = OfferFresh | OfferDuplicate | OfferSupersedes Held | OfferStale

definition offer :: "Runtime \<Rightarrow> Assignment \<Rightarrow> offered" where
  "offer r a =
     (case lookup r (aJobId a) of
        None \<Rightarrow> OfferFresh
      | Some existing \<Rightarrow>
          if aLeaseEpoch a = epoch (hJob existing) then OfferDuplicate
          else if aLeaseEpoch a > epoch (hJob existing) then OfferSupersedes existing
          else OfferStale)"

definition EngineKindHost :: string where "EngineKindHost = ''host''"

text \<open>Why an assignment is refused once it is not a duplicate, or the parsed trust source.\<close>

definition vet :: "'c EngineSet \<Rightarrow> BackpressureState \<Rightarrow> Assignment \<Rightarrow> refusal + (string \<times> Source)" where
  "vet engines p a =
     (if p = PressureHard then Inl BufferFull
      else case BinaryFor engines (aEngine a) of
             Inl e \<Rightarrow> Inl (NoEngine e)
           | Inr binary \<Rightarrow>
               if aEngine a \<noteq> EngineKindHost then Inr (binary, [])
               else if aCredUser a = [] then Inl NoCredUser
               else case Parse (aKnownHosts a) of
                      Inl e \<Rightarrow> Inl (BadTrust e)
                    | Inr (trust, _) \<Rightarrow> Inr (binary, trust))"

definition newHeld :: "CoreEndpoints \<Rightarrow> nat \<Rightarrow> Assignment \<Rightarrow> string \<Rightarrow> Source \<Rightarrow> Held" where
  "newHeld coreEps ref a binary trust =
     \<lparr>hRef = ref,
      hJob = setExpiry (aLeaseExpires a)
        \<lparr>epoch = aLeaseEpoch a, creds = [], agents = [], credReady = False, expires = 0, aborting = False, reason = None\<rparr>,
      hTasks = aTasks a, hBinary = binary,
      hScope = \<lparr>allowed = aAllowed a, exclusions = aExclusions a, core = coreEps\<rparr>,
      hNeedsCred = (aEngine a = EngineKindHost), hCredUser = aCredUser a, hKnownHosts = aKnownHosts a, hTrust = trust\<rparr>"

definition admit :: "CoreEndpoints \<Rightarrow> 'c EngineSet \<Rightarrow> BackpressureState \<Rightarrow> Assignment \<Rightarrow> Runtime \<Rightarrow> Runtime \<times> effect list" where
  "admit coreEps engines p a r =
     (case vet engines p a of
        Inl why \<Rightarrow> (send (Terminal (aJobId a) (aLeaseEpoch a) ENGINE_FAILURE (Some why)) r, [])
      | Inr (binary, trust) \<Rightarrow>
          (r\<lparr>jobs := AList.update (aJobId a) (newHeld coreEps (nextRef r) a binary trust) (jobs r), nextRef := Suc (nextRef r)\<rparr>,
           [RunJob (aJobId a) (nextRef r)]))"

text \<open>
  \<open>abort\<close> called in place, when this call owns the terminal path: it sends the terminal message of
  the incarnation and takes it out of the table. When another goroutine owns it, that one does.
\<close>

definition abortHeld :: "string \<Rightarrow> Held \<Rightarrow> TerminationReason \<Rightarrow> Runtime \<Rightarrow> Runtime" where
  "abortHeld i h why r =
     (if aborting (hJob h) then r
      else forget i (hRef h) (send (Terminal i (epoch (hJob h)) why None) r))"

text \<open>\<open>ended\<close> is whether the stream's context ends while the handler waits for the old incarnation.\<close>

definition onAssignment ::
  "CoreEndpoints \<Rightarrow> 'c EngineSet \<Rightarrow> BackpressureState \<Rightarrow> bool \<Rightarrow> Assignment \<Rightarrow> Runtime \<Rightarrow> Runtime \<times> effect list" where
  "onAssignment coreEps engines p ended a r =
     (case offer r a of
        OfferDuplicate \<Rightarrow> (r, [])
      | OfferStale \<Rightarrow> (r, [])
      | OfferSupersedes existing \<Rightarrow>
          (let r' = abortHeld (aJobId a) existing LEASE_LOST r
           in if ended then (r', []) else admit coreEps engines p a r')
      | OfferFresh \<Rightarrow> admit coreEps engines p a r)"

section \<open>Leases, cancellation, the kill switch, credentials\<close>

datatype LeaseState = LEASE_STATE_GRANTED | LEASE_STATE_LOST | LEASE_STATE_UNKNOWN_JOB | LEASE_STATE_UNSPECIFIED

definition onLeaseGrant :: "string \<Rightarrow> LeaseState \<Rightarrow> int \<Rightarrow> time \<Rightarrow> Runtime \<Rightarrow> Runtime \<times> effect list" where
  "onLeaseGrant i st e expiry r =
     (case lookup r i of
        None \<Rightarrow> (r, [])
      | Some h \<Rightarrow>
          (case st of
             LEASE_STATE_GRANTED \<Rightarrow> (updateJob i (\<lambda>j. setExpiry expiry (setEpoch e j)) r, [])
           | LEASE_STATE_LOST \<Rightarrow> (r, [AbortJob i (hRef h) LEASE_LOST])
           | LEASE_STATE_UNKNOWN_JOB \<Rightarrow> (r, [AbortJob i (hRef h) LEASE_LOST])
           | LEASE_STATE_UNSPECIFIED \<Rightarrow> (r, [])))"

definition EngineStopGrace :: duration where "EngineStopGrace = 5 * Second"
definition MaxStopGrace :: duration where "MaxStopGrace = 9 * Second"
definition Millisecond :: duration where "Millisecond = 1000000"

definition cancelGrace :: "uint32 \<Rightarrow> duration" where
  "cancelGrace ms =
     (let grace = (if ms > 0 then int (unat ms) * Millisecond else EngineStopGrace)
      in if grace > MaxStopGrace then MaxStopGrace else grace)"

text \<open>The clamp that \<open>engineHost.stop\<close> applies to what it is given.\<close>

definition stopGrace :: "duration \<Rightarrow> duration" where
  "stopGrace grace = (if grace > MaxStopGrace \<or> grace \<le> 0 then MaxStopGrace else grace)"

text \<open>The goroutine sends the acknowledgement it is given after the abort, whoever owned that.\<close>

definition onCancel :: "string \<Rightarrow> int \<Rightarrow> uint32 \<Rightarrow> Runtime \<Rightarrow> Runtime \<times> effect list" where
  "onCancel i e ms r =
     (case lookup r i of
        None \<Rightarrow> (r, [])
      | Some h \<Rightarrow>
          if e \<noteq> epoch (hJob h) then (r, [])
          else (r, [CancelWith i (hRef h) (cancelGrace ms) (CancelAck i e (u32 (int (length (hTasks h)))))]))"

datatype KillScope = KILL_SCOPE_UNSPECIFIED | KILL_SCOPE_SCAN | KILL_SCOPE_ZONE | KILL_SCOPE_TENANT

definition onKill :: "string \<Rightarrow> KillScope \<Rightarrow> Runtime \<Rightarrow> Runtime \<times> effect list" where
  "onKill killId sc r =
     (let js = (if sc \<noteq> KILL_SCOPE_SCAN then snapshot r else [])
      in (send (KillAck killId (sum_list (map (\<lambda>(i, h). u32 (int (length (hTasks h)))) js))) r,
          map (\<lambda>(i, h). AbortJob i (hRef h) KILLED) js))"

definition handleCredential :: "string \<Rightarrow> Credential \<Rightarrow> Runtime \<Rightarrow> Runtime" where
  "handleCredential i c r = updateJob i (\<lambda>j. fst (addCredential c j)) r"

text \<open>One tick of the lease watchdog.\<close>

definition watchLeases :: "time \<Rightarrow> Runtime \<Rightarrow> effect list" where
  "watchLeases now r =
     map (\<lambda>(i, h). AbortJob i (hRef h) LEASE_LOST) (filter (\<lambda>(i, h). leaseLapsed (hJob h) now) (snapshot r))"

definition renewAll :: "Runtime \<Rightarrow> Runtime" where
  "renewAll r = fold (\<lambda>(i, h). send (LeaseRenewal i (epoch (hJob h)))) (snapshot r) r"

definition sendHeartbeat :: "Submitter \<Rightarrow> Runtime \<Rightarrow> Runtime" where
  "sendHeartbeat s r =
     (let (cnt, sz) = Buffered s;
          r = send (Heartbeat (u32 (int (length (snapshot r)))) (u32 (int cnt)) sz) r
      in if Pressure s \<noteq> PressureOK then send (Backpressure (Pressure s) (u32 (int cnt)) sz) r else r)"

definition shutdown :: "Runtime \<Rightarrow> effect list" where
  "shutdown r = map (\<lambda>(i, h). AbortJob i (hRef h) LEASE_LOST) (snapshot r)"

section \<open>Which engine runs a kind\<close>

definition kindsOf :: "(string \<Rightarrow> (string \<times> 'c) list option) \<Rightarrow> string \<Rightarrow> (string \<times> string) list" where
  "kindsOf f bin = (case f bin of None \<Rightarrow> [] | Some cs \<Rightarrow> map (\<lambda>c. (fst c, bin)) cs)"

definition capsOf :: "(string \<Rightarrow> (string \<times> 'c) list option) \<Rightarrow> string \<Rightarrow> (string \<times> 'c) list" where
  "capsOf f bin = (case f bin of None \<Rightarrow> [] | Some cs \<Rightarrow> cs)"

lemma fst_kindsOf: "map fst (kindsOf f b) = map fst (capsOf f b)"
  by (simp add: kindsOf_def capsOf_def split: option.splits)

lemma addKinds_Inr:
  "addKinds bin cs m = Inr m' \<longleftrightarrow>
     m' = rev (map (\<lambda>c. (fst c, bin)) cs) @ m \<and> [] \<notin> fst ` set cs \<and> distinct (map fst cs)
     \<and> fst ` set cs \<inter> fst ` set m = {}"
proof (induction cs arbitrary: m)
  case (Cons c cs)
  show ?case
  proof (cases "fst c = [] \<or> fst c \<in> fst ` set m")
    case True
    then show ?thesis by (cases "map_of m (fst c)") (auto simp: Let_def map_of_eq_None_iff)
  next
    case False
    then have "map_of m (fst c) = None" by (simp add: map_of_eq_None_iff)
    then show ?thesis using False by (auto simp: Let_def Cons.IH)
  qed
qed auto

lemma engines_loop_Inr:
  "engines_loop f bins s = Inr s' \<longleftrightarrow>
     s' = \<lparr>byKind = rev (concat (map (kindsOf f) bins)) @ byKind s, caps = caps s @ concat (map (capsOf f) bins)\<rparr>
     \<and> (\<forall>b \<in> set bins. f b \<noteq> None \<and> capsOf f b \<noteq> [] \<and> [] \<notin> fst ` set (capsOf f b))
     \<and> distinct (concat (map (\<lambda>b. map fst (capsOf f b)) bins))
     \<and> set (concat (map (\<lambda>b. map fst (capsOf f b)) bins)) \<inter> fst ` set (byKind s) = {}"
proof (induction bins arbitrary: s)
  case (Cons b bins)
  show ?case
  proof (cases "f b")
    case None
    then show ?thesis by simp
  next
    case (Some cs)
    have c: "capsOf f b = cs" "kindsOf f b = map (\<lambda>c. (fst c, b)) cs" by (simp_all add: capsOf_def kindsOf_def Some)
    show ?thesis
    proof (cases "\<exists>m. addKinds b cs (byKind s) = Inr m \<and> cs \<noteq> []")
      case True
      then obtain m where m: "addKinds b cs (byKind s) = Inr m" "cs \<noteq> []" by blast
      then have e: "engines_loop f (b # bins) s = engines_loop f bins \<lparr>byKind = m, caps = caps s @ cs\<rparr>"
        by (simp add: Some)
      from m(1) have a: "m = rev (kindsOf f b) @ byKind s" "[] \<notin> fst ` set cs" "distinct (map fst cs)"
        "fst ` set cs \<inter> fst ` set (byKind s) = {}"
        by (auto simp: addKinds_Inr c)
      have fm: "fst ` set m = fst ` set cs \<union> fst ` set (byKind s)"
        by (auto simp: a(1) c image_Un image_image)
      let ?B = "\<Union>x \<in> set bins. fst ` set (capsOf f x)"
      have sets: "?B \<inter> fst ` set m = {} \<longleftrightarrow>
          fst ` set cs \<inter> ?B = {} \<and> (fst ` set cs \<union> ?B) \<inter> fst ` set (byKind s) = {}"
        unfolding fm using a(4) by blast
      show ?thesis
        unfolding e Cons.IH using a(2,3) m(2) sets
        by (simp add: c Some a(1) del: disjoint_iff)
    next
      case False
      then have n: "\<nexists>s'. engines_loop f (b # bins) s = Inr s'"
        by (auto simp: Some split: sum.splits if_splits)
      have "cs = [] \<or> [] \<in> fst ` set cs \<or> \<not> distinct (map fst cs) \<or> fst ` set cs \<inter> fst ` set (byKind s) \<noteq> {}"
        using False by (auto simp: addKinds_Inr)
      then show ?thesis using n by (auto simp: c)
    qed
  qed
qed (auto simp: EngineSet.equality)

lemma mset_concat_map: "mset xs = mset ys \<Longrightarrow> mset (concat (map g xs)) = mset (concat (map g ys))"
proof -
  have e: "mset (concat (map g zs)) = \<Sum>\<^sub># (image_mset (\<lambda>z. mset (g z)) (mset zs))" for zs
    by (induction zs) auto
  assume "mset xs = mset ys"
  then show ?thesis by (simp add: e)
qed

text \<open>
  Which binary runs an engine kind does not depend on the order of the configuration: in any order
  of the same binaries the set is built or refused alike, every kind resolves to the same binary, and
  the capabilities are declared to Core in the same order.
\<close>

theorem engine_set_order_independent:
  assumes "NewEngineSet f bins = Inr s" "mset bins = mset bins'"
  shows "\<exists>s'. NewEngineSet f bins' = Inr s' \<and> BinaryFor s' = BinaryFor s \<and> caps s' = caps s"
proof -
  let ?K = "\<lambda>bins. concat (map (kindsOf f) bins)" let ?C = "\<lambda>bins. concat (map (capsOf f) bins)"
  let ?N = "\<lambda>bins. concat (map (\<lambda>b. map fst (capsOf f b)) bins)"
  note ms = mset_concat_map [OF assms(2)]
  have nC: "?N bs = map fst (?C bs)" and nK: "?N bs = map fst (?K bs)" for bs
    by (simp_all add: map_concat o_def fst_kindsOf)
  have s: "s = \<lparr>byKind = rev (?K bins), caps = sort_key fst (?C bins)\<rparr>"
    and ok: "\<forall>b \<in> set bins. f b \<noteq> None \<and> capsOf f b \<noteq> [] \<and> [] \<notin> fst ` set (capsOf f b)"
    and d: "distinct (?N bins)" and ne: "bins \<noteq> []"
    using assms(1) by (auto simp: NewEngineSet_def engines_loop_Inr split: if_splits sum.splits)
  have d': "distinct (?N bins')" using d ms [of "\<lambda>b. map fst (capsOf f b)"] by (metis mset_eq_imp_distinct_iff)
  let ?s' = "\<lparr>byKind = rev (?K bins'), caps = ?C bins'\<rparr>"
  have "engines_loop f bins' \<lparr>byKind = [], caps = []\<rparr> = Inr ?s'"
    unfolding engines_loop_Inr using ok d' assms(2) by (auto dest: mset_eq_setD)
  moreover have "bins' \<noteq> []" using ne assms(2) by auto
  ultimately have n: "NewEngineSet f bins' = Inr (?s'\<lparr>caps := sort_key fst (?C bins')\<rparr>)"
    by (simp add: NewEngineSet_def)
  have "map_of (rev (?K bins')) = map_of (rev (?K bins))"
  proof (rule iffD2 [OF map_of_inject_set])
    show "distinct (map fst (rev (?K bins')))" using d' by (simp add: nK [symmetric] rev_map [symmetric])
    show "distinct (map fst (rev (?K bins)))" using d by (simp add: nK [symmetric] rev_map [symmetric])
    show "set (rev (?K bins')) = set (rev (?K bins))"
      using mset_eq_setD [OF ms [of "kindsOf f"]] by (simp only: set_rev)
  qed
  then have "BinaryFor (?s'\<lparr>caps := sort_key fst (?C bins')\<rparr>) = BinaryFor s"
    by (auto simp: BinaryFor_def s fun_eq_iff)
  moreover have "sort_key fst (?C bins') = sort_key fst (?C bins)"
  proof (rule sort_key_inj_key_eq)
    show "mset (?C bins') = mset (sort_key fst (?C bins))" using ms [of "capsOf f"] by simp
    show "inj_on fst (set (?C bins'))" using d' by (simp only: nC distinct_map)
  qed simp
  ultimately show ?thesis using n s by auto
qed

section \<open>What an assignment does to the table\<close>

text \<open>Every job id once, and the identities of job objects are not reused.\<close>

definition table_inv :: "Runtime \<Rightarrow> bool" where
  "table_inv r \<longleftrightarrow> distinct (map fst (jobs r)) \<and> (\<forall>(i, h) \<in> set (jobs r). hRef h < nextRef r)"

lemma send_same [simp]: "jobs (send m r) = jobs r" "nextRef (send m r) = nextRef r" "lookup (send m r) = lookup r"
  by (auto simp: send_def lookup_def)

lemma table_inv_lookup: "table_inv r \<Longrightarrow> lookup r i = Some h \<Longrightarrow> hRef h < nextRef r"
  by (auto simp: table_inv_def lookup_def dest!: map_of_SomeD)

lemma set_AList_update: "(k, v) \<in> set (AList.update i x al) \<Longrightarrow> (k, v) = (i, x) \<or> (k, v) \<in> set al"
  by (induction al) (auto split: if_splits)

lemma forget_other: "i \<noteq> k \<Longrightarrow> lookup (forget i ref r) k = lookup r k"
  by (auto simp: forget_def lookup_def delete_conv split: option.splits)

lemma table_inv_send [simp]: "table_inv (send m r) = table_inv r"
  by (simp add: table_inv_def)

lemma forget_nextRef [simp]: "nextRef (forget i ref r) = nextRef r"
  by (simp add: forget_def split: option.splits)

lemma set_delete_sub: "x \<in> set (AList.delete i al) \<Longrightarrow> x \<in> set al"
  by (simp add: AList.delete_eq)

lemma forget_inv: "table_inv r \<Longrightarrow> table_inv (forget i ref r)"
  unfolding forget_def table_inv_def by (auto simp: distinct_delete split: option.splits dest: set_delete_sub)

lemma admit_inv: "table_inv r \<Longrightarrow> table_inv (fst (admit ce engines p a r))"
  by (cases "vet engines p a")
     (auto simp: table_inv_def admit_def distinct_update newHeld_def split: prod.splits dest!: set_AList_update)

lemma abortHeld_inv: "table_inv r \<Longrightarrow> table_inv (abortHeld i h why r)"
  by (simp add: abortHeld_def forget_inv)

lemma updateJob_inv: "table_inv r \<Longrightarrow> table_inv (updateJob i f r)"
  using table_inv_lookup [of r i]
  by (auto simp: updateJob_def table_inv_def distinct_update split: option.splits dest!: set_AList_update)

lemma abortHeld_other: "i \<noteq> k \<Longrightarrow> lookup (abortHeld i h why r) k = lookup r k"
  by (simp add: abortHeld_def forget_other)

lemma abortHeld_nextRef [simp]: "nextRef (abortHeld i h why r) = nextRef r"
  by (simp add: abortHeld_def)

text \<open>The states a runtime can be in: what messages and the ends of jobs make of an empty table.\<close>

definition newRuntime :: Runtime where
  "newRuntime = \<lparr>jobs = [], outQ = [], nextRef = 0\<rparr>"

inductive runtime_reach :: "CoreEndpoints \<Rightarrow> 'c EngineSet \<Rightarrow> Runtime \<Rightarrow> bool" for ce engines where
  fresh: "runtime_reach ce engines newRuntime"
| assigned: "runtime_reach ce engines r \<Longrightarrow> runtime_reach ce engines (fst (onAssignment ce engines p ended a r))"
| leased: "runtime_reach ce engines r \<Longrightarrow> runtime_reach ce engines (fst (onLeaseGrant i st e t r))"
| credentialed: "runtime_reach ce engines r \<Longrightarrow> runtime_reach ce engines (handleCredential i c r)"
| marked: "runtime_reach ce engines r \<Longrightarrow> runtime_reach ce engines (updateJob i (\<lambda>j. fst (beginAbort why j)) r)"
| sent: "runtime_reach ce engines r \<Longrightarrow> runtime_reach ce engines (send m r)"
| drained: "runtime_reach ce engines r \<Longrightarrow> runtime_reach ce engines (r\<lparr>outQ := drop 1 (outQ r)\<rparr>)"
| forgotten: "runtime_reach ce engines r \<Longrightarrow> runtime_reach ce engines (forget i ref r)"

lemma onAssignment_inv: "table_inv r \<Longrightarrow> table_inv (fst (onAssignment ce engines p ended a r))"
  by (auto simp: onAssignment_def Let_def admit_inv abortHeld_inv split: offered.splits)

lemma reach_table_inv: "runtime_reach ce engines r \<Longrightarrow> table_inv r"
proof (induction rule: runtime_reach.induct)
  case fresh
  show ?case by (simp add: table_inv_def newRuntime_def)
next
  case (leased r i st e t)
  then show ?case by (auto simp: onLeaseGrant_def updateJob_inv split: option.splits LeaseState.splits)
next
  case (drained r)
  then show ?case by (simp add: table_inv_def)
qed (simp_all add: onAssignment_inv handleCredential_def updateJob_inv forget_inv)

text \<open>What a started assignment looks like in the table.\<close>

definition startedAs :: "'c EngineSet \<Rightarrow> BackpressureState \<Rightarrow> Assignment \<Rightarrow> Held \<Rightarrow> bool" where
  "startedAs engines p a h \<longleftrightarrow> epoch (hJob h) = aLeaseEpoch a \<and> hTasks h = aTasks a \<and> p \<noteq> PressureHard
     \<and> BinaryFor engines (aEngine a) = Inr (hBinary h)
     \<and> (aEngine a = EngineKindHost \<longrightarrow> aCredUser a \<noteq> [] \<and> (\<exists>m. Parse (aKnownHosts a) = Inr (hTrust h, m) \<and> hasMaterial m))"

lemma admit_started:
  assumes "admit ce engines p a r = (r', effs)" "effs \<noteq> []"
  shows "\<exists>h. effs = [RunJob (aJobId a) (nextRef r)] \<and> hRef h = nextRef r \<and> lookup r' (aJobId a) = Some h
    \<and> startedAs engines p a h \<and> (\<forall>k. k \<noteq> aJobId a \<longrightarrow> lookup r' k = lookup r k)"
proof -
  obtain binary trust where v: "vet engines p a = Inr (binary, trust)"
    using assms by (cases "vet engines p a") (auto simp: admit_def)
  have "startedAs engines p a (newHeld ce (nextRef r) a binary trust)"
    using v by (auto simp: startedAs_def newHeld_def setExpiry_def vet_def split: if_splits sum.splits dest!: Parse_sound)
  then show ?thesis
    using assms(1) v by (auto simp: admit_def lookup_def update_conv' newHeld_def)
qed

text \<open>
  A job is started for an assignment only when the table holds no incarnation of it or an older
  one, when its engine is hosted, the result buffer is not full and, for the credentialed engine, a
  user and host-key material with its source are given. The table then holds the new incarnation under
  the assignment's epoch, other jobs are untouched, and the end of the old incarnation, whenever it
  comes, does not remove the new one.
\<close>

theorem assignment_starts:
  assumes "runtime_reach ce engines r" "onAssignment ce engines p ended a r = (r', effs)" "effs \<noteq> []"
  shows "\<exists>h. effs = [RunJob (aJobId a) (hRef h)] \<and> lookup r' (aJobId a) = Some h \<and> startedAs engines p a h
    \<and> (\<forall>old. lookup r (aJobId a) = Some old \<longrightarrow>
         epoch (hJob old) < aLeaseEpoch a \<and> forget (aJobId a) (hRef old) r' = r')
    \<and> (\<forall>k. k \<noteq> aJobId a \<longrightarrow> lookup r' k = lookup r k)"
proof (cases "offer r a")
  case OfferFresh
  then have "admit ce engines p a r = (r', effs)" using assms(2) by (simp add: onAssignment_def)
  moreover have "lookup r (aJobId a) = None" using OfferFresh by (simp add: offer_def split: option.splits if_splits)
  ultimately show ?thesis using admit_started [OF _ assms(3)] by fastforce
next
  case (OfferSupersedes old)
  let ?r = "abortHeld (aJobId a) old LEASE_LOST r"
  have ad: "admit ce engines p a ?r = (r', effs)"
    using OfferSupersedes assms(2,3) by (auto simp: onAssignment_def Let_def split: if_splits)
  have old: "lookup r (aJobId a) = Some old" "epoch (hJob old) < aLeaseEpoch a"
    using OfferSupersedes by (auto simp: offer_def split: option.splits if_splits)
  obtain h where h: "effs = [RunJob (aJobId a) (nextRef r)]" "hRef h = nextRef r" "lookup r' (aJobId a) = Some h"
    "startedAs engines p a h" "\<forall>k. k \<noteq> aJobId a \<longrightarrow> lookup r' k = lookup ?r k"
    using admit_started [OF ad assms(3)] by auto
  have "hRef old < nextRef r" using table_inv_lookup [OF reach_table_inv [OF assms(1)] old(1)] .
  then have "forget (aJobId a) (hRef old) r' = r'" using h(2,3) by (simp add: forget_def)
  then show ?thesis using h old abortHeld_other by (intro exI [of _ h]) auto
qed (use assms in \<open>simp_all add: onAssignment_def\<close>)

text \<open>
  An assignment is never lost without a word: unless it repeats or precedes the incarnation held,
  it is started or, when there is room in the outbound queue, answered with a terminal message under
  its own epoch that says why it was refused.
\<close>

theorem assignment_answered:
  assumes "offer r a = OfferFresh" "length (outQ r) < OutCap" "onAssignment ce engines p ended a r = (r', effs)"
  shows "(\<exists>ref. effs = [RunJob (aJobId a) ref]) \<and> outQ r' = outQ r
    \<or> (\<exists>why. vet engines p a = Inl why \<and> effs = [] \<and> jobs r' = jobs r
         \<and> outQ r' = outQ r @ [Terminal (aJobId a) (aLeaseEpoch a) ENGINE_FAILURE (Some why)])"
  using assms by (auto simp: onAssignment_def admit_def send_def split: sum.splits)

text \<open>The grace of a cancellation is positive and within the bound, so \<open>stop\<close> does not change it.\<close>

lemma cancel_grace_bounded:
  "0 < cancelGrace ms \<and> cancelGrace ms \<le> 9 * Second \<and> stopGrace (cancelGrace ms) = cancelGrace ms"
proof -
  have "0 < unat ms" if "ms > 0" using that by (simp add: word_gt_0 unat_gt_0)
  then have "0 < int (unat ms)" if "ms > 0" using that of_nat_0_less_iff by blast
  then show ?thesis
    by (auto simp: cancelGrace_def stopGrace_def MaxStopGrace_def EngineStopGrace_def Millisecond_def Second_def Let_def)
qed

text \<open>
  A job whose lease is over by Core's clock is aborted by the watchdog as long as that clock is less
  than the safety margin ahead.
\<close>

lemma watchdog_margin:
  assumes "table_inv r" "lookup r i = Some h" "\<not> IsZero (expires (hJob h))"
    "expires (hJob h) \<le> coreNow" "coreNow - now < LeaseSafetyMargin"
  shows "AbortJob i (hRef h) LEASE_LOST \<in> set (watchLeases now r)"
  using assms map_of_SomeD [of "jobs r" i h]
  by (force simp: watchLeases_def snapshot_def lookup_def leaseLapsed_def Let_def)

section \<open>A concrete runtime\<close>

definition ex_caps :: "string \<Rightarrow> (string \<times> unit) list option" where
  "ex_caps bin = (if bin = ''/e/disc'' then Some [(''discovery'', ())]
     else if bin = ''/e/fp'' then Some [(''fingerprint'', ()), (''banner'', ())] else None)"

definition ex_engines :: "unit EngineSet" where
  "ex_engines = \<lparr>byKind = [(''banner'', ''/e/fp''), (''fingerprint'', ''/e/fp''), (''discovery'', ''/e/disc'')],
     caps = [(''banner'', ()), (''discovery'', ()), (''fingerprint'', ())]\<rparr>"

lemma ex_engine_set: "NewEngineSet ex_caps [''/e/disc'', ''/e/fp''] = Inr ex_engines"
  by (simp add: NewEngineSet_def ex_caps_def ex_engines_def)

theorem engine_set_order_independent_witness:
  "\<exists>s'. NewEngineSet ex_caps [''/e/fp'', ''/e/disc''] = Inr s' \<and> BinaryFor s' ''discovery'' = Inr ''/e/disc''"
proof -
  have "BinaryFor ex_engines ''discovery'' = Inr ''/e/disc''" by (simp add: BinaryFor_def ex_engines_def)
  then show ?thesis
    using engine_set_order_independent [OF ex_engine_set, of "[''/e/fp'', ''/e/disc'']"] by auto
qed

definition ex_assign :: "int \<Rightarrow> Assignment" where
  "ex_assign e = \<lparr>aJobId = ''j1'', aLeaseEpoch = e, aLeaseExpires = 0, aEngine = ''discovery'', aTasks = [],
     aAllowed = [], aExclusions = [], aCredUser = [], aKnownHosts = []\<rparr>"

abbreviation ex_runtime :: Runtime where
  "ex_runtime \<equiv> fst (onAssignment \<lparr>addrs = []\<rparr> ex_engines PressureOK False (ex_assign 1) newRuntime)"

lemma ex_runtime_reach: "runtime_reach \<lparr>addrs = []\<rparr> ex_engines ex_runtime"
  by (rule assigned [OF fresh])

theorem assignment_starts_witness:
  "\<exists>h. lookup (fst (onAssignment \<lparr>addrs = []\<rparr> ex_engines PressureOK False (ex_assign 2) ex_runtime)) ''j1'' = Some h
     \<and> epoch (hJob h) = 2"
proof -
  let ?o = "onAssignment \<lparr>addrs = []\<rparr> ex_engines PressureOK False (ex_assign 2) ex_runtime"
  have "snd ?o \<noteq> []"
    by (simp add: onAssignment_def ex_assign_def newRuntime_def offer_def lookup_def admit_def vet_def BinaryFor_def
        ex_engines_def EngineKindHost_def newHeld_def setExpiry_def abortHeld_def forget_def send_def OutCap_def)
  then obtain h where "lookup (fst ?o) (aJobId (ex_assign 2)) = Some h" "startedAs ex_engines PressureOK (ex_assign 2) h"
    using assignment_starts [OF ex_runtime_reach, of PressureOK False "ex_assign 2" "fst ?o" "snd ?o"] by auto
  then show ?thesis by (auto simp: startedAs_def ex_assign_def)
qed

theorem assignment_answered_witness:
  "outQ (fst (onAssignment \<lparr>addrs = []\<rparr> ex_engines PressureHard False (ex_assign 1) newRuntime))
     = [Terminal ''j1'' 1 ENGINE_FAILURE (Some BufferFull)]"
proof -
  let ?o = "onAssignment \<lparr>addrs = []\<rparr> ex_engines PressureHard False (ex_assign 1) newRuntime"
  have o: "offer newRuntime (ex_assign 1) = OfferFresh" "length (outQ newRuntime) < OutCap"
    by (simp_all add: offer_def lookup_def newRuntime_def OutCap_def)
  have v: "vet ex_engines PressureHard (ex_assign 1) = Inl BufferFull" by (simp add: vet_def)
  then have "snd ?o = []" using o(1) by (simp add: onAssignment_def admit_def)
  then have "outQ (fst ?o) = outQ newRuntime @ [Terminal (aJobId (ex_assign 1)) (aLeaseEpoch (ex_assign 1)) ENGINE_FAILURE (Some BufferFull)]"
    using assignment_answered [OF o surjective_pairing, of "\<lparr>addrs = []\<rparr>" ex_engines PressureHard False] v by auto
  moreover have "outQ newRuntime = []" "aJobId (ex_assign 1) = ''j1''" "aLeaseEpoch (ex_assign 1) = 1"
    by (simp_all add: newRuntime_def ex_assign_def)
  ultimately show ?thesis by simp
qed

end
