(* ===== verification/Core_Leases.thy ===== *)
theory Core_Leases
  imports Go_Prelude
begin

text \<open>
  Core's side of a job: claiming, leasing, renewing, ending and expiring (\<open>internal/store/jobs.go\<close>
  and \<open>leases.go\<close>), in the transactions that \<open>internal/dispatch/dispatch.go\<close> and \<open>sweeper.go\<close>
  make of them.

  The state is the rows of one tenant: every statement has the tenant in its predicate. A statement is
  a function on the rows; a transaction that returns an error leaves them unchanged. Rows that another
  transaction has locked are skipped by \<open>FOR UPDATE SKIP LOCKED\<close>: which ones is an argument. The
  clock readings of one statement are one argument.
\<close>

section \<open>Rows\<close>

datatype LeaseState = LeaseGranted | LeaseLost | LeaseExpired | LeaseReleased

definition LeaseTTL :: duration where "LeaseTTL = 60 * 1000000000"

record Lease =
  Epoch :: int
  HolderID :: uuid
  State :: LeaseState
  GrantedAt :: time
  ExpiresAt :: time
  RenewedAt :: "time option"

datatype JobStatus = JobQueued | JobAssigned | JobRunning | JobCompleted | JobFailed | JobQuarantined | JobCancelled | JobKilled

datatype StoredReason =
    TerminationCompleted
  | TerminationLeaseLost
  | TerminationCancelled
  | TerminationKilled
  | TerminationEngineFailure
  | TerminationWindowExpired
  | TerminationScopeViolationHalt

datatype TaskStatus = TaskPending | TaskRunning | TaskCompleted | TaskFailed | TaskSkipped

text \<open>
  A task: its target as it is sent, its status, its target row if any, whether its asset is fragile and
  whether an accepted observation names it.
\<close>

record TaskRow =
  taskID :: uuid
  taskTarget :: string
  taskFragile :: bool
  taskStatus :: TaskStatus
  targetID :: "uuid option"
  hasAccepted :: bool

text \<open>A job with its tasks and all the lease rows that name it, in the order they were inserted.\<close>

record Job =
  ScanID :: uuid
  ScanPointID :: "uuid option"
  Engine :: string
  Status :: JobStatus
  Attempt :: nat
  ReassignSafe :: bool
  Reason :: "StoredReason option"
  CreatedAt :: time
  CompletedAt :: "time option"
  jobTasks :: "TaskRow list"
  leases :: "Lease list"

type_synonym rows = "(uuid \<times> Job) list"

definition MaxAttempts :: nat where "MaxAttempts = 5"

section \<open>Leases\<close>

definition maxEpoch :: "Lease list \<Rightarrow> int" where
  "maxEpoch ls = foldr (\<lambda>l m. max (Epoch l) m) ls 0"

definition orTTL :: "duration \<Rightarrow> duration" where
  "orTTL ttl = (if ttl \<le> 0 then LeaseTTL else ttl)"

definition Grant :: "time \<Rightarrow> uuid \<Rightarrow> duration \<Rightarrow> Job \<Rightarrow> Job \<times> Lease" where
  "Grant now holder ttl j =
     (let l = \<lparr>Epoch = maxEpoch (leases j) + 1, HolderID = holder, State = LeaseGranted, GrantedAt = now,
               ExpiresAt = now + orTTL ttl, RenewedAt = None\<rparr>
      in (j\<lparr>leases := leases j @ [l]\<rparr>, l))"

definition renewable :: "time \<Rightarrow> int \<Rightarrow> uuid \<Rightarrow> Lease \<Rightarrow> bool" where
  "renewable now e holder l \<longleftrightarrow> Epoch l = e \<and> HolderID l = holder \<and> State l = LeaseGranted \<and> ExpiresAt l > now"

definition renewed :: "time \<Rightarrow> duration \<Rightarrow> Lease \<Rightarrow> Lease" where
  "renewed now ttl l = l\<lparr>RenewedAt := Some now, ExpiresAt := now + orTTL ttl\<rparr>"

text \<open>\<open>None\<close> is \<open>ErrNotFound\<close>: no row matched.\<close>

definition Renew :: "time \<Rightarrow> int \<Rightarrow> uuid \<Rightarrow> duration \<Rightarrow> Job \<Rightarrow> (Job \<times> Lease) option" where
  "Renew now e holder ttl j =
     (case find (renewable now e holder) (leases j) of
        None \<Rightarrow> None
      | Some l \<Rightarrow>
          Some (j\<lparr>leases := map (\<lambda>l. if renewable now e holder l then renewed now ttl l else l) (leases j)\<rparr>,
                renewed now ttl l))"

definition setState :: "(Lease \<Rightarrow> bool) \<Rightarrow> LeaseState \<Rightarrow> Job \<Rightarrow> Job option" where
  "setState p st j =
     (if list_ex p (leases j) then Some (j\<lparr>leases := map (\<lambda>l. if p l then l\<lparr>State := st\<rparr> else l) (leases j)\<rparr>)
      else None)"

definition ReleaseAny :: "int \<Rightarrow> LeaseState \<Rightarrow> Job \<Rightarrow> Job option" where
  "ReleaseAny e st j = setState (\<lambda>l. Epoch l = e \<and> State l = LeaseGranted) st j"

definition Release :: "int \<Rightarrow> uuid \<Rightarrow> LeaseState \<Rightarrow> Job \<Rightarrow> Job option" where
  "Release e holder st j = setState (\<lambda>l. Epoch l = e \<and> HolderID l = holder \<and> State l = LeaseGranted) st j"

definition Current :: "Job \<Rightarrow> Lease option" where
  "Current j = (case rev (sort_key Epoch (leases j)) of [] \<Rightarrow> None | l # _ \<Rightarrow> Some l)"

section \<open>Jobs\<close>

definition endTask :: "time \<Rightarrow> bool \<Rightarrow> TaskStatus \<Rightarrow> TaskRow \<Rightarrow> TaskRow" where
  "endTask now allCovered otherwise t =
     (if taskStatus t = TaskPending \<or> taskStatus t = TaskRunning
      then t\<lparr>taskStatus := (if allCovered then TaskCompleted else if hasAccepted t then TaskCompleted else otherwise)\<rparr>
      else t)"

definition endTasks :: "time \<Rightarrow> bool \<Rightarrow> TaskStatus \<Rightarrow> Job \<Rightarrow> Job" where
  "endTasks now allCovered otherwise j = j\<lparr>jobTasks := map (endTask now allCovered otherwise) (jobTasks j)\<rparr>"

definition ReconcileTasksWithResults :: "Job \<Rightarrow> Job" where
  "ReconcileTasksWithResults j =
     j\<lparr>jobTasks := map (\<lambda>t. if taskStatus t = TaskFailed \<and> hasAccepted t then t\<lparr>taskStatus := TaskCompleted\<rparr> else t)
        (jobTasks j)\<rparr>"

text \<open>The tasks that an accepted observation now names; the statements above look no further back than an hour before the job.\<close>

definition markObserved :: "(uuid \<Rightarrow> time \<Rightarrow> bool) \<Rightarrow> Job \<Rightarrow> Job" where
  "markObserved seen j =
     j\<lparr>jobTasks := map (\<lambda>t. t\<lparr>hasAccepted := hasAccepted t \<or> seen (taskID t) (CreatedAt j)\<rparr>) (jobTasks j)\<rparr>"

definition markRows :: "(uuid \<Rightarrow> time \<Rightarrow> bool) \<Rightarrow> rows \<Rightarrow> rows" where
  "markRows seen rs = map (\<lambda>(i, j). (i, markObserved seen j)) rs"

definition MarkRunning :: "uuid \<Rightarrow> Job \<Rightarrow> Job option" where
  "MarkRunning sp j =
     (if ScanPointID j = Some sp \<and> Status j = JobAssigned
      then Some (j\<lparr>Status := JobRunning,
                   jobTasks := map (\<lambda>t. if taskStatus t = TaskPending then t\<lparr>taskStatus := TaskRunning\<rparr> else t) (jobTasks j)\<rparr>)
      else None)"

definition statusFor :: "StoredReason \<Rightarrow> JobStatus" where
  "statusFor r = (case r of TerminationCompleted \<Rightarrow> JobCompleted | TerminationCancelled \<Rightarrow> JobCancelled
     | TerminationKilled \<Rightarrow> JobKilled | _ \<Rightarrow> JobFailed)"

definition Terminate :: "time \<Rightarrow> uuid \<Rightarrow> StoredReason \<Rightarrow> bool \<Rightarrow> Job \<Rightarrow> Job option" where
  "Terminate now sp r incomplete j =
     (let st = statusFor r
      in if ScanPointID j = Some sp \<and> (Status j = JobAssigned \<or> Status j = JobRunning)
         then let j' = j\<lparr>Status := st, Reason := Some r, CompletedAt := Some now\<rparr>;
                  otherwise = (if st = JobCancelled \<or> st = JobKilled then TaskSkipped else TaskFailed)
              in Some (endTasks now (st = JobCompleted \<and> \<not> incomplete) otherwise j')
         else None)"

section \<open>Claiming\<close>

datatype ScanStatus = ScanPending | ScanPlanning | ScanRunning | ScanCompleted | ScanFailed | ScanCancelled | ScanKilled

text \<open>\<open>KillOther\<close> is a scope that a later migration adds.\<close>

datatype KillScope = KillTenant | KillZone uuid | KillScan uuid | KillOther

text \<open>What \<open>Claim\<close> reads beside the jobs: scans, their policies, live kill switches, targets and zones.\<close>

record ClaimDB =
  scanStatus :: "uuid \<Rightarrow> ScanStatus option"
  scanPolicy :: "uuid \<Rightarrow> uuid option"
  allowedZones :: "uuid \<Rightarrow> string list"
  liveKills :: "KillScope list"
  zoneOf :: "uuid \<Rightarrow> uuid option"
  zoneText :: "uuid \<Rightarrow> string"
  authorised :: "uuid \<Rightarrow> bool"

definition killBlocks :: "ClaimDB \<Rightarrow> uuid \<Rightarrow> Job \<Rightarrow> KillScope \<Rightarrow> bool" where
  "killBlocks d sp j k =
     (case k of
        KillScan s \<Rightarrow> s = ScanID j
      | KillZone z \<Rightarrow> zoneOf d sp = Some z
      | KillTenant \<Rightarrow> True
      | KillOther \<Rightarrow> True)"

definition zoneForbids :: "ClaimDB \<Rightarrow> uuid \<Rightarrow> Job \<Rightarrow> bool" where
  "zoneForbids d sp j =
     (case scanPolicy d (ScanID j) of
        None \<Rightarrow> False
      | Some p \<Rightarrow>
          let zs = allowedZones d p;
              mine = (case zoneOf d sp of None \<Rightarrow> [] | Some z \<Rightarrow> zoneText d z)
          in length zs > 0 \<and> \<not> list_ex (\<lambda>z. ToLower z = mine) zs)"

definition claimable :: "ClaimDB \<Rightarrow> uuid \<Rightarrow> string list \<Rightarrow> uuid list \<Rightarrow> Job \<Rightarrow> bool" where
  "claimable d sp engines closed j \<longleftrightarrow>
     Status j = JobQueued \<and> Engine j \<in> set engines \<and> Attempt j < MaxAttempts
     \<and> scanStatus d (ScanID j) \<notin> {Some ScanCancelled, Some ScanKilled, Some ScanFailed}
     \<and> \<not> list_ex (killBlocks d sp j) (liveKills d)
     \<and> \<not> zoneForbids d sp j
     \<and> \<not> (\<exists>p. scanPolicy d (ScanID j) = Some p \<and> p \<in> set closed)
     \<and> jobTasks j \<noteq> []
     \<and> list_all (\<lambda>t. case targetID t of None \<Rightarrow> False | Some tg \<Rightarrow> authorised d tg) (jobTasks j)"

definition claimed :: "uuid \<Rightarrow> Job \<Rightarrow> Job" where
  "claimed sp j = j\<lparr>Status := JobAssigned, ScanPointID := Some sp, Attempt := Attempt j + 1\<rparr>"

definition claimLimit :: "int \<Rightarrow> nat" where
  "claimLimit limit = (if limit \<le> 0 \<or> limit > 100 then 10 else nat limit)"

text \<open>The ids of the jobs to claim, oldest first, and the rows with them claimed.\<close>

definition Claim :: "ClaimDB \<Rightarrow> (uuid \<Rightarrow> bool) \<Rightarrow> uuid \<Rightarrow> string list \<Rightarrow> int \<Rightarrow> uuid list \<Rightarrow> rows \<Rightarrow> uuid list \<times> rows" where
  "Claim d locked sp engines limit closed rs =
     (if engines = [] then ([], rs)
      else let ids = map fst (take (claimLimit limit)
                      (sort_key (\<lambda>(i, j). CreatedAt j)
                        (filter (\<lambda>(i, j). claimable d sp engines closed j \<and> \<not> locked i) rs)))
           in (ids, map (\<lambda>(i, j). (i, if i \<in> set ids then claimed sp j else j)) rs))"

section \<open>Transactions\<close>

text \<open>
  \<open>offerWork\<close>: claim, then for each claimed job grant a lease and either put it on the wire or refuse it
  (\<open>refuseJob\<close>, \<open>refuseCredentialedJob\<close>). Which jobs are refused, and with which reason, is an
  argument, as is whether the transaction fails.
\<close>

definition offerJob :: "time \<Rightarrow> uuid \<Rightarrow> StoredReason option \<Rightarrow> Job \<Rightarrow> Job" where
  "offerJob now sp refused j =
     (let (j', l) = Grant now sp LeaseTTL j
      in case refused of
           None \<Rightarrow> j'
         | Some r \<Rightarrow> (case Terminate now sp r False j' of None \<Rightarrow> j' | Some j'' \<Rightarrow> j''))"

definition offerWork :: "time \<Rightarrow> ClaimDB \<Rightarrow> (uuid \<Rightarrow> bool) \<Rightarrow> uuid \<Rightarrow> string list \<Rightarrow> int \<Rightarrow> uuid list \<Rightarrow>
    (uuid \<Rightarrow> StoredReason option) \<Rightarrow> bool \<Rightarrow> rows \<Rightarrow> rows" where
  "offerWork now d locked sp engines limit closed refused fails rs =
     (if fails then rs
      else case Claim d locked sp engines limit closed rs of
             (ids, rs') \<Rightarrow> map (\<lambda>(i, j). (i, if i \<in> set ids then offerJob now sp (refused i) j else j)) rs')"

definition updateRow :: "uuid \<Rightarrow> (Job \<Rightarrow> Job option) \<Rightarrow> rows \<Rightarrow> rows" where
  "updateRow i f rs = map (\<lambda>(k, j). (k, if k = i then (case f j of None \<Rightarrow> j | Some j' \<Rightarrow> j') else j)) rs"

definition onRenewal :: "time \<Rightarrow> uuid \<Rightarrow> int \<Rightarrow> uuid \<Rightarrow> rows \<Rightarrow> rows" where
  "onRenewal now i e sp rs = updateRow i (\<lambda>j. map_option fst (Renew now e sp LeaseTTL j)) rs"

definition onProgress :: "uuid \<Rightarrow> uuid \<Rightarrow> rows \<Rightarrow> rows" where
  "onProgress i sp rs = updateRow i (MarkRunning sp) rs"

definition onTerminal :: "time \<Rightarrow> uuid \<Rightarrow> int \<Rightarrow> uuid \<Rightarrow> StoredReason \<Rightarrow> bool \<Rightarrow> rows \<Rightarrow> rows" where
  "onTerminal now i e sp r incomplete rs =
     updateRow i (Release e sp LeaseReleased) (updateRow i (Terminate now sp r incomplete) rs)"

text \<open>The sweep: which leases have run out, oldest first, and what becomes of their jobs.\<close>

definition overdue :: "time \<Rightarrow> Lease \<Rightarrow> bool" where
  "overdue now l \<longleftrightarrow> State l = LeaseGranted \<and> ExpiresAt l \<le> now"

definition sweepLimit :: "int \<Rightarrow> nat" where
  "sweepLimit limit = (if limit \<le> 0 \<or> limit > 500 then 100 else nat limit)"

definition picked :: "time \<Rightarrow> (uuid \<Rightarrow> bool) \<Rightarrow> int \<Rightarrow> rows \<Rightarrow> (uuid \<times> int) list" where
  "picked now locked limit rs =
     map (\<lambda>(i, l). (i, Epoch l)) (take (sweepLimit limit) (sort_key (\<lambda>(i, l). ExpiresAt l)
       (concat (map (\<lambda>(i, j). map (Pair i) (filter (\<lambda>l. overdue now l \<and> \<not> locked i) (leases j))) rs))))"

definition expireJob :: "time \<Rightarrow> int list \<Rightarrow> Job \<Rightarrow> Job" where
  "expireJob now es j =
     (if list_ex (\<lambda>l. overdue now l \<and> Epoch l \<in> set es) (leases j)
      then let j = j\<lparr>leases := map (\<lambda>l. if overdue now l \<and> Epoch l \<in> set es then l\<lparr>State := LeaseExpired\<rparr> else l) (leases j)\<rparr>
           in if Status j = JobAssigned \<or> Status j = JobRunning
              then if ReassignSafe j
                   then j\<lparr>Status := JobQueued, ScanPointID := None, CompletedAt := None,
                          jobTasks := map (\<lambda>t. if taskStatus t = TaskRunning then t\<lparr>taskStatus := TaskPending\<rparr> else t) (jobTasks j)\<rparr>
                   else endTasks now False TaskFailed
                          (j\<lparr>Status := JobFailed, Reason := Some TerminationLeaseLost, CompletedAt := Some now\<rparr>)
              else j
      else j)"

definition ExpireLeases :: "time \<Rightarrow> (uuid \<Rightarrow> bool) \<Rightarrow> int \<Rightarrow> rows \<Rightarrow> rows" where
  "ExpireLeases now locked limit rs =
     (let ps = picked now locked limit rs
      in map (\<lambda>(i, j). (i, expireJob now (map snd (filter (\<lambda>(k, e). k = i) ps)) j)) rs)"

text \<open>Planning inserts a queued job (\<open>store/scans.go\<close>).\<close>

definition newJob :: "uuid \<Rightarrow> string \<Rightarrow> bool \<Rightarrow> time \<Rightarrow> TaskRow list \<Rightarrow> Job" where
  "newJob scan engine safe now ts =
     \<lparr>ScanID = scan, ScanPointID = None, Engine = engine, Status = JobQueued, Attempt = 0, ReassignSafe = safe,
      Reason = None, CreatedAt = now, CompletedAt = None, jobTasks = ts, leases = []\<rparr>"

section \<open>Steps\<close>

text \<open>One committed transaction, at the clock reading \<open>now\<close>.\<close>

inductive core_step :: "time \<Rightarrow> rows \<Rightarrow> rows \<Rightarrow> bool" where
  planned: "i \<notin> fst ` set rs \<Longrightarrow> core_step now rs (rs @ [(i, newJob scan engine safe now ts)])"
| offered: "core_step now rs (offerWork now d locked sp engines limit closed refused fails rs)"
| renewal: "core_step now rs (onRenewal now i e sp rs)"
| progress: "core_step now rs (onProgress i sp rs)"
| terminal: "core_step now rs (onTerminal now i e sp r incomplete rs)"
| reconciled: "core_step now rs (updateRow i (\<lambda>j. Some (ReconcileTasksWithResults j)) rs)"
| swept: "core_step now rs (ExpireLeases now locked limit rs)"
| observed: "core_step now rs (markRows seen rs)"

inductive core_reach :: "rows \<Rightarrow> bool" where
  empty: "core_reach []"
| stepped: "core_reach rs \<Longrightarrow> core_step now rs rs' \<Longrightarrow> core_reach rs'"

end
