(* ===== verification/Core_Constraints.thy ===== *)
theory Core_Constraints
  imports Go_Text Scanpoint_Budget Scope
begin

text \<open>
  What Core lets a scan point do: maintenance windows (\<open>internal/dispatch/windows.go\<close>), the scope
  rules of a policy as wire fields (\<open>scope.go\<close>) and the constraints of an assignment
  (\<open>constraintsFor\<close> in \<open>dispatch.go\<close>).

  The time zone database and the decoding of the window documents from JSON are arguments. A calendar
  date is its number of days since 1 January 1970, which \<open>time.Date\<close> normalises to and \<open>Time.Date\<close>
  reads back; this is the proleptic Gregorian calendar on both sides.
\<close>

section \<open>Zones and wall clocks\<close>

text \<open>
  A location gives, for an instant in Unix seconds, the offset in force and the interval of instants
  for which it is: \<open>Location.lookup\<close>.
\<close>

type_synonym Location = "int \<Rightarrow> int \<times> int \<times> int"

definition nanos :: int where "nanos = 1000000000"
definition unixToInternal :: int where "unixToInternal = 62135596800"

definition unixSec :: "time \<Rightarrow> int" where "unixSec t = t div nanos - unixToInternal"
definition ofUnix :: "int \<Rightarrow> time" where "ofUnix s = (s + unixToInternal) * nanos"

definition UTC :: Location where "UTC s = (0, - (2 ^ 63), 2 ^ 63)"

text \<open>\<open>time.Date\<close> with a day, minutes past midnight and no seconds.\<close>

definition Date :: "Location \<Rightarrow> int \<Rightarrow> int \<Rightarrow> time" where
  "Date loc day minutes =
     (let unix = day * 86400 + minutes * 60;
          (offset, start, end1) = loc unix
      in if offset \<noteq> 0
         then let utc = unix - offset;
                  offset' = (if utc < start \<or> utc \<ge> end1 then fst (loc utc) else offset)
              in ofUnix (unix - offset')
         else ofUnix unix)"

definition localSec :: "Location \<Rightarrow> time \<Rightarrow> int" where
  "localSec loc t = unixSec t + fst (loc (unixSec t))"

definition dayOf :: "Location \<Rightarrow> time \<Rightarrow> int" where "dayOf loc t = localSec loc t div 86400"
definition minuteOf :: "Location \<Rightarrow> time \<Rightarrow> int" where "minuteOf loc t = localSec loc t mod 86400 div 60"

text \<open>Sunday is 0; 1 January 1970 was a Thursday.\<close>

definition weekday :: "int \<Rightarrow> int" where "weekday day = (day + 4) mod 7"

definition wallClock :: "Location \<Rightarrow> int \<Rightarrow> int \<Rightarrow> time \<times> bool" where
  "wallClock loc day minutes = (let t = Date loc day minutes in (t, minuteOf loc t = minutes))"

section \<open>Maintenance windows\<close>

record window =
  wStart :: string
  wEnd :: string
  wDays :: "string list"
  wTZ :: string

record parsedWindow =
  startMin :: int
  endMin :: int
  days :: "int list option"
  loc :: Location

definition MaxWindowsPerPolicy :: nat where "MaxWindowsPerPolicy = 10"

definition parseHHMM :: "string \<Rightarrow> int option" where
  "parseHHMM s =
     (case cutByte (CHR '':'') (TrimSpace s) of
        None \<Rightarrow> None
      | Some (h, m) \<Rightarrow>
          (case atoi h of
             None \<Rightarrow> None
           | Some hh \<Rightarrow>
               if length h \<noteq> 2 \<or> hh < 0 \<or> hh > 23 then None
               else case atoi m of
                      None \<Rightarrow> None
                    | Some mm \<Rightarrow> if length m \<noteq> 2 \<or> mm < 0 \<or> mm > 59 then None else Some (hh * 60 + mm)))"

definition weekdays :: "string \<Rightarrow> int option" where
  "weekdays d = map_of [(''sun'', 0), (''mon'', 1), (''tue'', 2), (''wed'', 3), (''thu'', 4), (''fri'', 5), (''sat'', 6)] d"

fun parseDays :: "string list \<Rightarrow> int list option" where
  "parseDays [] = Some []"
| "parseDays (d # ds) =
     (case weekdays (ToLower (TrimSpace d)) of
        None \<Rightarrow> None
      | Some wd \<Rightarrow> map_option (Cons wd) (parseDays ds))"

datatype windowError = BadStart | BadEnd | ZeroOrDay | BadZone | BadDay | TooManyWindows | NotWindows

definition parseWindow :: "(string \<Rightarrow> Location option) \<Rightarrow> window \<Rightarrow> windowError + parsedWindow" where
  "parseWindow loadLocation w =
     (case parseHHMM (wStart w) of
        None \<Rightarrow> Inl BadStart
      | Some s \<Rightarrow>
          (case parseHHMM (wEnd w) of
             None \<Rightarrow> Inl BadEnd
           | Some e \<Rightarrow>
               if s = e then Inl ZeroOrDay
               else case (if TrimSpace (wTZ w) \<noteq> [] then loadLocation (TrimSpace (wTZ w)) else Some UTC) of
                      None \<Rightarrow> Inl BadZone
                    | Some l \<Rightarrow>
                        if length (wDays w) > 0
                        then case parseDays (wDays w) of
                               None \<Rightarrow> Inl BadDay
                             | Some ds \<Rightarrow> Inr \<lparr>startMin = s, endMin = e, days = Some ds, loc = l\<rparr>
                        else Inr \<lparr>startMin = s, endMin = e, days = None, loc = l\<rparr>))"

fun parse_loop :: "(string \<Rightarrow> Location option) \<Rightarrow> window list \<Rightarrow> windowError + parsedWindow list" where
  "parse_loop ld [] = Inr []"
| "parse_loop ld (w # ws) =
     (case parseWindow ld w of
        Inl e \<Rightarrow> Inl e
      | Inr p \<Rightarrow> (case parse_loop ld ws of Inl e \<Rightarrow> Inl e | Inr ps \<Rightarrow> Inr (p # ps)))"

definition parseWindows :: "(string \<Rightarrow> window list option) \<Rightarrow> (string \<Rightarrow> Location option) \<Rightarrow> string \<Rightarrow>
    windowError + parsedWindow list" where
  "parseWindows decode loadLocation raw =
     (if length raw = 0 then Inr []
      else case decode raw of
             None \<Rightarrow> Inl NotWindows
           | Some docs \<Rightarrow>
               if length docs = 0 then Inr []
               else if length docs > MaxWindowsPerPolicy then Inl TooManyWindows
               else parse_loop loadLocation docs)"

text \<open>The opening of a window that starts on the day at \<open>dayOffset\<close> from today, if \<open>now\<close> is inside it: its end.\<close>

definition occurrence :: "parsedWindow \<Rightarrow> time \<Rightarrow> int \<Rightarrow> time option" where
  "occurrence w now dayOffset =
     (let day = Date (loc w) (dayOf (loc w) now + dayOffset) 0;
          d = dayOf (loc w) day
      in if (case days w of None \<Rightarrow> False | Some ds \<Rightarrow> weekday d \<notin> set ds) then None
         else let (opens, okOpen) = wallClock (loc w) d (startMin w);
                  (closes, okClose) = wallClock (loc w) d (endMin w)
              in if \<not> okOpen \<or> \<not> okClose then None
                 else let (closes, okClose) = (if \<not> closes > opens then wallClock (loc w) (d + 1) (endMin w) else (closes, okClose))
                      in if \<not> okClose then None
                         else if now < opens \<or> \<not> now < closes then None
                         else Some closes)"

fun window_loop :: "(parsedWindow \<times> int) list \<Rightarrow> time \<Rightarrow> time \<times> bool \<Rightarrow> time \<times> bool" where
  "window_loop [] now acc = acc"
| "window_loop ((w, dayOffset) # ws) now (end1, open1) =
     (case occurrence w now dayOffset of
        None \<Rightarrow> window_loop ws now (end1, open1)
      | Some closes \<Rightarrow> window_loop ws now (if closes > end1 then closes else end1, True))"

definition windowEnd :: "parsedWindow list \<Rightarrow> time \<Rightarrow> time \<times> bool" where
  "windowEnd windows now =
     (if length windows = 0 then (0, True)
      else window_loop (concat (map (\<lambda>w. [(w, 0), (w, -1)]) windows)) now (0, False))"

section \<open>Scope rules and constraints\<close>

datatype ScopeRuleEffect = ScopeAllow | ScopeDeny | EffectOther
datatype ScopeMatchType = MatchCIDR | MatchHostname | MatchURL | MatchOther

record ScopeRule =
  Effect :: ScopeRuleEffect
  MatchType :: ScopeMatchType
  MatchValue :: string

datatype planError = NotCIDR string | EmptyValue | CannotTravel | UnknownEffect

fun scopePlan_loop :: "ScopeRule list \<Rightarrow> string list \<Rightarrow> string list \<Rightarrow> planError + (string list \<times> string list)" where
  "scopePlan_loop [] al ex = Inr (al, ex)"
| "scopePlan_loop (r # rs) al ex =
     (case (case MatchType r of
              MatchCIDR \<Rightarrow> if ParsePrefix (MatchValue r) = None then Some (NotCIDR (MatchValue r)) else None
            | MatchHostname \<Rightarrow> if TrimSpace (MatchValue r) = [] then Some EmptyValue else None
            | MatchURL \<Rightarrow> if TrimSpace (MatchValue r) = [] then Some EmptyValue else None
            | MatchOther \<Rightarrow> Some CannotTravel) of
        Some e \<Rightarrow> Inl e
      | None \<Rightarrow>
          (case Effect r of
             ScopeAllow \<Rightarrow> scopePlan_loop rs (al @ [MatchValue r]) ex
           | ScopeDeny \<Rightarrow> scopePlan_loop rs al (ex @ [MatchValue r])
           | EffectOther \<Rightarrow> Inl UnknownEffect))"

definition scopePlan :: "ScopeRule list \<Rightarrow> planError + (string list \<times> string list)" where
  "scopePlan rs = scopePlan_loop rs [] []"

datatype PolicySafety = SafetySafeMode | SafetyIntrusiveMode

record JobPolicy =
  MaxRatePPS :: "int option"
  PolicyConcurrent :: "int option"
  PolicySafetyMode :: PolicySafety
  ScanSafetyMode :: PolicySafety
  TimeWindows :: string

definition platformMaxRatePPS :: int where "platformMaxRatePPS = 1000"
definition platformMaxRatePerTarget :: int where "platformMaxRatePerTarget = 50"
definition platformFragileRatePPS :: int where "platformFragileRatePPS = 10"
definition platformMaxConcurrentPerTarget :: int where "platformMaxConcurrentPerTarget = 20"
definition platformConnectTimeoutMs :: int where "platformConnectTimeoutMs = 3000"

record WireConstraints = ScanConstraints +
  wcMaxRatePps :: uint32
  wcAllowed :: "string list"
  wcExclusions :: "string list"
  wcWindowEnds :: int

datatype constraintError = ScopeError planError | WindowError windowError | OutsideWindow

text \<open>A quantity a policy may lower and never raise.\<close>

definition lowered :: "int \<Rightarrow> int option \<Rightarrow> uint32" where
  "lowered platform v =
     (case v of None \<Rightarrow> word_of_int platform
      | Some v \<Rightarrow> if v > 0 \<and> v < platform then word_of_int v else word_of_int platform)"

definition constraintsFor ::
  "(string \<Rightarrow> window list option) \<Rightarrow> (string \<Rightarrow> Location option) \<Rightarrow> JobPolicy option \<Rightarrow> ScopeRule list \<Rightarrow> time \<Rightarrow>
    constraintError + WireConstraints" where
  "constraintsFor decode loadLocation p rules now =
     (let rate = lowered platformMaxRatePPS (Option.bind p MaxRatePPS);
          perTarget = min (word_of_int platformMaxRatePerTarget) rate;
          fragile = min (word_of_int platformFragileRatePPS) perTarget;
          concurrent = lowered platformMaxConcurrentPerTarget (Option.bind p PolicyConcurrent);
          mode = (case p of None \<Rightarrow> ''safe''
                  | Some p \<Rightarrow> if PolicySafetyMode p = SafetyIntrusiveMode \<and> ScanSafetyMode p = SafetyIntrusiveMode
                             then ''intrusive'' else ''safe'')
      in case scopePlan rules of
           Inl e \<Rightarrow> Inl (ScopeError e)
         | Inr (al, ex) \<Rightarrow>
             (case (case p of
                      None \<Rightarrow> Inr 0
                    | Some p \<Rightarrow>
                        (case parseWindows decode loadLocation (TimeWindows p) of
                           Inl e \<Rightarrow> Inl (WindowError e)
                         | Inr ws \<Rightarrow>
                             (case windowEnd ws now of (end1, open1) \<Rightarrow>
                                if \<not> open1 then Inl OutsideWindow
                                else Inr (if \<not> IsZero end1 then unixSec end1 else 0)))) of
                Inl e \<Rightarrow> Inl e
              | Inr windowEnds \<Rightarrow>
                  Inr \<lparr>MaxRatePerTarget = perTarget, FragileRatePps = fragile,
                       ConnectTimeoutMs = word_of_int platformConnectTimeoutMs,
                       ScMaxConcurrentPerTarget = concurrent, ScSafetyMode = mode,
                       wcMaxRatePps = rate, wcAllowed = al, wcExclusions = ex, wcWindowEnds = windowEnds\<rparr>))"

section \<open>Openings in any zone\<close>

definition runsOn :: "parsedWindow \<Rightarrow> int \<Rightarrow> bool" where
  "runsOn w d \<longleftrightarrow> (case days w of None \<Rightarrow> True | Some ds \<Rightarrow> weekday d \<in> set ds)"

text \<open>
  The window opens on day \<open>d\<close> at \<open>opens\<close> and closes at \<open>closes\<close>: both instants read, on a clock in
  its zone, the times the operator wrote.
\<close>

definition opensFor :: "parsedWindow \<Rightarrow> int \<Rightarrow> time \<Rightarrow> time \<Rightarrow> bool" where
  "opensFor w d opens closes \<longleftrightarrow> runsOn w d
     \<and> opens = Date (loc w) d (startMin w) \<and> minuteOf (loc w) opens = startMin w
     \<and> (closes = Date (loc w) d (endMin w) \<or> closes = Date (loc w) (d + 1) (endMin w))
     \<and> minuteOf (loc w) closes = endMin w"

lemma occurrence_opens:
  assumes "occurrence w now k = Some closes"
  shows "\<exists>d opens. opensFor w d opens closes \<and> opens \<le> now \<and> now < closes"
  using assms
  by (auto simp: occurrence_def opensFor_def runsOn_def wallClock_def Let_def
      split: if_splits option.splits prod.splits)

text \<open>The loop gathers the closings of all openings \<open>now\<close> is in.\<close>

fun closings :: "(parsedWindow \<times> int) list \<Rightarrow> time \<Rightarrow> time list" where
  "closings [] now = []"
| "closings ((w, k) # ps) now = (case occurrence w now k of None \<Rightarrow> closings ps now | Some c \<Rightarrow> c # closings ps now)"

lemma window_loop_closings:
  "window_loop ps now (e, b) = (fold max (closings ps now) e, b \<or> closings ps now \<noteq> [])"
  by (induction ps arbitrary: e b) (auto simp: max_def split: option.splits)

lemma in_closings: "c \<in> set (closings ps now) \<longleftrightarrow> (\<exists>(w, k) \<in> set ps. occurrence w now k = Some c)"
  by (induction ps) (auto split: option.splits)

abbreviation occurrences :: "parsedWindow list \<Rightarrow> (parsedWindow \<times> int) list" where
  "occurrences ws \<equiv> concat (map (\<lambda>w. [(w, 0), (w, -1)]) ws)"

lemma windowEnd_closings:
  "windowEnd ws now =
     (if ws = [] then (0, True)
      else (fold max (closings (occurrences ws) now) 0, closings (occurrences ws) now \<noteq> []))"
  by (simp add: windowEnd_def window_loop_closings)

lemma fold_max_in:
  assumes "\<forall>x \<in> set xs. m < x" "xs \<noteq> []"
  shows "fold max xs (m :: int) \<in> set xs"
proof -
  have "fold max xs m = Max (set (m # xs))" by (rule Max.set_eq_fold [symmetric])
  moreover have "Max (set (m # xs)) \<noteq> m" using assms by (simp add: Max_eq_iff) (meson last_in_set leD)
  ultimately show ?thesis using Max_in [of "set (m # xs)"] by simp
qed

text \<open>An open verdict comes with an opening of one of the windows, in every zone.\<close>

lemma windowEnd_occurrence:
  assumes "windowEnd ws now = (e, True)" "ws \<noteq> []" "0 \<le> now"
  shows "\<exists>w \<in> set ws. \<exists>k. occurrence w now k = Some e"
proof -
  have e: "e = fold max (closings (occurrences ws) now) 0" "closings (occurrences ws) now \<noteq> []"
    using assms by (auto simp: windowEnd_closings)
  have "\<forall>c \<in> set (closings (occurrences ws) now). 0 < c"
    using assms(3) by (auto simp: in_closings dest!: occurrence_opens)
  then have "e \<in> set (closings (occurrences ws) now)" using fold_max_in e by blast
  then show ?thesis by (auto simp: in_closings)
qed

lemma windowEnd_opens:
  assumes "windowEnd ws now = (e, True)" "ws \<noteq> []" "0 \<le> now"
  shows "\<exists>w \<in> set ws. \<exists>d opens. opensFor w d opens e \<and> opens \<le> now \<and> now < e"
  using windowEnd_occurrence [OF assms] occurrence_opens by blast

section \<open>Zones of a fixed offset\<close>

definition fixedZone :: "int \<Rightarrow> Location" where "fixedZone off s = (off, - (2 ^ 63), 2 ^ 63)"

lemma UTC_fixed: "UTC = fixedZone 0"
  by (simp add: fun_eq_iff UTC_def fixedZone_def)

lemma unixSec_ofUnix [simp]: "unixSec (ofUnix u) = u"
  by (simp add: unixSec_def ofUnix_def nanos_def)

lemma before_ofUnix: "t < ofUnix u \<longleftrightarrow> unixSec t < u"
  by (auto simp: unixSec_def ofUnix_def nanos_def div_less_iff_less_mult)

lemma Date_fixed [simp]: "Date (fixedZone off) d m = ofUnix (d * 86400 + m * 60 - off)"
  by (simp add: Date_def fixedZone_def Let_def)

lemma localSec_fixed [simp]: "localSec (fixedZone off) t = unixSec t + off"
  by (simp add: localSec_def fixedZone_def)

lemma dayOf_Date_fixed [simp]: "0 \<le> m \<Longrightarrow> m < 1440 \<Longrightarrow> dayOf (fixedZone off) (ofUnix (d * 86400 + m * 60 - off)) = d"
  by (simp add: dayOf_def)

lemma wallClock_fixed [simp]:
  "0 \<le> m \<Longrightarrow> m < 1440 \<Longrightarrow> wallClock (fixedZone off) d m = (ofUnix (d * 86400 + m * 60 - off), True)"
  by (simp add: wallClock_def minuteOf_def)

definition validMinutes :: "parsedWindow \<Rightarrow> bool" where
  "validMinutes w \<longleftrightarrow> startMin w \<in> {0..<1440} \<and> endMin w \<in> {0..<1440} \<and> startMin w \<noteq> endMin w"

definition opensAt :: "int \<Rightarrow> parsedWindow \<Rightarrow> int \<Rightarrow> int" where
  "opensAt off w d = d * 86400 + startMin w * 60 - off"

definition closesAt :: "int \<Rightarrow> parsedWindow \<Rightarrow> int \<Rightarrow> int" where
  "closesAt off w d = (if startMin w < endMin w then d else d + 1) * 86400 + endMin w * 60 - off"

definition openAt :: "int \<Rightarrow> parsedWindow \<Rightarrow> time \<Rightarrow> int \<Rightarrow> bool" where
  "openAt off w t d \<longleftrightarrow> runsOn w d \<and> opensAt off w d \<le> unixSec t \<and> unixSec t < closesAt off w d"

lemma occurrence_fixed:
  assumes "loc w = fixedZone off" "validMinutes w"
  shows "occurrence w now k =
    (let d = dayOf (loc w) now + k in if openAt off w now d then Some (ofUnix (closesAt off w d)) else None)"
proof -
  have r: "0 \<le> startMin w" "startMin w < 1440" "0 \<le> endMin w" "endMin w < 1440" "startMin w \<noteq> endMin w"
    using assms(2) by (auto simp: validMinutes_def)
  define D where "D = dayOf (loc w) now + k"
  have d: "dayOf (loc w) (Date (loc w) D 0) = D"
    using dayOf_Date_fixed [of 0 off D] assms(1) by simp
  have c: "ofUnix (D * 86400 + startMin w * 60 - off) < ofUnix (D * 86400 + endMin w * 60 - off) \<longleftrightarrow> startMin w < endMin w"
    by (simp add: before_ofUnix)
  have "occurrence w now k = (if openAt off w now D then Some (ofUnix (closesAt off w D)) else None)"
    unfolding occurrence_def D_def [symmetric] Let_def d
    using r c assms(1)
    by (auto simp: openAt_def runsOn_def opensAt_def closesAt_def before_ofUnix not_less split: option.splits)
  then show ?thesis by (simp add: D_def Let_def)
qed

text \<open>An instant inside an opening is so for today's or yesterday's.\<close>

lemma openAt_day:
  assumes "loc w = fixedZone off" "validMinutes w" "openAt off w t d"
  shows "d = dayOf (loc w) t \<or> d = dayOf (loc w) t - 1"
  using assms by (auto simp: openAt_def opensAt_def closesAt_def dayOf_def validMinutes_def split: if_splits)

text \<open>The weekly schedule of a window, read off a clock in its zone: seconds past midnight.\<close>

definition scheduled :: "parsedWindow \<Rightarrow> time \<Rightarrow> bool" where
  "scheduled w t =
     (let d = dayOf (loc w) t; r = localSec (loc w) t mod 86400; s = startMin w * 60; e = endMin w * 60
      in if s < e then runsOn w d \<and> s \<le> r \<and> r < e
         else runsOn w d \<and> s \<le> r \<or> runsOn w (d - 1) \<and> r < e)"

lemma scheduled_openAt:
  assumes "loc w = fixedZone off" "validMinutes w"
  shows "scheduled w t \<longleftrightarrow> (\<exists>d. openAt off w t d)"
proof -
  let ?D = "dayOf (loc w) t" and ?r = "localSec (loc w) t mod 86400"
  have u: "unixSec t = ?D * 86400 + ?r - off" using assms(1) by (simp add: dayOf_def)
  have r: "0 \<le> ?r" "?r < 86400" by simp_all
  have "openAt off w t ?D \<or> openAt off w t (?D - 1) \<longleftrightarrow> scheduled w t"
    using assms(2) r u
    by (auto simp: openAt_def scheduled_def opensAt_def closesAt_def validMinutes_def Let_def)
  then show ?thesis using openAt_day [OF assms] by metis
qed

definition fixedWindow :: "parsedWindow \<Rightarrow> bool" where
  "fixedWindow w \<longleftrightarrow> (\<exists>off. loc w = fixedZone off) \<and> validMinutes w"

lemma occurrence_scheduled:
  assumes "fixedWindow w"
  shows "(\<exists>k \<in> {0, -1}. occurrence w now k \<noteq> None) \<longleftrightarrow> scheduled w now"
proof -
  obtain off where w: "loc w = fixedZone off" "validMinutes w" using assms by (auto simp: fixedWindow_def)
  have "(\<exists>d. openAt off w now d) \<longleftrightarrow> openAt off w now (dayOf (loc w) now) \<or> openAt off w now (dayOf (loc w) now - 1)"
    using openAt_day [OF w] by blast
  then show ?thesis by (simp add: scheduled_openAt [OF w] occurrence_fixed [OF w] Let_def)
qed

lemma occurrence_until:
  assumes "fixedWindow w" "occurrence w now k = Some e" "now \<le> t" "t < e"
  shows "scheduled w t"
proof -
  obtain off where w: "loc w = fixedZone off" "validMinutes w" using assms by (auto simp: fixedWindow_def)
  define d where "d = dayOf (loc w) now + k"
  have d: "openAt off w now d" "e = ofUnix (closesAt off w d)"
    using assms(2) by (auto simp: occurrence_fixed [OF w] d_def Let_def split: if_splits)
  moreover have "unixSec now \<le> unixSec t" using assms(3) by (simp add: unixSec_def nanos_def zdiv_mono1)
  ultimately have "openAt off w t d" using assms(4) by (auto simp: openAt_def before_ofUnix)
  then show ?thesis using scheduled_openAt [OF w] by blast
qed

lemma windowEnd_open:
  "\<forall>w \<in> set ws. fixedWindow w \<Longrightarrow> snd (windowEnd ws t) \<longleftrightarrow> ws = [] \<or> list_ex (\<lambda>w. scheduled w t) ws"
proof -
  assume f: "\<forall>w \<in> set ws. fixedWindow w"
  have "closings (occurrences ws) t \<noteq> [] \<longleftrightarrow> (\<exists>w \<in> set ws. \<exists>k \<in> {0, -1}. occurrence w t k \<noteq> None)"
    by (induction ws) (auto split: option.splits)
  also have "\<dots> \<longleftrightarrow> list_ex (\<lambda>w. scheduled w t) ws" using f occurrence_scheduled by (auto simp: list_ex_iff)
  finally show ?thesis by (simp add: windowEnd_closings)
qed

section \<open>Parsing\<close>

lemma parseHHMM_range: "parseHHMM s = Some m \<Longrightarrow> m \<in> {0..<1440}"
  by (auto simp: parseHHMM_def split: option.splits if_splits prod.splits)

lemma parseWindow_valid:
  "parseWindow load w = Inr p \<Longrightarrow> validMinutes p \<and> (loc p = UTC \<or> (\<exists>name. load name = Some (loc p)))"
  by (auto simp: parseWindow_def validMinutes_def split: option.splits if_splits dest!: parseHHMM_range)

lemma parse_loop_valid:
  "parse_loop load ws = Inr ps \<Longrightarrow>
     \<forall>p \<in> set ps. validMinutes p \<and> (loc p = UTC \<or> (\<exists>name. load name = Some (loc p)))"
  by (induction ws arbitrary: ps) (auto split: sum.splits dest!: parseWindow_valid)

lemma parseWindows_valid:
  "parseWindows decode load raw = Inr ps \<Longrightarrow>
     \<forall>p \<in> set ps. validMinutes p \<and> (loc p = UTC \<or> (\<exists>name. load name = Some (loc p)))"
  by (auto simp: parseWindows_def split: if_splits option.splits dest!: parse_loop_valid)

lemma parseWindows_bounded: "parseWindows decode load raw = Inr ps \<Longrightarrow> length ps \<le> MaxWindowsPerPolicy"
proof -
  have "parse_loop load ws = Inr ps \<Longrightarrow> length ps = length ws" for ws
    by (induction ws arbitrary: ps) (auto split: sum.splits)
  then show "parseWindows decode load raw = Inr ps \<Longrightarrow> length ps \<le> MaxWindowsPerPolicy"
    by (auto simp: parseWindows_def split: if_splits option.splits)
qed


definition ex_window :: window where
  "ex_window = \<lparr>wStart = ''22:00'', wEnd = ''04:00'', wDays = [''sat''], wTZ = []\<rparr>"

definition ex_parsed :: parsedWindow where
  "ex_parsed = \<lparr>startMin = 1320, endMin = 240, days = Some [6], loc = UTC\<rparr>"

lemma ex_parsed: "parseWindows (\<lambda>_. Some [ex_window]) (\<lambda>_. None) ''x'' = Inr [ex_parsed]"
proof -
  have t: "TrimSpace ''22:00'' = ''22:00''" "TrimSpace ''04:00'' = ''04:00''" "TrimSpace ''sat'' = ''sat''"
    by (simp_all add: graphic_def)
  have "cutByte (CHR '':'') ''22:00'' = Some (''22'', ''00'')" "cutByte (CHR '':'') ''04:00'' = Some (''04'', ''00'')"
    "atoi ''22'' = Some 22" "atoi ''04'' = Some 4" "atoi ''00'' = Some 0" "weekdays (ToLower ''sat'') = Some 6"
    by code_simp+
  then show ?thesis
    by (simp add: t parseWindows_def parseWindow_def parseHHMM_def ex_window_def ex_parsed_def MaxWindowsPerPolicy_def)
qed


section \<open>A policy lowers\<close>

lemma lowered_bounds:
  "0 < platform \<Longrightarrow> platform < 2 ^ 32 \<Longrightarrow>
     0 < uint (lowered platform v) \<and> uint (lowered platform v) \<le> platform
     \<and> (\<forall>n. v = Some n \<and> 0 < n \<longrightarrow> uint (lowered platform v) \<le> n)"
  by (cases v) (auto simp: lowered_def uint_word_of_int_eq take_bit_int_eq_self_iff take_bit_int_eq_self)

lemma scopePlan_loop_Inr:
  "scopePlan_loop rs al ex = Inr (al', ex') \<Longrightarrow>
     al' = al @ map MatchValue (filter (\<lambda>r. Effect r = ScopeAllow) rs)
     \<and> ex' = ex @ map MatchValue (filter (\<lambda>r. Effect r = ScopeDeny) rs)"
  by (induction rs al ex rule: scopePlan_loop.induct) (auto split: option.splits ScopeRuleEffect.splits)

text \<open>No rule is dropped on the way: every deny becomes an exclusion, and only allows are allowed.\<close>

lemma scopePlan_Inr:
  "scopePlan rs = Inr (al, ex) \<Longrightarrow>
     al = map MatchValue (filter (\<lambda>r. Effect r = ScopeAllow) rs)
     \<and> ex = map MatchValue (filter (\<lambda>r. Effect r = ScopeDeny) rs)"
  using scopePlan_loop_Inr [of rs "[]" "[]"] by (simp add: scopePlan_def)

lemmas core_platform_defs = platformMaxRatePPS_def platformMaxRatePerTarget_def platformFragileRatePPS_def
  platformMaxConcurrentPerTarget_def platformConnectTimeoutMs_def

lemma constraintsFor_fields:
  assumes "constraintsFor decode load p rules now = Inr c"
  shows "wcMaxRatePps c = lowered platformMaxRatePPS (Option.bind p MaxRatePPS)"
    "MaxRatePerTarget c = min 50 (wcMaxRatePps c)" "FragileRatePps c = min 10 (MaxRatePerTarget c)"
    "ScMaxConcurrentPerTarget c = lowered platformMaxConcurrentPerTarget (Option.bind p PolicyConcurrent)"
    "ConnectTimeoutMs c = 3000"
    "ScSafetyMode c = (case p of None \<Rightarrow> ''safe'' | Some p \<Rightarrow> if PolicySafetyMode p = SafetyIntrusiveMode
        \<and> ScanSafetyMode p = SafetyIntrusiveMode then ''intrusive'' else ''safe'')"
    "scopePlan rules = Inr (wcAllowed c, wcExclusions c)"
  using assms by (auto simp: constraintsFor_def core_platform_defs Let_def split: sum.splits option.splits prod.splits if_splits)

lemma constraint_limits:
  assumes "constraintsFor decode load p rules now = Inr c"
  shows "0 < MaxRatePerTarget c" "MaxRatePerTarget c \<le> wcMaxRatePps c" "MaxRatePerTarget c \<le> 50"
    "0 < FragileRatePps c" "FragileRatePps c \<le> MaxRatePerTarget c" "FragileRatePps c \<le> 10"
    "0 < ScMaxConcurrentPerTarget c" "ScMaxConcurrentPerTarget c \<le> 20"
proof -
  note f = constraintsFor_fields [OF assms]
  have "0 < wcMaxRatePps c"
    using lowered_bounds [of platformMaxRatePPS "Option.bind p MaxRatePPS"]
    by (simp add: f(1) word_less_def platformMaxRatePPS_def)
  then show pt: "0 < MaxRatePerTarget c" "MaxRatePerTarget c \<le> wcMaxRatePps c" "MaxRatePerTarget c \<le> 50"
    by (simp_all add: f(2))
  then show "0 < FragileRatePps c" "FragileRatePps c \<le> MaxRatePerTarget c" "FragileRatePps c \<le> 10"
    by (simp_all add: f(3))
  show "0 < ScMaxConcurrentPerTarget c" "ScMaxConcurrentPerTarget c \<le> 20"
    using lowered_bounds [of platformMaxConcurrentPerTarget "Option.bind p PolicyConcurrent"]
    by (simp_all add: f(4) word_less_def word_le_def platformMaxConcurrentPerTarget_def)
qed


text \<open>
  The two enforcement sites agree on the limits: what Core computed for a job reaches the engine
  unchanged through the scan point's own clamping, a fragile target apart, for which the fragile rate
  and a single connection apply.
\<close>

theorem constraints_kept:
  assumes "constraintsFor decode load p rules now = Inr c"
  shows "let b = budget builtin (ScanConstraints.truncate c) tasks corpus; fragile = list_ex tFragile tasks in
      RatePPS b = (if fragile then FragileRatePps c else MaxRatePerTarget c)
    \<and> ConnectTimeoutMS b = ConnectTimeoutMs c
    \<and> MaxConcurrentPerTarget b = (if fragile then 1 else ScMaxConcurrentPerTarget c)
    \<and> SafetyMode b = ScSafetyMode c"
proof -
  note l = constraint_limits [OF assms]
  have k: "clampCeiling (MaxRatePerTarget c) PlatformMaxRatePerTarget = MaxRatePerTarget c"
    "clampCeiling (FragileRatePps c) PlatformFragileRatePPS = FragileRatePps c"
    "clampCeiling (ConnectTimeoutMs c) PlatformConnectTimeoutMS = ConnectTimeoutMs c"
    "clampCeiling (ScMaxConcurrentPerTarget c) PlatformMaxConcurrentPerTarget = ScMaxConcurrentPerTarget c"
    using l by (auto simp: clampCeiling_def platform_defs constraintsFor_fields(5) [OF assms])
  have one: "1 < x \<or> x = 1" if "0 < x" for x :: uint32 using that by (metis inc_le le_less add_0)
  show ?thesis
    using l one [OF l(7)]
    by (auto simp: budget_def clampToBudget_def ScanConstraints.truncate_def k PlatformFragileMaxConcurrent_def Let_def)
qed

definition ex_policy :: JobPolicy where
  "ex_policy = \<lparr>MaxRatePPS = Some 5, PolicyConcurrent = None, PolicySafetyMode = SafetyIntrusiveMode,
     ScanSafetyMode = SafetySafeMode, TimeWindows = ''x''\<rparr>"

definition ex_rules :: "ScopeRule list" where
  "ex_rules = [\<lparr>Effect = ScopeAllow, MatchType = MatchHostname, MatchValue = ''a''\<rparr>,
     \<lparr>Effect = ScopeDeny, MatchType = MatchHostname, MatchValue = ''b''\<rparr>]"

definition ex_wire :: WireConstraints where
  "ex_wire = \<lparr>MaxRatePerTarget = 5, FragileRatePps = 5, ConnectTimeoutMs = 3000, ScMaxConcurrentPerTarget = 20,
     ScSafetyMode = ''safe'', wcMaxRatePps = 5, wcAllowed = [''a''], wcExclusions = [''b''], wcWindowEnds = 273600\<rparr>"

lemma ex_constraints:
  "constraintsFor (\<lambda>_. Some [ex_window]) (\<lambda>_. None) (Some ex_policy) ex_rules (ofUnix 270000) = Inr ex_wire"
proof -
  have "TrimSpace ''a'' = ''a''" "TrimSpace ''b'' = ''b''" by (simp_all add: graphic_def)
  then have s: "scopePlan ex_rules = Inr ([''a''], [''b''])" by (simp add: scopePlan_def ex_rules_def)
  have w: "windowEnd [ex_parsed] (ofUnix 270000) = (ofUnix 273600, True)" by code_simp
  have "ofUnix 273600 \<noteq> 0" by code_simp
  then show ?thesis
    by (simp add: constraintsFor_def s w ex_parsed ex_policy_def ex_wire_def lowered_def core_platform_defs)
qed


definition ex_corpus :: "(nat, nat) Corpus" where "ex_corpus = \<lparr>coProbes = [], coBannerMatches = []\<rparr>"

theorem constraints_kept_witness: "RatePPS (budget ex_corpus (ScanConstraints.truncate ex_wire) [] None) = 5"
  using constraints_kept [OF ex_constraints, of ex_corpus "[]" None] by (simp add: ex_wire_def Let_def)

end
