(* ===== verification/Core_Scans.thy ===== *)
theory Core_Scans
  imports Core_Leases Core_Constraints "HOL-Library.Product_Lexorder"
begin

text \<open>
  The rows of one tenant that dispatch works on and the statements over scans, policies and the audit
  log (\<open>internal/store/scans.go\<close>, \<open>policies.go\<close>, \<open>audit.go\<close>, \<open>jobs.go\<close>).

  A statement is a function on the rows. \<open>Inl\<close> is an error, which rolls the transaction back. The
  clock readings \<open>now()\<close> of a transaction are one argument, the ids that the database draws are taken
  from an argument list. Timestamps of tasks are not kept.
\<close>

section \<open>Rows\<close>

record ScanTarget =
  stID :: uuid
  stType :: string
  stValue :: string
  stAuthorized :: bool
  stVerifiedAt :: "time option"
  stCreatedAt :: time

record Scan =
  scPolicy :: uuid
  scRequestedBy :: "uuid option"
  scType :: string
  scStatus :: ScanStatus
  scSafety :: PolicySafety
  scCreated :: time
  scStarted :: "time option"
  scCompleted :: "time option"
  scCancelRequested :: "time option"
  scTargets :: "ScanTarget list"

text \<open>A policy with its scope rules, each with its precedence.\<close>

record Policy =
  plName :: string
  plSafety :: PolicySafety
  plRate :: "int option"
  plConcurrent :: "int option"
  plWindows :: string
  plEngines :: "string list"
  plZones :: "string list"
  plRules :: "(int \<times> ScopeRule) list"

datatype ActorType = ActorUser | ActorScanPoint | ActorSystem

datatype auditValue = AText string | AID uuid | ANum int | AFlag bool | AMode PolicySafety | AStatus StoredReason

record AuditEvent =
  evActor :: "uuid option"
  evActorType :: ActorType
  evAction :: string
  evResource :: "uuid option"
  evDetail :: "(string \<times> auditValue) list"

record KillSwitch =
  kScope :: KillScope
  kIssuedBy :: "uuid option"
  kIssuedAt :: time
  kReason :: string
  kResolvedAt :: "time option"
  kAcks :: "(uuid \<times> time \<times> int) list"

record CancelAck =
  caJob :: uuid
  caPoint :: uuid
  caEpoch :: int
  caAckedAt :: time
  caHalted :: int

datatype ScanPointStatus = ScanPointPending | ScanPointOnline | ScanPointOffline | ScanPointDisabled | ScanPointRevoked

record Capability =
  cpEngine :: string
  cpVersion :: string
  cpEnabled :: bool

record ScanPoint =
  spZone :: uuid
  spFingerprint :: string
  spStatus :: ScanPointStatus
  spLastHeartbeat :: "time option"
  spCaps :: "Capability list"

record SSHProfile =
  prID :: uuid
  prSecretRef :: string
  prUser :: string
  prKnownHosts :: string

record GrantRow =
  grProfile :: uuid
  grJob :: uuid
  grScope :: "string list"
  grFingerprint :: string
  grIssuedAt :: time
  grExpiresAt :: time
  grDeliveredAt :: "time option"
  grZeroisedAt :: "time option"

record tenantDB =
  scans :: "(uuid \<times> Scan) list"
  jobs :: rows
  policies :: "(uuid \<times> Policy) list"
  kills :: "(uuid \<times> KillSwitch) list"
  cancels :: "CancelAck list"
  points :: "(uuid \<times> ScanPoint) list"
  sshProfiles :: "(uuid \<times> SSHProfile) list"
  grants :: "(uuid \<times> GrantRow) list"
  audit :: "AuditEvent list"

datatype storeError =
    ErrNotFound
  | ErrScanNotCancellable ScanStatus
  | ErrSafetyModeAbovePolicy
  | ErrScanAlreadyStarted ScanStatus
  | ErrTooManyTasks
  | ErrTooManyScopeRules
  | ErrTooManyWindowedPolicies
  | ErrScanTypeRequired
  | ErrNoTargets
  | ErrNoTasks
  | ErrNoTaskTarget
  | ErrNoEpoch
  | ErrNoFingerprint
  | ErrNoTTL
  | ErrForeignKey
  | ErrConflict
  | ErrCheckViolation
  | ErrStatementTimeout
  | ErrPoolExhausted
  | ErrOther

section \<open>Rows by id\<close>

definition upd :: "uuid \<Rightarrow> ('a \<Rightarrow> 'a) \<Rightarrow> (uuid \<times> 'a) list \<Rightarrow> (uuid \<times> 'a) list" where
  "upd i f xs = map (\<lambda>(k, v). (k, if k = i then f v else v)) xs"

definition Audit_Record :: "AuditEvent \<Rightarrow> tenantDB \<Rightarrow> tenantDB" where
  "Audit_Record e d = d\<lparr>audit := audit d @ [e]\<rparr>"

text \<open>What \<open>Jobs.Claim\<close> reads of the other tables.\<close>

definition claimDB :: "(uuid \<Rightarrow> string) \<Rightarrow> tenantDB \<Rightarrow> ClaimDB" where
  "claimDB uuidText d =
     \<lparr>scanStatus = (\<lambda>s. map_option scStatus (map_of (scans d) s)),
      scanPolicy = (\<lambda>s. Option.bind (map_of (scans d) s) (\<lambda>x. if map_of (policies d) (scPolicy x) = None then None else Some (scPolicy x))),
      allowedZones = (\<lambda>p. case map_of (policies d) p of None \<Rightarrow> [] | Some r \<Rightarrow> plZones r),
      liveKills = map (kScope \<circ> snd) (filter (\<lambda>(i, k). kResolvedAt k = None) (kills d)),
      zoneOf = (\<lambda>sp. map_option spZone (map_of (points d) sp)),
      zoneText = uuidText,
      authorised = (\<lambda>t. list_ex (\<lambda>(i, s). list_ex (\<lambda>x. stID x = t \<and> stAuthorized x) (scTargets s)) (scans d))\<rparr>"

section \<open>Scans\<close>

definition openScan :: "ScanStatus \<Rightarrow> bool" where
  "openScan s \<longleftrightarrow> s \<in> {ScanPending, ScanPlanning, ScanRunning}"

definition Scans_Create :: "uuid \<Rightarrow> time \<Rightarrow> uuid \<Rightarrow> string \<Rightarrow> uuid option \<Rightarrow> ScanTarget list \<Rightarrow> tenantDB \<Rightarrow> storeError + tenantDB" where
  "Scans_Create i now policy scanType by ts d =
     (if scanType = [] then Inl ErrScanTypeRequired
      else if ts = [] then Inl ErrNoTargets
      else if map_of (policies d) policy = None then Inl ErrForeignKey
      else Inr (d\<lparr>scans := scans d @ [(i,
             \<lparr>scPolicy = policy, scRequestedBy = by, scType = scanType, scStatus = ScanPending, scSafety = SafetySafeMode,
              scCreated = now, scStarted = None, scCompleted = None, scCancelRequested = None,
              scTargets = map (\<lambda>t. t\<lparr>stVerifiedAt := (if stAuthorized t then Some now else None), stCreatedAt := now\<rparr>) ts\<rparr>)]\<rparr>))"

definition Scans_Targets :: "uuid \<Rightarrow> tenantDB \<Rightarrow> ScanTarget list" where
  "Scans_Targets i d = (case map_of (scans d) i of None \<Rightarrow> [] | Some s \<Rightarrow> sort_key (\<lambda>t. (stCreatedAt t, stID t)) (scTargets s))"

definition statusMove :: "time \<Rightarrow> ScanStatus \<Rightarrow> Scan \<Rightarrow> Scan" where
  "statusMove now to s = s\<lparr>scStatus := to,
     scStarted := (if to = ScanRunning \<and> scStarted s = None then Some now else scStarted s),
     scCompleted := (if to \<in> {ScanCompleted, ScanFailed, ScanKilled} then Some now else scCompleted s)\<rparr>"

text \<open>\<open>None\<close> is \<open>ErrNotFound\<close>: the scan is in none of the statuses it may move from.\<close>

definition Scans_SetStatus :: "time \<Rightarrow> uuid \<Rightarrow> ScanStatus list \<Rightarrow> ScanStatus \<Rightarrow> tenantDB \<Rightarrow> tenantDB option" where
  "Scans_SetStatus now i froms to d =
     (case map_of (scans d) i of
        None \<Rightarrow> None
      | Some s \<Rightarrow>
          if scStatus s \<in> set froms
          then Some (d\<lparr>scans := upd i (statusMove now to) (scans d)\<rparr>)
          else None)"

text \<open>The end of a scan that is not over: \<open>Cancel\<close>, \<open>Fail\<close> and the kill of a scan share this statement.\<close>

definition endScan :: "time \<Rightarrow> uuid \<Rightarrow> ScanStatus \<Rightarrow> tenantDB \<Rightarrow> tenantDB option" where
  "endScan now i to d =
     (case map_of (scans d) i of
        None \<Rightarrow> None
      | Some s \<Rightarrow>
          if openScan (scStatus s) then Some (d\<lparr>scans := upd i (\<lambda>s. s\<lparr>scStatus := to, scCompleted := Some now\<rparr>) (scans d)\<rparr>)
          else None)"

definition Scans_Cancel :: "time \<Rightarrow> uuid \<Rightarrow> uuid option \<Rightarrow> string \<Rightarrow> tenantDB \<Rightarrow> storeError + tenantDB" where
  "Scans_Cancel now i actor reason d =
     (case endScan now i ScanCancelled d of
        None \<Rightarrow>
          (case map_of (scans d) i of None \<Rightarrow> Inl ErrNotFound | Some s \<Rightarrow> Inl (ErrScanNotCancellable (scStatus s)))
      | Some d' \<Rightarrow>
          Inr (Audit_Record \<lparr>evActor = actor, evActorType = ActorUser, evAction = ''scan.cancelled'', evResource = Some i,
                 evDetail = [(''reason'', AText reason)]\<rparr> d'))"

definition Scans_Fail :: "time \<Rightarrow> uuid \<Rightarrow> string \<Rightarrow> tenantDB \<Rightarrow> storeError + tenantDB" where
  "Scans_Fail now i reason d =
     (case endScan now i ScanFailed d of
        None \<Rightarrow> Inl ErrNotFound
      | Some d' \<Rightarrow>
          Inr (Audit_Record \<lparr>evActor = None, evActorType = ActorSystem, evAction = ''scan.planning_failed'', evResource = Some i,
                 evDetail = [(''reason'', AText reason)]\<rparr> d'))"

definition scanJobs :: "uuid \<Rightarrow> tenantDB \<Rightarrow> Job list" where
  "scanJobs i d = map snd (filter (\<lambda>(k, j). ScanID j = i) (jobs d))"

definition activeJob :: "Job \<Rightarrow> bool" where
  "activeJob j \<longleftrightarrow> Status j \<in> {JobQueued, JobAssigned, JobRunning}"

text \<open>The status the scan settles to, if it does.\<close>

definition SettleIfDone :: "time \<Rightarrow> uuid \<Rightarrow> tenantDB \<Rightarrow> tenantDB \<times> ScanStatus option" where
  "SettleIfDone now i d =
     (case map_of (scans d) i of
        None \<Rightarrow> (d, None)
      | Some s \<Rightarrow>
          if (scStatus s = ScanPlanning \<or> scStatus s = ScanRunning) \<and> scanJobs i d \<noteq> [] \<and> \<not> list_ex activeJob (scanJobs i d)
          then let st = (if list_ex (\<lambda>j. Status j = JobCompleted) (scanJobs i d) then ScanCompleted else ScanFailed)
               in (d\<lparr>scans := upd i (\<lambda>s. s\<lparr>scStatus := st, scCompleted := Some now\<rparr>) (scans d)\<rparr>, Some st)
          else (d, None))"

definition pendingLimit :: "int \<Rightarrow> nat" where
  "pendingLimit limit = (if limit \<le> 0 \<or> limit > 100 then 20 else nat limit)"

definition PendingIDs :: "int \<Rightarrow> tenantDB \<Rightarrow> uuid list" where
  "PendingIDs limit d =
     take (pendingLimit limit) (map fst (sort_key (\<lambda>(i, s). (scCreated s, i)) (filter (\<lambda>(i, s). scStatus s = ScanPending) (scans d))))"

definition completionLimit :: "int \<Rightarrow> nat" where
  "completionLimit n = (if n \<le> 0 \<or> n > 100 then 10 else nat n)"

definition RecentCompletions :: "int \<Rightarrow> tenantDB \<Rightarrow> time list" where
  "RecentCompletions n d =
     take (completionLimit n) (rev (sort (List.map_filter (\<lambda>(i, s). if scStatus s = ScanCompleted then scCompleted s else None) (scans d))))"

text \<open>The safety mode of a scan, beneath that of its policy.\<close>

definition refusalReason :: "uuid \<Rightarrow> PolicySafety \<Rightarrow> tenantDB \<Rightarrow> storeError" where
  "refusalReason i want d =
     (case Option.bind (map_of (scans d) i) (\<lambda>s. map_option (Pair s) (map_of (policies d) (scPolicy s))) of
        None \<Rightarrow> ErrNotFound
      | Some (s, p) \<Rightarrow>
          if scStatus s \<noteq> ScanPending \<and> scStatus s \<noteq> ScanPlanning then ErrScanAlreadyStarted (scStatus s)
          else if want = SafetyIntrusiveMode \<and> plSafety p \<noteq> SafetyIntrusiveMode then ErrSafetyModeAbovePolicy
          else ErrNotFound)"

definition SetSafetyMode :: "uuid \<Rightarrow> PolicySafety \<Rightarrow> uuid option \<Rightarrow> tenantDB \<Rightarrow> storeError + tenantDB" where
  "SetSafetyMode i mode actor d =
     (case Option.bind (map_of (scans d) i) (\<lambda>s. map_option (Pair s) (map_of (policies d) (scPolicy s))) of
        None \<Rightarrow> Inl (refusalReason i mode d)
      | Some (s, p) \<Rightarrow>
          if (scStatus s = ScanPending \<or> scStatus s = ScanPlanning)
             \<and> (mode = SafetySafeMode \<or> plSafety p = SafetyIntrusiveMode)
          then Inr (Audit_Record \<lparr>evActor = actor, evActorType = ActorUser, evAction = ''scan.safety_mode_selected'', evResource = Some i,
                      evDetail = [(''safety_mode'', AMode mode), (''policy_id'', AID (scPolicy s)), (''policy_safety_mode'', AMode (plSafety p))]\<rparr>
                    (d\<lparr>scans := upd i (\<lambda>s. s\<lparr>scSafety := mode\<rparr>) (scans d)\<rparr>))
          else Inl (refusalReason i mode d))"

section \<open>Planned jobs\<close>

definition EngineForScanType :: "string \<Rightarrow> string option" where
  "EngineForScanType t =
     (if t = ''discovery'' then Some ''discovery''
      else if t = ''fingerprint'' then Some ''fingerprint''
      else if t = ''rules'' then Some ''rules''
      else if t = ''host'' then Some ''host''
      else None)"

text \<open>A planned task is a target and its target row. The first id drawn is that of the job.\<close>

definition plannedTask :: "uuid \<Rightarrow> string \<times> uuid \<Rightarrow> TaskRow" where
  "plannedTask i = (\<lambda>(t, tg).
     \<lparr>taskID = i, taskTarget = t, taskFragile = False, taskStatus = TaskPending, targetID = Some tg, hasAccepted = False\<rparr>)"

definition Scans_Plan :: "(nat \<Rightarrow> uuid) \<Rightarrow> time \<Rightarrow> uuid \<Rightarrow> string \<Rightarrow> bool \<Rightarrow> (string \<times> uuid) list \<Rightarrow> tenantDB \<Rightarrow> storeError + tenantDB" where
  "Scans_Plan ids now scan engine safe ts d =
     (if ts = [] then Inl ErrNoTasks
      else if list_ex (\<lambda>(t, tg). t = []) ts then Inl ErrNoTaskTarget
      else Inr (d\<lparr>jobs := jobs d @ [(ids 0,
             newJob scan engine safe now (map2 plannedTask (map ids [1..<Suc (length ts)]) ts))]\<rparr>))"

section \<open>Jobs and policies\<close>

definition MaxTasksPerAssignment :: nat where "MaxTasksPerAssignment = 1000"

definition Jobs_Tasks :: "uuid \<Rightarrow> tenantDB \<Rightarrow> storeError + TaskRow list" where
  "Jobs_Tasks i d =
     (let ts = (case map_of (jobs d) i of None \<Rightarrow> [] | Some j \<Rightarrow> sort_key taskID (jobTasks j));
          out = take (Suc MaxTasksPerAssignment) ts
      in if length out > MaxTasksPerAssignment then Inl ErrTooManyTasks else Inr out)"

definition ScanIDForTask :: "uuid \<Rightarrow> tenantDB \<Rightarrow> uuid option" where
  "ScanIDForTask t d = map_option (ScanID \<circ> snd) (find (\<lambda>(i, j). list_ex (\<lambda>x. taskID x = t) (jobTasks j)) (jobs d))"

text \<open>The policy of a job with its id, and the safety mode of its scan.\<close>

definition ForJob :: "uuid \<Rightarrow> tenantDB \<Rightarrow> (uuid \<times> Policy \<times> PolicySafety) option" where
  "ForJob i d =
     Option.bind (map_of (jobs d) i) (\<lambda>j. Option.bind (map_of (scans d) (ScanID j)) (\<lambda>s.
       map_option (\<lambda>p. (scPolicy s, p, scSafety s)) (map_of (policies d) (scPolicy s))))"

definition jobPolicy :: "Policy \<Rightarrow> PolicySafety \<Rightarrow> JobPolicy" where
  "jobPolicy p m = \<lparr>MaxRatePPS = plRate p, PolicyConcurrent = plConcurrent p, PolicySafetyMode = plSafety p, ScanSafetyMode = m,
     TimeWindows = plWindows p\<rparr>"

definition MaxWindowedPolicies :: nat where "MaxWindowedPolicies = 1000"

text \<open>\<open>arrayLen\<close> is \<open>jsonb_array_length\<close> of a stored document.\<close>

definition WithTimeWindows :: "(string \<Rightarrow> nat) \<Rightarrow> tenantDB \<Rightarrow> storeError + (uuid \<times> string) list" where
  "WithTimeWindows arrayLen d =
     (let out = take (Suc MaxWindowedPolicies)
                  (sort_key fst (map (\<lambda>(i, p). (i, plWindows p)) (filter (\<lambda>(i, p). arrayLen (plWindows p) > 0) (policies d))))
      in if length out > MaxWindowedPolicies then Inl ErrTooManyWindowedPolicies else Inr out)"

definition MaxScopeRulesPerAssignment :: nat where "MaxScopeRulesPerAssignment = 2000"

text \<open>Denials first, then by precedence and by text, as the collation of the database (\<open>collate\<close>) ranks it.\<close>

definition ScopeRules :: "(string \<Rightarrow> int) \<Rightarrow> uuid \<Rightarrow> tenantDB \<Rightarrow> storeError + ScopeRule list" where
  "ScopeRules collate p d =
     (let rs = (case map_of (policies d) p of None \<Rightarrow> [] | Some r \<Rightarrow> plRules r);
          out = take (Suc MaxScopeRulesPerAssignment) (sort_key (\<lambda>(n, r). (if Effect r = ScopeDeny then 0 else 1 :: int, n, collate (MatchValue r))) rs)
      in if length out > MaxScopeRulesPerAssignment then Inl ErrTooManyScopeRules else Inr (map snd out))"

end
