(* ===== verification/Core_Stops.thy ===== *)
theory Core_Stops
  imports Core_Scans
begin

text \<open>
  Stopping work that is under way: kill switches and their acknowledgements (\<open>internal/store/kill.go\<close>),
  the jobs a scan point must cancel (\<open>Jobs.CancellableFor\<close>) and the acknowledgement of a cancellation
  (\<open>cancel.go\<close>). Latencies are in nanoseconds.
\<close>

section \<open>Kill switches\<close>

definition StillHoldingGrace :: duration where "StillHoldingGrace = 15 * 60 * 1000000000"

definition HeartbeatTimeout :: duration where "HeartbeatTimeout = 90 * 1000000000"

definition Kill_Issue :: "uuid \<Rightarrow> time \<Rightarrow> KillScope \<Rightarrow> uuid option \<Rightarrow> string \<Rightarrow> tenantDB \<Rightarrow> tenantDB" where
  "Kill_Issue i now scope by reason d =
     (let d = d\<lparr>kills := kills d @ [(i, \<lparr>kScope = scope, kIssuedBy = by, kIssuedAt = now, kReason = reason, kResolvedAt = None, kAcks = []\<rparr>)]\<rparr>
      in case scope of
           KillScan s \<Rightarrow>
             (case map_of (scans d) s of
                None \<Rightarrow> d
              | Some r \<Rightarrow>
                  if openScan (scStatus r)
                  then d\<lparr>scans := upd s (\<lambda>r. r\<lparr>scStatus := ScanKilled, scCompleted := Some now,
                         scCancelRequested := Some (case scCancelRequested r of None \<Rightarrow> now | Some t \<Rightarrow> t)\<rparr>) (scans d)\<rparr>
                  else d)
         | _ \<Rightarrow> d)"

definition Kill_Ack :: "time \<Rightarrow> uuid \<Rightarrow> uuid \<Rightarrow> int \<Rightarrow> tenantDB \<Rightarrow> storeError + tenantDB" where
  "Kill_Ack now k sp halted d =
     (case map_of (kills d) k of
        None \<Rightarrow> Inl ErrForeignKey
      | Some r \<Rightarrow>
          Inr (if sp \<in> fst ` set (kAcks r) then d
               else d\<lparr>kills := upd k (\<lambda>r. r\<lparr>kAcks := kAcks r @ [(sp, now, halted)]\<rparr>) (kills d)\<rparr>))"

definition Kill_Resolve :: "time \<Rightarrow> uuid \<Rightarrow> tenantDB \<Rightarrow> tenantDB option" where
  "Kill_Resolve now k d =
     (case map_of (kills d) k of
        None \<Rightarrow> None
      | Some r \<Rightarrow> if kResolvedAt r = None then Some (d\<lparr>kills := upd k (\<lambda>r. r\<lparr>kResolvedAt := Some now\<rparr>) (kills d)\<rparr>) else None)"

text \<open>A lease under which a scan point may still be working.\<close>

definition stillHolds :: "time \<Rightarrow> uuid \<Rightarrow> Lease \<Rightarrow> bool" where
  "stillHolds now sp l \<longleftrightarrow> HolderID l = sp \<and> State l \<noteq> LeaseReleased \<and> ExpiresAt l > now - StillHoldingGrace"

definition killCoversScanPoint :: "time \<Rightarrow> tenantDB \<Rightarrow> uuid \<Rightarrow> ScanPoint \<Rightarrow> KillScope \<Rightarrow> bool" where
  "killCoversScanPoint now d sp p k =
     (case k of
        KillZone z \<Rightarrow> z = spZone p
      | KillScan s \<Rightarrow> list_ex (\<lambda>j. list_ex (stillHolds now sp) (leases j)) (scanJobs s d)
      | KillTenant \<Rightarrow> True
      | KillOther \<Rightarrow> True)"

definition LiveFor :: "time \<Rightarrow> uuid \<Rightarrow> tenantDB \<Rightarrow> (uuid \<times> KillSwitch) list" where
  "LiveFor now sp d =
     (case map_of (points d) sp of
        None \<Rightarrow> []
      | Some p \<Rightarrow>
          rev (sort_key (\<lambda>(i, k). kIssuedAt k)
            (filter (\<lambda>(i, k). kResolvedAt k = None \<and> killCoversScanPoint now d sp p (kScope k)) (kills d))))"

definition Kill_Unacknowledged :: "time \<Rightarrow> uuid \<Rightarrow> tenantDB \<Rightarrow> uuid list" where
  "Kill_Unacknowledged now k d =
     (case map_of (kills d) k of
        None \<Rightarrow> []
      | Some r \<Rightarrow>
          sort (map fst (filter (\<lambda>(sp, p).
            (case spLastHeartbeat p of None \<Rightarrow> False | Some t \<Rightarrow> t > kIssuedAt r - HeartbeatTimeout)
            \<and> sp \<notin> fst ` set (kAcks r) \<and> killCoversScanPoint now d sp p (kScope r)) (points d))))"

definition AckLatency :: "uuid \<Rightarrow> tenantDB \<Rightarrow> (uuid \<times> duration) list" where
  "AckLatency k d =
     (case map_of (kills d) k of
        None \<Rightarrow> []
      | Some r \<Rightarrow> rev (sort_key snd (map (\<lambda>(sp, at1, n). (sp, at1 - kIssuedAt r)) (kAcks r))))"

section \<open>Cancellation\<close>

text \<open>A job to cancel: its id, the epoch this scan point holds, its scan and the status of that.\<close>

definition heldEpoch :: "time \<Rightarrow> uuid \<Rightarrow> Job \<Rightarrow> int option" where
  "heldEpoch now sp j =
     (case rev (sort (map Epoch (filter (stillHolds now sp) (leases j)))) of [] \<Rightarrow> None | e # _ \<Rightarrow> Some e)"

definition stoppedScan :: "ScanStatus option \<Rightarrow> bool" where
  "stoppedScan s \<longleftrightarrow> s \<in> {Some ScanCancelled, Some ScanKilled, Some ScanFailed}"

definition CancellableFor :: "time \<Rightarrow> uuid \<Rightarrow> tenantDB \<Rightarrow> (uuid \<times> int \<times> uuid \<times> ScanStatus) list" where
  "CancellableFor now sp d =
     List.map_filter (\<lambda>(i, j).
       case map_of (scans d) (ScanID j) of
         None \<Rightarrow> None
       | Some s \<Rightarrow>
           if stoppedScan (Some (scStatus s)) then map_option (\<lambda>e. (i, e, ScanID j, scStatus s)) (heldEpoch now sp j) else None)
       (sort_key (\<lambda>(i, j). CreatedAt j) (jobs d))"

text \<open>Whether an acknowledgement was owed, and the record of it.\<close>

definition ackOwed :: "uuid \<Rightarrow> uuid \<Rightarrow> int \<Rightarrow> tenantDB \<Rightarrow> bool" where
  "ackOwed i sp e d =
     (case map_of (jobs d) i of
        None \<Rightarrow> False
      | Some j \<Rightarrow>
          (case map_of (scans d) (ScanID j) of
             None \<Rightarrow> False
           | Some s \<Rightarrow> scStatus s \<in> {ScanCancelled, ScanKilled}
               \<and> list_ex (\<lambda>l. HolderID l = sp \<and> Epoch l = e \<and> State l \<noteq> LeaseReleased) (leases j)))"

definition acked :: "uuid \<Rightarrow> uuid \<Rightarrow> tenantDB \<Rightarrow> bool" where
  "acked i sp d \<longleftrightarrow> list_ex (\<lambda>a. caJob a = i \<and> caPoint a = sp) (cancels d)"

definition CancelAcks_Record :: "time \<Rightarrow> uuid \<Rightarrow> uuid \<Rightarrow> int \<Rightarrow> int \<Rightarrow> tenantDB \<Rightarrow> storeError + tenantDB" where
  "CancelAcks_Record now i sp e halted d =
     (if e \<le> 0 then Inl ErrNoEpoch
      else if acked i sp d then Inr d
      else if ackOwed i sp e d
      then Inr (d\<lparr>cancels := cancels d @ [\<lparr>caJob = i, caPoint = sp, caEpoch = e, caAckedAt = now, caHalted = max 0 halted\<rparr>]\<rparr>)
      else Inl ErrNotFound)"

text \<open>The acknowledgements of a scan, slowest first; no latency where the request has no time.\<close>

definition CancelAcks_ForScan :: "uuid \<Rightarrow> tenantDB \<Rightarrow> (CancelAck \<times> duration option) list" where
  "CancelAcks_ForScan i d =
     (let rs = map (\<lambda>a. (a, case map_of (scans d) i of None \<Rightarrow> None | Some s \<Rightarrow> map_option (\<lambda>t. caAckedAt a - t) (scCancelRequested s)))
                 (filter (\<lambda>a. map_option ScanID (map_of (jobs d) (caJob a)) = Some i) (cancels d))
      in sort_key (\<lambda>(a, l). (case l of None \<Rightarrow> (1 :: int, 0) | Some n \<Rightarrow> (0, - n), caJob a)) rs)"

definition CancelAcks_Unacknowledged :: "uuid \<Rightarrow> tenantDB \<Rightarrow> (uuid \<times> uuid \<times> JobStatus) list" where
  "CancelAcks_Unacknowledged i d =
     List.map_filter (\<lambda>(k, j).
       case (ScanPointID j, map_of (scans d) i) of
         (Some sp, Some s) \<Rightarrow>
           if ScanID j = i \<and> (Status j = JobAssigned \<or> Status j = JobRunning) \<and> scStatus s \<in> {ScanCancelled, ScanKilled} \<and> \<not> acked k sp d
           then Some (k, sp, Status j) else None
       | _ \<Rightarrow> None)
       (sort_key (\<lambda>(k, j). CreatedAt j) (jobs d))"

section \<open>Scan points\<close>

definition validEngines :: "string list" where
  "validEngines = [''discovery'', ''fingerprint'', ''rules'', ''host'', ''dast'', ''api'', ''sast'', ''cloud'']"

definition ValidEngine :: "string \<Rightarrow> bool" where "ValidEngine s \<longleftrightarrow> s \<in> set validEngines"

definition Points_SetStatus :: "uuid \<Rightarrow> ScanPointStatus \<Rightarrow> tenantDB \<Rightarrow> tenantDB option" where
  "Points_SetStatus sp st d =
     (if map_of (points d) sp = None then None else Some (d\<lparr>points := upd sp (\<lambda>p. p\<lparr>spStatus := st\<rparr>) (points d)\<rparr>))"

definition Points_Heartbeat :: "uuid \<Rightarrow> time \<Rightarrow> tenantDB \<Rightarrow> tenantDB option" where
  "Points_Heartbeat sp at1 d =
     (if map_of (points d) sp = None then None
      else Some (d\<lparr>points := upd sp (\<lambda>p. p\<lparr>spLastHeartbeat := Some at1, spStatus := ScanPointOnline\<rparr>) (points d)\<rparr>))"

definition GetByFingerprint :: "string \<Rightarrow> tenantDB \<Rightarrow> (uuid \<times> ScanPoint) option" where
  "GetByFingerprint fp d = find (\<lambda>(i, p). spFingerprint p = fp) (points d)"

definition DeclareCapability :: "uuid \<Rightarrow> string \<Rightarrow> string \<Rightarrow> bool \<Rightarrow> tenantDB \<Rightarrow> tenantDB" where
  "DeclareCapability sp engine version enabled d =
     (let c = \<lparr>cpEngine = engine, cpVersion = version, cpEnabled = enabled\<rparr>
      in d\<lparr>points := upd sp (\<lambda>p. p\<lparr>spCaps :=
           (if list_ex (\<lambda>x. cpEngine x = engine) (spCaps p)
            then map (\<lambda>x. if cpEngine x = engine then c else x) (spCaps p)
            else spCaps p @ [c])\<rparr>) (points d)\<rparr>)"

text \<open>The order of the capabilities is that of the engine kinds; it does not reach the claim.\<close>

definition Points_Capabilities :: "uuid \<Rightarrow> tenantDB \<Rightarrow> Capability list" where
  "Points_Capabilities sp d = (case map_of (points d) sp of None \<Rightarrow> [] | Some p \<Rightarrow> spCaps p)"

definition stale :: "time \<Rightarrow> ScanPoint \<Rightarrow> bool" where
  "stale cutoff p \<longleftrightarrow> spStatus p = ScanPointOnline \<and> (case spLastHeartbeat p of None \<Rightarrow> True | Some t \<Rightarrow> t < cutoff)"

definition MarkStaleOffline :: "time \<Rightarrow> tenantDB \<Rightarrow> tenantDB \<times> uuid list" where
  "MarkStaleOffline cutoff d =
     (d\<lparr>points := map (\<lambda>(i, p). (i, if stale cutoff p then p\<lparr>spStatus := ScanPointOffline\<rparr> else p)) (points d)\<rparr>,
      map fst (filter (\<lambda>(i, p). stale cutoff p) (points d)))"

definition CountDispatchable :: "(uuid \<Rightarrow> string) \<Rightarrow> time \<Rightarrow> string \<Rightarrow> uuid \<Rightarrow> tenantDB \<Rightarrow> nat" where
  "CountDispatchable uuidText now engine policy d =
     length (filter (\<lambda>(i, p).
       list_ex (\<lambda>c. cpEngine c = engine \<and> cpEnabled c) (spCaps p)
       \<and> spStatus p \<notin> {ScanPointDisabled, ScanPointRevoked}
       \<and> (case spLastHeartbeat p of None \<Rightarrow> False | Some t \<Rightarrow> t > now - HeartbeatTimeout)
       \<and> \<not> (case map_of (policies d) policy of None \<Rightarrow> False
            | Some r \<Rightarrow> length (plZones r) > 0 \<and> \<not> list_ex (\<lambda>z. ToLower z = uuidText (spZone p)) (plZones r))) (points d))"

end
