(* ===== verification/Core_Expand.thy ===== *)
theory Core_Expand
  imports Canonical_Target
begin

text \<open>
  How a declared target becomes task targets (\<open>internal/dispatch/planner.go\<close>): an address or a name is
  itself, a range becomes every address it contains. The loop over a range ends when the next address
  is outside or does not exist; it is a partial function here, so that its return is a theorem.
\<close>

section \<open>Model\<close>

text \<open>\<open>Addr.Next\<close>: the zero value after the last address of a family.\<close>

definition Next :: "Addr \<Rightarrow> Addr" where
  "Next a =
     (case a of
        NoAddr \<Rightarrow> NoAddr
      | V4 w \<Rightarrow> if w + 1 = 0 then NoAddr else V4 (w + 1)
      | V6 w z \<Rightarrow> if w + 1 = 0 then NoAddr else V6 (w + 1) z)"

definition MaxAddressesPerTarget :: int where "MaxAddressesPerTarget = 65536"

datatype expandError =
    ErrTargetTooLarge string
  | ErrTargetNotCanonical canonError
  | ErrHostnameTargetUnresolvable string string

definition hostCount :: "netPrefix \<Rightarrow> int" where
  "hostCount p = (let bits = BitLen (pAddr p) - pBits p in if bits < 0 \<or> bits > 31 then 0 else 2 ^ nat bits)"

partial_function (option) expand_loop ::
  "(string \<Rightarrow> (string \<times> string) option) \<Rightarrow> (nat \<Rightarrow> bool) \<Rightarrow> netPrefix \<Rightarrow> Addr \<Rightarrow> string list \<Rightarrow>
    (expandError + string list) option" where
  "expand_loop urlParse isDig p a out =
     (if \<not> Contains p a then Some (Inr out)
      else case Canonicalise urlParse isDig (Addr_String a) of
             Inl e \<Rightarrow> Some (Inl (ErrTargetNotCanonical e))
           | Inr e \<Rightarrow>
               if \<not> IsValid (Next a) then Some (Inr (out @ [cValue e]))
               else expand_loop urlParse isDig p (Next a) (out @ [cValue e]))"

definition expand :: "(string \<Rightarrow> (string \<times> string) option) \<Rightarrow> (nat \<Rightarrow> bool) \<Rightarrow> string \<Rightarrow> (expandError + string list) option" where
  "expand urlParse isDig declared =
     (case Canonicalise urlParse isDig declared of
        Inl e \<Rightarrow> Some (Inl (ErrTargetNotCanonical e))
      | Inr c \<Rightarrow>
          (case cKind c of
             KindAddress \<Rightarrow> Some (Inr [cValue c])
           | KindHostname \<Rightarrow> Some (Inr [cValue c])
           | KindPrefix \<Rightarrow>
               let n = hostCount (cPrefix c)
               in if n = 0 \<or> n > MaxAddressesPerTarget then Some (Inl (ErrTargetTooLarge (cValue c)))
                  else expand_loop urlParse isDig (cPrefix c) (pAddr (cPrefix c)) []))"

definition isAddress :: "string \<Rightarrow> bool" where
  "isAddress v \<longleftrightarrow> ParseAddr v \<noteq> None"

definition dialsTargets :: "string \<Rightarrow> bool" where
  "dialsTargets engine \<longleftrightarrow> engine \<in> {''discovery'', ''fingerprint'', ''host''}"

definition expandFor :: "(string \<Rightarrow> (string \<times> string) option) \<Rightarrow> (nat \<Rightarrow> bool) \<Rightarrow> string \<Rightarrow> string \<Rightarrow>
    (expandError + string list) option" where
  "expandFor urlParse isDig engine declared =
     (case expand urlParse isDig declared of
        None \<Rightarrow> None
      | Some (Inl e) \<Rightarrow> Some (Inl e)
      | Some (Inr out) \<Rightarrow>
          if \<not> dialsTargets engine then Some (Inr out)
          else (case find (\<lambda>v. \<not> isAddress v) out of
                  Some v \<Rightarrow> Some (Inl (ErrHostnameTargetUnresolvable v engine))
                | None \<Rightarrow> Some (Inr out)))"

section \<open>The addresses of a range\<close>

text \<open>The address with a number, in the IPv4 or the IPv6 family.\<close>

definition addrNo :: "bool \<Rightarrow> nat \<Rightarrow> Addr" where
  "addrNo v4 n = (if v4 then V4 (of_nat n) else V6 (of_nat n) [])"

definition width :: "bool \<Rightarrow> nat" where "width v4 = (if v4 then LENGTH(32) else LENGTH(128))"

lemma word_last: "n < 2 ^ LENGTH('a) \<Longrightarrow> (of_nat n + 1 = (0 :: 'a :: len word)) \<longleftrightarrow> \<not> Suc n < 2 ^ LENGTH('a)"
proof -
  assume n: "n < 2 ^ LENGTH('a)"
  have "(of_nat (Suc n) = (0 :: 'a word)) \<longleftrightarrow> 2 ^ LENGTH('a) dvd Suc n"
    by (simp only: word_of_nat_eq_0_iff)
  also have "\<dots> \<longleftrightarrow> \<not> Suc n < 2 ^ LENGTH('a)" using n by (auto dest: dvd_imp_le simp: not_less le_Suc_eq)
  finally show ?thesis by (simp add: add.commute)
qed

lemma Next_addrNo:
  assumes "n < 2 ^ width v4"
  shows "Next (addrNo v4 n) = (if Suc n < 2 ^ width v4 then addrNo v4 (Suc n) else NoAddr)"
proof (cases v4)
  case True
  then show ?thesis
    using assms word_last [where 'a = 32, of n]
    by (simp only: Next_def addrNo_def width_def if_True Addr.case of_nat_Suc add.commute [of 1] simp_thms split: if_split) blast
next
  case False
  then show ?thesis
    using assms word_last [where 'a = 128, of n]
    by (simp only: Next_def addrNo_def width_def if_False Addr.case of_nat_Suc add.commute [of 1] simp_thms split: if_split) blast
qed

lemma of_nat_below: "m < 2 ^ LENGTH('a) \<Longrightarrow> n < 2 ^ LENGTH('a) \<Longrightarrow> (of_nat m = (of_nat n :: 'a :: len word)) \<longleftrightarrow> m = n"
  by (simp add: word_of_nat_eq_iff take_bit_nat_eq_self)

lemma addrNo_inject: "m < 2 ^ width v4 \<Longrightarrow> n < 2 ^ width v4 \<Longrightarrow> addrNo v4 m = addrNo v4 n \<longleftrightarrow> m = n"
  using of_nat_below [where 'a = 32, of m n] of_nat_below [where 'a = 128, of m n]
  by (cases v4) (simp_all only: addrNo_def width_def if_True if_False Addr.inject simp_thms)

text \<open>A masked range is the numbers from its first address on.\<close>

lemma unat_bound: "unat w < 2 ^ LENGTH('a)" for w :: "'a :: len word"
  by (rule unsigned_less)

lemma unat_masked: "unat (push_bit k (drop_bit k w)) = unat w div 2 ^ k * 2 ^ k" for w :: "'a :: len word"
proof -
  have "unat w div 2 ^ k * 2 ^ k < 2 ^ LENGTH('a)"
    using unat_bound [of w] div_times_less_eq_dividend [of "unat w" "2 ^ k"] by linarith
  then show ?thesis
    by (simp only: unsigned_push_bit_eq unat_drop_bit_eq push_bit_eq_mult [of k "_ :: nat"] drop_bit_eq_div [of k "_ :: nat"] take_bit_nat_eq_self)
qed

lemma drop_bit_range:
  fixes w :: "'a :: len word"
  assumes "n < 2 ^ LENGTH('a)"
  shows "drop_bit k (push_bit k (drop_bit k w)) = drop_bit k (of_nat n)
    \<longleftrightarrow> unat w div 2 ^ k * 2 ^ k \<le> n \<and> n < unat w div 2 ^ k * 2 ^ k + 2 ^ k"
proof -
  have "drop_bit k (push_bit k (drop_bit k w)) = drop_bit k (of_nat n)
    \<longleftrightarrow> unat (drop_bit k (push_bit k (drop_bit k w))) = unat (drop_bit k (of_nat n :: 'a word))"
    by (simp only: word_unat_eq_iff)
  also have "\<dots> \<longleftrightarrow> unat w div 2 ^ k = n div 2 ^ k"
    using assms by (simp only: unat_drop_bit_eq unat_masked unsigned_of_nat) (simp add: drop_bit_eq_div take_bit_nat_eq_self)
  also have "\<dots> \<longleftrightarrow> unat w div 2 ^ k * 2 ^ k \<le> n \<and> n < unat w div 2 ^ k * 2 ^ k + 2 ^ k"
  proof
    assume e: "unat w div 2 ^ k = n div 2 ^ k"
    show "unat w div 2 ^ k * 2 ^ k \<le> n \<and> n < unat w div 2 ^ k * 2 ^ k + 2 ^ k"
      unfolding e using div_times_less_eq_dividend [of n "2 ^ k"] dividend_less_div_times [of "2 ^ k" n] by (simp add: add.commute)
  next
    assume "unat w div 2 ^ k * 2 ^ k \<le> n \<and> n < unat w div 2 ^ k * 2 ^ k + 2 ^ k"
    then show "unat w div 2 ^ k = n div 2 ^ k" by (intro div_nat_eqI [symmetric]) (auto simp: mult.commute)
  qed
  finally show ?thesis .
qed

lemma masked_room:
  fixes w :: "'a :: len word"
  assumes "k \<le> LENGTH('a)"
  shows "unat w div 2 ^ k * 2 ^ k + 2 ^ k \<le> 2 ^ LENGTH('a)"
proof -
  have "2 ^ LENGTH('a) = 2 ^ (LENGTH('a) - k) * (2 :: nat) ^ k" using assms by (simp flip: power_add)
  moreover have "unat w div 2 ^ k < 2 ^ (LENGTH('a) - k)"
    using unat_bound [of w] calculation by (metis less_mult_imp_div_less)
  ultimately show ?thesis by (metis Suc_leI add.commute mult_Suc mult_le_mono1)
qed


lemma Masked_range:
  assumes "plain (pAddr p)" "0 \<le> pBits p" "pBits p \<le> BitLen (pAddr p)"
  obtains v4 b where "pAddr (Masked p) = addrNo v4 b"
    "b + 2 ^ nat (BitLen (pAddr p) - pBits p) \<le> 2 ^ width v4"
    "\<And>n. n < 2 ^ width v4 \<Longrightarrow>
      Contains (Masked p) (addrNo v4 n) \<longleftrightarrow> b \<le> n \<and> n < b + 2 ^ nat (BitLen (pAddr p) - pBits p)"
    "\<And>a. Contains (Masked p) a \<Longrightarrow> \<exists>n < 2 ^ width v4. a = addrNo v4 n"
proof (cases "pAddr p")
  case (V4 w)
  let ?k = "nat (32 - pBits p)" and ?b = "unat w div 2 ^ nat (32 - pBits p) * 2 ^ nat (32 - pBits p)"
  have k: "?k \<le> LENGTH(32)" using assms by simp
  have a: "pAddr (Masked p) = V4 (push_bit ?k (drop_bit ?k w))" "pBits (Masked p) = pBits p"
    using V4 by (simp_all add: Masked_def maskAddr_def)
  show thesis
  proof (rule that [of True ?b])
    show "pAddr (Masked p) = addrNo True ?b"
      unfolding a addrNo_def unat_masked [symmetric] by simp
    show "?b + 2 ^ nat (BitLen (pAddr p) - pBits p) \<le> 2 ^ width True"
      using masked_room [OF k, of w] by (simp only: width_def if_True V4 BitLen_def Addr.case)
    show "Contains (Masked p) (addrNo True n) \<longleftrightarrow> ?b \<le> n \<and> n < ?b + 2 ^ nat (BitLen (pAddr p) - pBits p)"
      if "n < 2 ^ width True" for n
      using drop_bit_range [where 'a = 32, of n ?k w] that
      by (simp only: width_def if_True Contains_def a addrNo_def Addr.case prod.case V4 BitLen_def)
    show "\<exists>n < 2 ^ width True. a = addrNo True n" if c: "Contains (Masked p) a" for a
    proof -
      obtain v where "a = V4 v" using c a by (auto simp: Contains_def split: Addr.splits)
      then have "a = addrNo True (unat v)" by (simp add: addrNo_def)
      then show ?thesis using unat_bound [of v] unfolding width_def if_True by blast
    qed
  qed
next
  case (V6 w z)
  let ?k = "nat (128 - pBits p)" and ?b = "unat w div 2 ^ nat (128 - pBits p) * 2 ^ nat (128 - pBits p)"
  have k: "?k \<le> LENGTH(128)" using assms by simp
  have a: "pAddr (Masked p) = V6 (push_bit ?k (drop_bit ?k w)) []" "pBits (Masked p) = pBits p"
    using V6 by (simp_all add: Masked_def maskAddr_def)
  show thesis
  proof (rule that [of False ?b])
    show "pAddr (Masked p) = addrNo False ?b"
      unfolding a addrNo_def unat_masked [symmetric] by simp
    show "?b + 2 ^ nat (BitLen (pAddr p) - pBits p) \<le> 2 ^ width False"
      using masked_room [OF k, of w] by (simp only: width_def if_False V6 BitLen_def Addr.case)
    show "Contains (Masked p) (addrNo False n) \<longleftrightarrow> ?b \<le> n \<and> n < ?b + 2 ^ nat (BitLen (pAddr p) - pBits p)"
      if "n < 2 ^ width False" for n
      using drop_bit_range [where 'a = 128, of n ?k w] that
      by (simp only: width_def if_False Contains_def a addrNo_def Addr.case prod.case simp_thms V6 BitLen_def)
    show "\<exists>n < 2 ^ width False. a = addrNo False n" if c: "Contains (Masked p) a" for a
    proof -
      obtain v where "a = V6 v []" using c a by (auto simp: Contains_def split: Addr.splits)
      then have "a = addrNo False (unat v)" by (simp add: addrNo_def)
      then show ?thesis using unat_bound [of v] unfolding width_def if_False by blast
    qed
  qed
qed (use assms in \<open>simp add: plain_def\<close>)

section \<open>The loop\<close>

lemma plain_addrNo [simp]: "plain (addrNo v4 n)"
  by (simp add: addrNo_def plain_def)

lemma addrNo_valid [simp]: "addrNo v4 n \<noteq> NoAddr"
  by (simp add: addrNo_def)

lemma plain_noZone: "plain a \<Longrightarrow> noZone a = a"
  by (auto simp: plain_def noZone_def split: Addr.splits)

lemma Canonicalise_String: "urlForm u \<Longrightarrow> plain a \<Longrightarrow> Canonicalise u d (Addr_String a) = Inr (addressOf a)"
  using Canonicalise_settled [OF addr_settled] by (simp add: judgeHost_def ParseAddr_String)

lemma expand_loop_run:
  assumes "urlForm u" "m \<le> 2 ^ width v4" "n < m"
    "\<And>i. i < 2 ^ width v4 \<Longrightarrow> Contains p (addrNo v4 i) \<longleftrightarrow> b \<le> i \<and> i < m" "b \<le> n"
  shows "expand_loop u d p (addrNo v4 n) out = Some (Inr (out @ map (\<lambda>i. cValue (addressOf (addrNo v4 i))) [n..<m]))"
  using assms(3,5)
proof (induction "m - n" arbitrary: n out)
  case (Suc l)
  let ?v = "cValue (addressOf (addrNo v4 n))"
  have n: "n < 2 ^ width v4" using Suc.prems assms(2) by linarith
  have c: "Contains p (addrNo v4 n)" using assms(4) [OF n] Suc.prems by simp
  have e: "expand_loop u d p (addrNo v4 n) out =
      (if \<not> IsValid (Next (addrNo v4 n)) then Some (Inr (out @ [?v])) else expand_loop u d p (Next (addrNo v4 n)) (out @ [?v]))"
    using c Canonicalise_String [OF assms(1)] by (subst expand_loop.simps) simp
  have up: "[n..<m] = n # [Suc n..<m]" using Suc.prems by (simp add: upt_rec)
  show ?case
  proof (cases "Suc n < 2 ^ width v4")
    case False
    then have "m = Suc n" using Suc.prems assms(2) by linarith
    then show ?thesis using e n False by (simp add: Next_addrNo IsValid_def)
  next
    case True
    then have x: "expand_loop u d p (addrNo v4 n) out = expand_loop u d p (addrNo v4 (Suc n)) (out @ [?v])"
      using e n by (simp add: Next_addrNo IsValid_def)
    show ?thesis
    proof (cases "Suc n < m")
      case True
      then show ?thesis using x up Suc.hyps(1) [of "Suc n"] Suc.hyps(2) Suc.prems by simp
    next
      case False
      then have "\<not> Contains p (addrNo v4 (Suc n))" using assms(4) [OF True] by simp
      then have "expand_loop u d p (addrNo v4 (Suc n)) (out @ [?v]) = Some (Inr (out @ [?v]))"
        by (subst expand_loop.simps) simp
      then show ?thesis using x False Suc.prems up by simp
    qed
  qed
qed simp

text \<open>The addresses of a range, as \<open>expand\<close> lists them.\<close>

lemma expand_loop_range:
  assumes "urlForm u" "plain (pAddr p)" "0 \<le> pBits p" "pBits p \<le> BitLen (pAddr p)"
  shows "\<exists>as. expand_loop u d (Masked p) (pAddr (Masked p)) [] = Some (Inr (map (cValue \<circ> addressOf) as))
    \<and> distinct as \<and> set as = {a. Contains (Masked p) a} \<and> length as = 2 ^ nat (BitLen (pAddr p) - pBits p)"
proof -
  obtain v4 b where r: "pAddr (Masked p) = addrNo v4 b"
    "b + 2 ^ nat (BitLen (pAddr p) - pBits p) \<le> 2 ^ width v4"
    "\<And>n. n < 2 ^ width v4 \<Longrightarrow>
      Contains (Masked p) (addrNo v4 n) \<longleftrightarrow> b \<le> n \<and> n < b + 2 ^ nat (BitLen (pAddr p) - pBits p)"
    "\<And>a. Contains (Masked p) a \<Longrightarrow> \<exists>n < 2 ^ width v4. a = addrNo v4 n"
    using Masked_range [OF assms(2-4)] by blast
  let ?m = "b + 2 ^ nat (BitLen (pAddr p) - pBits p)"
  let ?as = "map (addrNo v4) [b..<?m]"
  have "expand_loop u d (Masked p) (pAddr (Masked p)) [] = Some (Inr (map (cValue \<circ> addressOf) ?as))"
    using expand_loop_run [OF assms(1) r(2) _ r(3), of b d "[]"] r(1) by (simp add: comp_def)
  moreover have "distinct ?as"
    unfolding distinct_map using addrNo_inject r(2) by (force simp: inj_on_def)
  moreover have "set ?as = {a. Contains (Masked p) a}"
  proof (intro set_eqI iffI)
    fix a assume "a \<in> set ?as"
    then obtain n where "a = addrNo v4 n" "b \<le> n" "n < ?m" by auto
    then show "a \<in> {a. Contains (Masked p) a}" using r(2) r(3) [of n] by simp
  next
    fix a assume "a \<in> {a. Contains (Masked p) a}"
    then obtain n where "a = addrNo v4 n" "n < 2 ^ width v4" "Contains (Masked p) (addrNo v4 n)" using r(4) by blast
    then show "a \<in> set ?as" using r(3) [of n] by simp
  qed
  ultimately show ?thesis by (intro exI [of _ ?as]) simp
qed

lemma expand_KindPrefix:
  assumes "urlWithin u" "Canonicalise u d declared = Inr c" "cKind c = KindPrefix"
  shows "plain (pAddr (cPrefix c))" "0 \<le> pBits (cPrefix c)" "pBits (cPrefix c) < BitLen (pAddr (cPrefix c))"
    "Masked (cPrefix c) = cPrefix c"
proof -
  obtain h br where h: "judgeHost d h br = Inr c" using Canonicalise_host [OF assms(2,1)] by blast
  then obtain p where "cPrefix c = Masked p" "plain (pAddr p)" "0 \<le> pBits p" "pBits p < BitLen (pAddr p)"
    using assms(3) by (cases rule: judgeHost_cases) (auto simp: addressOf_def Let_def)
  then show "plain (pAddr (cPrefix c))" "0 \<le> pBits (cPrefix c)" "pBits (cPrefix c) < BitLen (pAddr (cPrefix c))"
    "Masked (cPrefix c) = cPrefix c"
    using Masked_facts [of p] by simp_all
qed

lemma expand_range:
  assumes "urlWithin u" "Canonicalise u d declared = Inr c" "cKind c = KindPrefix"
    "0 < hostCount (cPrefix c)" "hostCount (cPrefix c) \<le> MaxAddressesPerTarget"
  shows "\<exists>as. expand u d declared = Some (Inr (map (cValue \<circ> addressOf) as))
    \<and> distinct as \<and> set as = {a. Contains (cPrefix c) a} \<and> int (length as) = hostCount (cPrefix c)"
proof -
  note k = expand_KindPrefix [OF assms(1-3)]
  have "expand u d declared = expand_loop u d (cPrefix c) (pAddr (cPrefix c)) []"
    using assms(2-5) by (simp add: expand_def Let_def)
  moreover have "int (2 ^ nat (BitLen (pAddr (cPrefix c)) - pBits (cPrefix c))) = hostCount (cPrefix c)"
    using assms(4) k(3) by (auto simp: hostCount_def Let_def split: if_splits)
  ultimately show ?thesis
    using expand_loop_range [of u "cPrefix c" d] assms(1) k by (auto simp: urlWithin_def)
qed

text \<open>What \<open>expand\<close> returns is one form per declared host.\<close>

lemma expand_cases:
  assumes "urlWithin u"
  obtains (refused) e where "expand u d declared = Some (Inl e)"
  | (single) c where "Canonicalise u d declared = Inr c" "cKind c \<noteq> KindPrefix" "expand u d declared = Some (Inr [cValue c])"
  | (range) c as where "Canonicalise u d declared = Inr c" "cKind c = KindPrefix"
      "expand u d declared = Some (Inr (map (cValue \<circ> addressOf) as))"
      "distinct as" "set as = {a. Contains (cPrefix c) a}" "int (length as) = hostCount (cPrefix c)"
      "0 < hostCount (cPrefix c)" "hostCount (cPrefix c) \<le> MaxAddressesPerTarget"
proof (cases "Canonicalise u d declared")
  case (Inl e)
  then show thesis using refused by (simp add: expand_def)
next
  case (Inr c)
  show thesis
  proof (cases "cKind c = KindPrefix")
    case False
    then show thesis using Inr single [of c] by (cases "cKind c") (simp_all add: expand_def)
  next
    case True
    show thesis
    proof (cases "hostCount (cPrefix c) = 0 \<or> hostCount (cPrefix c) > MaxAddressesPerTarget")
      case t: True
      then show thesis using Inr True refused by (simp add: expand_def Let_def)
    next
      case False
      moreover have "0 \<le> hostCount (cPrefix c)" by (simp add: hostCount_def Let_def)
      ultimately show thesis using expand_range [OF assms Inr True] range [OF Inr True] by auto
    qed
  qed
qed

lemma addressOf_inject:
  assumes "plain a" "plain b" "Is4 a = Is4 b" "cValue (addressOf a) = cValue (addressOf b)"
  shows "a = b"
proof -
  have n: "a \<noteq> NoAddr" "b \<noteq> NoAddr" using assms by (auto simp: plain_def)
  have "cAddr (addressOf a) = cAddr (addressOf b)"
    using assms(4) addressOf_plain(1,3) [OF n(1)] addressOf_plain(1,3) [OF n(2)] ParseAddr_String by (metis option.inject)
  then have e: "Unmap a = Unmap b" using assms(1,2) by (simp add: addressOf_def plain_noZone Let_def)
  show ?thesis
  proof (cases a)
    case (V6 w z)
    then obtain w' where b: "b = V6 w' []" using assms by (cases b) (auto simp: plain_def Is4_def)
    have z: "z = []" using V6 assms(1) by (simp add: plain_def)
    show ?thesis
    proof (cases "Is4In6 a")
      case True
      then have m: "Is4In6 b" "(ucast w :: 32 word) = ucast w'" using e V6 b by (auto simp: Unmap_def split: if_splits)
      have "drop_bit 32 w = drop_bit 32 w'" using True m V6 b by (simp add: Is4In6_def)
      moreover have "take_bit 32 w = take_bit 32 w'"
      proof (rule bit_word_eqI)
        fix n
        have "bit (ucast w :: 32 word) n = bit (ucast w' :: 32 word) n" using m(2) by simp
        then show "bit (take_bit 32 w) n = bit (take_bit 32 w') n" by (auto simp: bit_ucast_iff bit_take_bit_iff)
      qed
      ultimately show ?thesis using V6 b z by (metis bits_ident)
    next
      case False
      then show ?thesis using e V6 b z by (auto simp: Unmap_def split: if_splits)
    qed
  qed (use assms e n in \<open>cases b; auto simp: Is4_def Unmap_def\<close>)+
qed

section \<open>Host names\<close>

lemma rune_high: "runeWidth s \<noteq> 1 \<Longrightarrow> i < runeWidth s \<Longrightarrow> 128 \<le> code (s ! i)"
proof -
  assume w: "runeWidth s \<noteq> 1" and i: "i < runeWidth s"
  have k: "i = 0 \<or> i = 1 \<or> i = 2 \<or> i = 3" if "i < 4" using that by linarith
  from w have x: "194 \<le> code (s ! 0)" by (auto simp: runeWidth_def Let_def split: if_splits)
  from w consider "runeWidth s = 2" "cont (s ! 1)" | "runeWidth s = 3" "128 \<le> code (s ! 1)" "cont (s ! 2)"
    | "runeWidth s = 4" "128 \<le> code (s ! 1)" "cont (s ! 2)" "cont (s ! 3)"
    by (simp add: runeWidth_def Let_def between_def split: if_splits)
  then show ?thesis by cases (use x i k in \<open>auto simp: cont_def\<close>)
qed

lemma fold_colon: "CHR '':'' \<in> set s \<Longrightarrow> CHR '':'' \<in> set (foldDigits_loop d s)"
proof (induction d s rule: foldDigits_loop.induct)
  case (1 d s)
  obtain r n where r: "decodeRune s = (r, n)" by (cases "decodeRune s")
  have n: "n = runeWidth s" using decodeRune_width [OF r] .
  show ?case
  proof (cases "CHR '':'' \<in> set (drop n s)")
    case True
    have "s \<noteq> []" using "1.prems" by auto
    then show ?thesis using "1.IH" [OF _ r [symmetric] refl True] r True by (subst foldDigits_loop.simps) auto
  next
    case False
    then have t: "CHR '':'' \<in> set (take n s)" using "1.prems" by (metis append_take_drop_id set_append UnE)
    obtain c s' where s: "s = c # s'" using "1.prems" by (cases s) auto
    obtain i where i: "i < n" "s ! i = CHR '':''" using t by (auto simp: in_set_conv_nth)
    then have "n = 1" using rune_high [of s i] n by fastforce
    then have "c = CHR '':''" using i s by simp
    have c: "CHR '':'' = char_of (58 :: nat)" by code_simp
    from \<open>c = CHR '':''\<close> have "r = 58" using r s by (auto simp: decodeRune_def runeWidth_def Let_def split: if_splits)
    then show ?thesis using r s by (subst foldDigits_loop.simps) (simp add: encodeRune_def c)
  qed
qed

lemma name_not_address:
  assumes "judgeHost d h br = Inr c" "cKind c = KindHostname"
  shows "cValue c = ToLower h" "ParseAddr (cValue c) = None"
proof -
  have n: "ParseAddr h = None" "\<not> LooksLikeAddress d h" and v: "cValue c = ToLower h"
    using assms by (auto simp: judgeHost_def addressOf_def Let_def split: option.splits if_splits)
  show "cValue c = ToLower h" by (rule v)
  have "CHR '':'' \<notin> set h"
    using n(2) fold_colon [of h d] by (auto simp: LooksLikeAddress_def foldDigits_def Let_def split: if_splits)
  then have nc: "CHR '':'' \<notin> set (ToLower h)" by (simp add: set_ToLower)
  show "ParseAddr (cValue c) = None"
  proof (rule ccontr)
    assume "ParseAddr (cValue c) \<noteq> None"
    then obtain a where a: "ParseAddr (ToLower h) = Some a" using v by auto
    then have "ToLower h = h" using ParseAddr_no_colon [OF a nc] by (intro lower_fixed) auto
    then show False using a n(1) by simp
  qed
qed

section \<open>Properties\<close>


definition ex_range :: netPrefix where "ex_range = \<lparr>pAddr = V4 0xFFFFFF00, pBits = 24\<rparr>"


end
