(* ===== verification/Core_Planner.thy ===== *)
theory Core_Planner
  imports Core_Expand Core_Scans
begin

text \<open>
  Planning (\<open>internal/dispatch/planner.go\<close>): a pending scan becomes queued jobs of at most 32 tasks, in
  one transaction that refuses the whole scan when any of its targets cannot be planned, and the pass
  over the pending scans of a tenant. \<open>None\<close> stands for an expansion that does not return.
\<close>

section \<open>Model\<close>

definition TasksPerJob :: nat where "TasksPerJob = 32"

definition PlanBatchLimit :: int where "PlanBatchLimit = 4"

datatype planFailure =
    NotPlannable
  | NoTargets
  | ErrTargetNotAuthorized uuid string
  | TargetError uuid expandError
  | StoreFailure storeError
  | ErrUnplannableScanType string

fun plan_targets :: "(string \<Rightarrow> (string \<times> string) option) \<Rightarrow> (nat \<Rightarrow> bool) \<Rightarrow> string \<Rightarrow> ScanTarget list \<Rightarrow>
    (planFailure + (string \<times> uuid) list) option" where
  "plan_targets urlParse isDig engine [] = Some (Inr [])"
| "plan_targets urlParse isDig engine (t # ts) =
     (if \<not> stAuthorized t then Some (Inl (ErrTargetNotAuthorized (stID t) (stValue t)))
      else case expandFor urlParse isDig engine (stValue t) of
             None \<Rightarrow> None
           | Some (Inl e) \<Rightarrow> Some (Inl (TargetError (stID t) e))
           | Some (Inr expanded) \<Rightarrow>
               (case plan_targets urlParse isDig engine ts of
                  Some (Inr rest) \<Rightarrow> Some (Inr (map (\<lambda>v. (v, stID t)) expanded @ rest))
                | r \<Rightarrow> r))"

text \<open>The loop over the chunks; each draws the ids of its job and tasks.\<close>

function plan_loop :: "(nat \<Rightarrow> uuid) \<Rightarrow> time \<Rightarrow> uuid \<Rightarrow> string \<Rightarrow> bool \<Rightarrow> (string \<times> uuid) list \<Rightarrow> tenantDB \<Rightarrow> storeError + tenantDB" where
  "plan_loop ids now scan engine safe ts d =
     (if ts = [] then Inr d
      else case Scans_Plan ids now scan engine safe (take TasksPerJob ts) d of
             Inl e \<Rightarrow> Inl e
           | Inr d' \<Rightarrow> plan_loop (\<lambda>n. ids (Suc TasksPerJob + n)) now scan engine safe (drop TasksPerJob ts) d')"
  by pat_completeness auto

termination
  by (relation "measure (\<lambda>(ids, now, scan, engine, safe, ts, d). length ts)") (auto simp: TasksPerJob_def)

declare plan_loop.simps [simp del]

definition PlanScan :: "(string \<Rightarrow> (string \<times> string) option) \<Rightarrow> (nat \<Rightarrow> bool) \<Rightarrow> (nat \<Rightarrow> uuid) \<Rightarrow> time \<Rightarrow> uuid \<Rightarrow> string \<Rightarrow> bool \<Rightarrow>
    tenantDB \<Rightarrow> (planFailure + (tenantDB \<times> nat)) option" where
  "PlanScan urlParse isDig ids now scan engine safe d =
     (case Scans_SetStatus now scan [ScanPending] ScanPlanning d of
        None \<Rightarrow> Some (Inl NotPlannable)
      | Some d1 \<Rightarrow>
          let ts = Scans_Targets scan d1
          in if ts = [] then Some (Inl NoTargets)
             else case plan_targets urlParse isDig engine ts of
                    None \<Rightarrow> None
                  | Some (Inl e) \<Rightarrow> Some (Inl e)
                  | Some (Inr tasks) \<Rightarrow>
                      (case plan_loop ids now scan engine safe tasks d1 of
                         Inl e \<Rightarrow> Some (Inl (StoreFailure e))
                       | Inr d2 \<Rightarrow>
                           (case Scans_SetStatus now scan [ScanPlanning] ScanRunning d2 of
                              None \<Rightarrow> Some (Inl NotPlannable)
                            | Some d3 \<Rightarrow> Some (Inr (d3, length tasks)))))"

definition engineFor :: "uuid \<Rightarrow> tenantDB \<Rightarrow> planFailure + (string \<times> bool)" where
  "engineFor scan d =
     (case map_of (scans d) scan of
        None \<Rightarrow> Inl (StoreFailure ErrNotFound)
      | Some s \<Rightarrow>
          (case EngineForScanType (scType s) of
             None \<Rightarrow> Inl (ErrUnplannableScanType (scType s))
           | Some e \<Rightarrow> Inr (e, False)))"

text \<open>
  What a pass of the planner meets: the clock and the ids of each scan's transaction, whether the context
  has ended before it, whether the database refuses the planning or the record of its failure, and the
  text of a failure.
\<close>

record planPass =
  ppNow :: "uuid \<Rightarrow> time"
  ppIDs :: "uuid \<Rightarrow> nat \<Rightarrow> uuid"
  ppEnded :: "uuid \<Rightarrow> bool"
  ppRefused :: "uuid \<Rightarrow> storeError option"
  ppUnrecorded :: "uuid \<Rightarrow> bool"
  ppText :: "planFailure \<Rightarrow> string"

text \<open>One scan: the failure if any, and the rows.\<close>

definition plan_one :: "(string \<Rightarrow> (string \<times> string) option) \<Rightarrow> (nat \<Rightarrow> bool) \<Rightarrow> planPass \<Rightarrow> uuid \<Rightarrow> tenantDB \<Rightarrow> tenantDB option" where
  "plan_one urlParse isDig pp scan d =
     (let failed = (\<lambda>e. case Scans_Fail (ppNow pp scan) scan (ppText pp e) d of
                         Inl _ \<Rightarrow> d
                       | Inr d' \<Rightarrow> if ppUnrecorded pp scan then d else d')
      in case engineFor scan d of
           Inl e \<Rightarrow> Some (failed e)
         | Inr (engine, safe) \<Rightarrow>
             (case ppRefused pp scan of
                Some e \<Rightarrow> Some (failed (StoreFailure e))
              | None \<Rightarrow>
                  (case PlanScan urlParse isDig (ppIDs pp scan) (ppNow pp scan) scan engine safe d of
                     None \<Rightarrow> None
                   | Some (Inl e) \<Rightarrow> Some (failed e)
                   | Some (Inr (d', n)) \<Rightarrow> Some d')))"

fun plan_pending :: "(string \<Rightarrow> (string \<times> string) option) \<Rightarrow> (nat \<Rightarrow> bool) \<Rightarrow> planPass \<Rightarrow> uuid list \<Rightarrow> tenantDB \<Rightarrow> tenantDB option" where
  "plan_pending urlParse isDig pp [] d = Some d"
| "plan_pending urlParse isDig pp (i # is) d =
     (if ppEnded pp i then Some d
      else Option.bind (plan_one urlParse isDig pp i d) (plan_pending urlParse isDig pp is))"

definition PlanPending :: "(string \<Rightarrow> (string \<times> string) option) \<Rightarrow> (nat \<Rightarrow> bool) \<Rightarrow> planPass \<Rightarrow> int \<Rightarrow> tenantDB \<Rightarrow> tenantDB option" where
  "PlanPending urlParse isDig pp limit d = plan_pending urlParse isDig pp (PendingIDs limit d) d"

section \<open>Facts\<close>

lemma map_of_upd: "map_of (upd i f xs) k = (if k = i then map_option f (map_of xs k) else map_of xs k)"
  by (induction xs) (auto simp: upd_def)

lemma keys_upd [simp]: "map fst (upd i f xs) = map fst xs" "fst ` set (upd i f xs) = fst ` set xs"
  by (auto simp: upd_def image_iff split: prod.splits if_splits) force+

lemma expandFor_Inr:
  assumes "urlWithin u" "expandFor u g engine declared = Some (Inr out)" "v \<in> set out" "dialsTargets engine"
  shows "\<exists>a. plain a \<and> \<not> Is4In6 a \<and> v = Addr_String a \<and> Matches u g v = (addressOf a, True)"
proof -
  have e: "expand u g declared = Some (Inr out)" and w: "list_all isAddress out"
    using assms(2,4) by (auto simp: expandFor_def find_None_iff list_all_iff split: option.splits sum.splits if_splits)
  have M: ?thesis if "v = cValue (addressOf a)" "a \<noteq> NoAddr" for a
    using that addressOf_plain [OF that(2)] Canonicalise_address [of u a g] assms(1)
    by (intro exI [of _ "cAddr (addressOf a)"]) (auto simp: urlWithin_def Matches_def)
  show ?thesis
    using assms(1)
  proof (cases rule: expand_cases [where d = g and declared = declared])
    case (refused x)
    then show ?thesis using e by simp
  next
    case (range c as)
    then obtain a where "v = cValue (addressOf a)" "a \<in> set as" using e assms(3) by auto
    then show ?thesis using M range(5) by (auto simp: Contains_def split: Addr.splits)
  next
    case (single c)
    then have v: "v = cValue c" "isAddress v" using e assms(3) w by auto
    obtain h br where h: "judgeHost g h br = Inr c" using Canonicalise_host [OF single(1) assms(1)] by blast
    then show ?thesis
    proof (cases rule: judgeHost_cases)
      case (address a)
      then show ?thesis using M v by simp
    next
      case (range p)
      then show ?thesis using single by simp
    next
      case name
      then show ?thesis using v name_not_address [OF h] by (simp add: isAddress_def)
    qed
  qed
qed

text \<open>What planning reads and what it writes.\<close>

lemma expandFor_returns: "urlWithin u \<Longrightarrow> \<exists>r. expandFor u g engine declared = Some r"
  by (cases rule: expand_cases [of u g declared]) (auto simp: expandFor_def split: option.splits)

lemma plan_targets_returns: "urlWithin u \<Longrightarrow> \<exists>r. plan_targets u g engine ts = Some r"
proof (induction ts)
  case (Cons t ts)
  then show ?case using expandFor_returns [OF Cons.prems, of g engine "stValue t"]
    by (auto split: sum.splits option.splits)
qed simp

lemma plan_targets_Inr:
  assumes "plan_targets u g engine ts = Some (Inr tasks)"
  shows "list_all stAuthorized ts"
    "tasks = concat (map (\<lambda>t. map (\<lambda>v. (v, stID t)) (case expandFor u g engine (stValue t) of Some (Inr out) \<Rightarrow> out | _ \<Rightarrow> [])) ts)"
    "\<forall>t \<in> set ts. \<exists>out. expandFor u g engine (stValue t) = Some (Inr out)"
  using assms by (induction ts arbitrary: tasks) (auto split: if_splits option.splits sum.splits)

definition taskPairs :: "Job \<Rightarrow> (string \<times> uuid option) list" where
  "taskPairs j = map (\<lambda>t. (taskTarget t, targetID t)) (jobTasks j)"

text \<open>A job as planning writes it.\<close>

definition fresh_job :: "time \<Rightarrow> uuid \<Rightarrow> string \<Rightarrow> bool \<Rightarrow> Job \<Rightarrow> bool" where
  "fresh_job now scan engine safe j \<longleftrightarrow>
     (\<exists>ts. j = newJob scan engine safe now ts \<and> ts \<noteq> [] \<and> length ts \<le> TasksPerJob \<and> list_all (\<lambda>t. taskStatus t = TaskPending \<and> taskTarget t \<noteq> []) ts)"

lemma plannedTask_pairs:
  "length is = length ts \<Longrightarrow> map (\<lambda>t. (taskTarget t, targetID t)) (map2 plannedTask is ts) = map (\<lambda>(t, tg). (t, Some tg)) ts"
  by (induction "is" ts rule: list_induct2) (auto simp: plannedTask_def)

lemma plannedTask_pending:
  "length is = length ts \<Longrightarrow> list_all (\<lambda>(t, tg). t \<noteq> []) ts \<Longrightarrow>
    list_all (\<lambda>t. taskStatus t = TaskPending \<and> taskTarget t \<noteq> []) (map2 plannedTask is ts)"
  by (induction "is" ts rule: list_induct2) (auto simp: plannedTask_def)

lemma plan_loop_Inr:
  assumes "plan_loop ids now scan engine safe ts d = Inr d'"
  shows "\<exists>new. d' = d\<lparr>jobs := jobs d @ new\<rparr> \<and> list_all (fresh_job now scan engine safe \<circ> snd) new
    \<and> concat (map (taskPairs \<circ> snd) new) = map (\<lambda>(t, tg). (t, Some tg)) ts"
  using assms
proof (induction ids now scan engine safe ts d arbitrary: d' rule: plan_loop.induct)
  case (1 ids now scan engine safe ts d)
  show ?case
  proof (cases "ts = []")
    case True
    then show ?thesis using "1.prems" by (auto simp: plan_loop.simps intro: exI [of _ "[]"])
  next
    case False
    let ?c = "take TasksPerJob ts"
    obtain d1 where d1: "Scans_Plan ids now scan engine safe ?c d = Inr d1"
      and rest: "plan_loop (\<lambda>n. ids (Suc TasksPerJob + n)) now scan engine safe (drop TasksPerJob ts) d1 = Inr d'"
      using "1.prems" False by (auto simp: plan_loop.simps [of ids] split: sum.splits)
    define j where "j = newJob scan engine safe now (map2 plannedTask (map ids [1..<Suc (length ?c)]) ?c)"
    have d1': "d1 = d\<lparr>jobs := jobs d @ [(ids 0, j)]\<rparr>" and ne: "?c \<noteq> []" "list_all (\<lambda>(t, tg). t \<noteq> []) ?c"
      using d1 by (auto simp: Scans_Plan_def j_def list_ex_iff list_all_iff simp del: upt_Suc split: if_splits)
    have len: "length (map ids [1..<Suc (length ?c)]) = length ?c" by (simp del: upt_Suc)
    have tp: "taskPairs j = map (\<lambda>(t, tg). (t, Some tg)) ?c"
      using plannedTask_pairs [OF len] by (simp add: taskPairs_def j_def newJob_def del: upt_Suc)
    have fj: "fresh_job now scan engine safe j"
      unfolding fresh_job_def j_def using plannedTask_pending [OF len ne(2)] ne(1)
      by (intro exI [of _ "map2 plannedTask (map ids [1..<Suc (length ?c)]) ?c"] conjI refl) (auto simp: zip_eq_Nil_iff simp del: upt_Suc)
    obtain new where new: "d' = d1\<lparr>jobs := jobs d1 @ new\<rparr>" "list_all (fresh_job now scan engine safe \<circ> snd) new"
      "concat (map (taskPairs \<circ> snd) new) = map (\<lambda>(t, tg). (t, Some tg)) (drop TasksPerJob ts)"
      using "1.IH" [OF False d1 rest] by blast
    have "map (\<lambda>(t, tg). (t, Some tg)) ts = taskPairs j @ concat (map (taskPairs \<circ> snd) new)"
      unfolding tp new(3) by (metis append_take_drop_id map_append)
    then show ?thesis using new(1,2) d1' fj by (intro exI [of _ "(ids 0, j) # new"]) (auto simp: comp_def)
  qed
qed

lemma SetStatus_Some:
  "Scans_SetStatus now i froms to d = Some d' \<longleftrightarrow>
     (\<exists>s. map_of (scans d) i = Some s \<and> scStatus s \<in> set froms \<and> d' = d\<lparr>scans := upd i (statusMove now to) (scans d)\<rparr>)"
  by (auto simp: Scans_SetStatus_def split: option.splits if_splits)

lemma upd_twice: "upd i f (upd i g xs) = upd i (f \<circ> g) xs"
  by (auto simp: upd_def)

definition startedScan :: "time \<Rightarrow> Scan \<Rightarrow> Scan" where
  "startedScan now s = s\<lparr>scStatus := ScanRunning, scStarted := Some (case scStarted s of None \<Rightarrow> now | Some t \<Rightarrow> t)\<rparr>"

lemma planned_status: "statusMove now ScanRunning \<circ> statusMove now ScanPlanning = startedScan now"
  by (rule ext) (simp add: statusMove_def startedScan_def split: option.splits)

lemma PlanScan_Inr:
  assumes "PlanScan u g ids now scan engine safe d = Some (Inr (d', n))"
  obtains s new tasks where "map_of (scans d) scan = Some s" "scStatus s = ScanPending" "scTargets s \<noteq> []"
    "plan_targets u g engine (sort_key (\<lambda>t. (stCreatedAt t, stID t)) (scTargets s)) = Some (Inr tasks)" "n = length tasks"
    "d' = d\<lparr>scans := upd scan (startedScan now) (scans d), jobs := jobs d @ new\<rparr>"
    "list_all (fresh_job now scan engine safe \<circ> snd) new"
    "concat (map (taskPairs \<circ> snd) new) = map (\<lambda>(t, tg). (t, Some tg)) tasks"
proof -
  obtain d1 tasks d2 where p: "Scans_SetStatus now scan [ScanPending] ScanPlanning d = Some d1" "Scans_Targets scan d1 \<noteq> []"
    "plan_targets u g engine (Scans_Targets scan d1) = Some (Inr tasks)" "plan_loop ids now scan engine safe tasks d1 = Inr d2"
    "Scans_SetStatus now scan [ScanPlanning] ScanRunning d2 = Some d'" "n = length tasks"
    using assms by (auto simp: PlanScan_def Let_def split: option.splits if_splits sum.splits)
  obtain s where a: "map_of (scans d) scan = Some s" "scStatus s \<in> set [ScanPending]"
    "d1 = d\<lparr>scans := upd scan (statusMove now ScanPlanning) (scans d)\<rparr>"
    using p(1) unfolding SetStatus_Some by blast
  have b: "d' = d2\<lparr>scans := upd scan (statusMove now ScanRunning) (scans d2)\<rparr>"
    using p(5) unfolding SetStatus_Some by blast
  obtain new where n: "d2 = d1\<lparr>jobs := jobs d1 @ new\<rparr>" "list_all (fresh_job now scan engine safe \<circ> snd) new"
    "concat (map (taskPairs \<circ> snd) new) = map (\<lambda>(t, tg). (t, Some tg)) tasks"
    using plan_loop_Inr [OF p(4)] by blast
  have t: "Scans_Targets scan d1 = sort_key (\<lambda>t. (stCreatedAt t, stID t)) (scTargets s)"
    using a by (simp add: Scans_Targets_def map_of_upd statusMove_def)
  show thesis
  proof (rule that [OF a(1) _ _ _ p(6) _ n(2,3)])
    show "d' = d\<lparr>scans := upd scan (startedScan now) (scans d), jobs := jobs d @ new\<rparr>"
      using a(3) b n(1) by (simp add: upd_twice planned_status)
  qed (use a(2) p(2,3) t in auto)
qed

section \<open>Properties\<close>


lemma endScan_Some:
  "endScan now i to d = Some d' \<longleftrightarrow>
     (\<exists>s. map_of (scans d) i = Some s \<and> openScan (scStatus s)
        \<and> d' = d\<lparr>scans := upd i (\<lambda>s. s\<lparr>scStatus := to, scCompleted := Some now\<rparr>) (scans d)\<rparr>)"
  by (auto simp: endScan_def split: option.splits if_splits)

lemma PlanScan_returns: "urlWithin u \<Longrightarrow> \<exists>r. PlanScan u g ids now scan engine safe d = Some r"
  using plan_targets_returns [of u g engine]
  by (auto simp: PlanScan_def Let_def split: option.splits sum.splits) (metis option.distinct(1))+

text \<open>One scan of a pass: planned, or failed with no job written.\<close>

lemma plan_one_settles:
  assumes "urlWithin u" "map_of (scans d) i = Some s" "scStatus s = ScanPending" "\<not> ppUnrecorded pp i"
  shows "\<exists>d'. plan_one u g pp i d = Some d' \<and> (\<forall>k. k \<noteq> i \<longrightarrow> map_of (scans d') k = map_of (scans d) k)
    \<and> (map_option scStatus (map_of (scans d') i) = Some ScanRunning
       \<or> map_option scStatus (map_of (scans d') i) = Some ScanFailed \<and> jobs d' = jobs d)"
proof -
  have fail: "\<exists>d'. Scans_Fail now i why d = Inr d' \<and> (\<forall>k. k \<noteq> i \<longrightarrow> map_of (scans d') k = map_of (scans d) k)
      \<and> map_option scStatus (map_of (scans d') i) = Some ScanFailed \<and> jobs d' = jobs d" for now why
    using assms(2,3) by (simp add: Scans_Fail_def endScan_def openScan_def Audit_Record_def map_of_upd)
  show ?thesis
  proof (cases "engineFor i d")
    case (Inl e)
    then show ?thesis using fail [of "ppNow pp i" "ppText pp e"] assms(4) by (auto simp: plan_one_def)
  next
    case (Inr es)
    obtain engine safe where es: "es = (engine, safe)" by (cases es)
    show ?thesis
    proof (cases "ppRefused pp i")
      case (Some e)
      then show ?thesis using Inr es fail [of "ppNow pp i" "ppText pp (StoreFailure e)"] assms(4) by (auto simp: plan_one_def)
    next
      case None
      obtain r where r: "PlanScan u g (ppIDs pp i) (ppNow pp i) i engine safe d = Some r" using PlanScan_returns [OF assms(1)] by blast
      show ?thesis
      proof (cases r)
        case (Inl e)
        then show ?thesis using Inr None r es fail [of "ppNow pp i" "ppText pp e"] assms(4) by (auto simp: plan_one_def)
      next
        case R: (Inr dn)
        obtain d' n where dn: "dn = (d', n)" by (cases dn)
        have "\<exists>new. d' = d\<lparr>scans := upd i (startedScan (ppNow pp i)) (scans d), jobs := jobs d @ new\<rparr>"
          using r R dn by (auto elim: PlanScan_Inr)
        then show ?thesis using Inr None r es R dn assms(2) by (auto simp: plan_one_def map_of_upd startedScan_def)
      qed
    qed
  qed
qed

lemma PendingIDs_sound:
  assumes "distinct (map fst (scans d))"
  shows "distinct (PendingIDs limit d)" "i \<in> set (PendingIDs limit d) \<Longrightarrow> \<exists>s. map_of (scans d) i = Some s \<and> scStatus s = ScanPending"
proof -
  let ?f = "filter (\<lambda>(i, s). scStatus s = ScanPending) (scans d)"
  have "distinct (map fst (sort_key (\<lambda>(i, s). (scCreated s, i)) ?f))"
    using assms by (simp add: distinct_map_filter distinct_map inj_on_def)
  then show "distinct (PendingIDs limit d)" unfolding PendingIDs_def by (rule distinct_take)
  assume "i \<in> set (PendingIDs limit d)"
  then obtain s where "(i, s) \<in> set (scans d)" "scStatus s = ScanPending"
    unfolding PendingIDs_def by (auto dest!: in_set_takeD)
  then show "\<exists>s. map_of (scans d) i = Some s \<and> scStatus s = ScanPending" using assms by auto
qed

lemma plan_pending_settles:
  assumes "urlWithin u" "\<And>i. \<not> ppEnded pp i \<and> \<not> ppUnrecorded pp i" "distinct is"
    "\<And>i. i \<in> set is \<Longrightarrow> \<exists>s. map_of (scans d) i = Some s \<and> scStatus s = ScanPending"
  shows "\<exists>d'. plan_pending u g pp is d = Some d'
    \<and> (\<forall>k. k \<notin> set is \<longrightarrow> map_of (scans d') k = map_of (scans d) k)
    \<and> (\<forall>k \<in> set is. map_option scStatus (map_of (scans d') k) \<in> {Some ScanRunning, Some ScanFailed})"
  using assms(3,4)
proof (induction "is" arbitrary: d)
  case (Cons i "is")
  obtain s where s: "map_of (scans d) i = Some s" "scStatus s = ScanPending" using Cons.prems(2) by fastforce
  obtain d1 where d1: "plan_one u g pp i d = Some d1" "\<forall>k. k \<noteq> i \<longrightarrow> map_of (scans d1) k = map_of (scans d) k"
    "map_option scStatus (map_of (scans d1) i) \<in> {Some ScanRunning, Some ScanFailed}"
    using plan_one_settles [OF assms(1) s, of pp g] assms(2) by blast
  have "\<exists>s. map_of (scans d1) k = Some s \<and> scStatus s = ScanPending" if "k \<in> set is" for k
    using Cons.prems d1(2) that by (metis distinct.simps(2) list.set_intros(2))
  then obtain d' where "plan_pending u g pp is d1 = Some d'"
    "\<forall>k. k \<notin> set is \<longrightarrow> map_of (scans d') k = map_of (scans d1) k"
    "\<forall>k \<in> set is. map_option scStatus (map_of (scans d') k) \<in> {Some ScanRunning, Some ScanFailed}"
    using Cons.IH [of d1] Cons.prems(1) by auto
  then show ?case using d1 assms(2) Cons.prems(1) by (intro exI [of _ d']) auto
qed simp


section \<open>Witnesses\<close>

definition ex_target :: ScanTarget where
  "ex_target = \<lparr>stID = 3, stType = ''host'', stValue = Addr_String (V4 0xC0000201), stAuthorized = True, stVerifiedAt = Some 0, stCreatedAt = 0\<rparr>"

definition ex_scan :: Scan where
  "ex_scan = \<lparr>scPolicy = 4, scRequestedBy = None, scType = ''discovery'', scStatus = ScanPending, scSafety = SafetySafeMode, scCreated = 0,
     scStarted = None, scCompleted = None, scCancelRequested = None, scTargets = [ex_target]\<rparr>"

definition ex_db :: tenantDB where
  "ex_db = \<lparr>scans = [(2, ex_scan)], jobs = [], policies = [], kills = [], cancels = [], points = [], sshProfiles = [], grants = [], audit = []\<rparr>"

definition ex_pass :: planPass where
  "ex_pass = \<lparr>ppNow = (\<lambda>_. 100), ppIDs = (\<lambda>_ n. of_nat (10 + n)), ppEnded = (\<lambda>_. False), ppRefused = (\<lambda>_. None), ppUnrecorded = (\<lambda>_. False),
     ppText = (\<lambda>_. [])\<rparr>"

lemma ex_url: "urlWithin (\<lambda>_. None)"
  by (simp add: urlWithin_def urlForm_def)

lemma ex_expand: "expandFor (\<lambda>_. None) (\<lambda>_. False) ''discovery'' (stValue ex_target) = Some (Inr [Addr_String (V4 0xC0000201)])"
proof -
  have "Canonicalise (\<lambda>_. None) (\<lambda>_. False) (Addr_String (V4 0xC0000201)) = Inr (addressOf (V4 0xC0000201))"
    using ex_url by (intro Canonicalise_String) (simp_all add: urlWithin_def plain_def)
  moreover have "isAddress (Addr_String (V4 0xC0000201))" by (simp add: isAddress_def ParseAddr_String plain_def)
  ultimately show ?thesis by (simp add: expandFor_def expand_def ex_target_def addressOf_def dialsTargets_def Let_def)
qed

lemma ex_plan: "\<exists>d'. PlanScan (\<lambda>_. None) (\<lambda>_. False) (\<lambda>n. of_nat (10 + n)) 100 2 ''discovery'' False ex_db = Some (Inr (d', 1))"
proof -
  have "stAuthorized ex_target" "Addr_String (V4 0xC0000201) \<noteq> []" using v4String_last by (simp_all add: ex_target_def Addr_String_def)
  then show ?thesis
    using ex_expand by (simp add: PlanScan_def Scans_SetStatus_def ex_db_def ex_scan_def Scans_Targets_def upd_def statusMove_def plan_loop.simps
        Scans_Plan_def TasksPerJob_def Let_def)
qed



end
