(* ===== verification/Core_Dispatch.thy ===== *)
theory Core_Dispatch
  imports Core_Stops Core_Planner Host_Key_Trust Scope
begin

text \<open>
  What Core puts on a scan point's stream and does with what arrives on it
  (\<open>internal/dispatch/dispatch.go\<close>, \<open>credgrant.go\<close>): the offer of work with its checks, its lease and its
  credential, the answer to a renewal, the end of a job, kills and cancellations.

  A handler is a function of the rows of the tenant. What it meets outside of them is an argument: the
  clocks of Core and of the database, the ids the database draws, the jobs locked by others, whether a
  transaction fails and whether the outbound queue has room. Log lines are not modelled.
\<close>

section \<open>Surroundings\<close>

text \<open>
  Code and data outside of the model: \<open>url.Parse\<close> and \<open>unicode.IsDigit\<close>, the JSON decoder of the
  maintenance windows, the zone database, \<open>jsonb_array_length\<close>, the collation and the text of ids in
  the database, the secret resolver if one is configured, and the host keys that were seen often enough
  at an address (\<open>SSHHostKeyFingerprintsAt\<close>).
\<close>

record coreEnv =
  ceURL :: "string \<Rightarrow> (string \<times> string) option"
  ceDigit :: "nat \<Rightarrow> bool"
  ceDecode :: "string \<Rightarrow> window list option"
  ceZone :: "string \<Rightarrow> Location option"
  ceArrayLen :: "string \<Rightarrow> nat"
  ceCollate :: "string \<Rightarrow> int"
  ceUuid :: "uuid \<Rightarrow> string"
  ceCore :: CoreEndpoints
  ceSecrets :: "(string \<Rightarrow> string option) option"
  ceObserved :: "string \<Rightarrow> string list"

datatype BackpressureState = BackpressureNone | BackpressureSoft | BackpressureHard

record session =
  ssPoint :: uuid
  ssFingerprint :: string
  ssBackpressure :: BackpressureState

section \<open>Messages\<close>

record JobAssignment =
  waJob :: uuid
  waEngine :: string
  waEpoch :: int
  waExpires :: int
  waReassignSafe :: bool
  waConstraints :: WireConstraints
  waTasks :: "(uuid \<times> string \<times> bool) list"
  waCredUser :: string
  waKnownHosts :: string

record CredentialGrant =
  cgID :: uuid
  cgJob :: uuid
  cgMaterial :: string
  cgScope :: "string list"
  cgExpires :: int

datatype wireLeaseState = LEASE_GRANTED | LEASE_LOST | LEASE_UNKNOWN_JOB

datatype leaseDetail =
    NoDetail
  | WindowHasClosed
  | ScopeUnreadable
  | TargetNotCanonical string
  | TargetNotInScope string
  | Superseded int
  | HeldByAnother
  | LeaseHasExpired
  | NoRecord

datatype wireKillScope = KILL_TENANT | KILL_ZONE | KILL_SCAN | KILL_UNSPECIFIED

datatype CoreMessage =
    MsgJob JobAssignment
  | MsgCredential CredentialGrant
  | MsgLease uuid int int wireLeaseState leaseDetail
  | MsgKill uuid wireKillScope
  | MsgCancel uuid int uuid ScanStatus int

section \<open>Refusals\<close>

datatype jobRefusal =
    NoConstraints constraintError
  | TaskNotCanonical uuid string
  | TaskIsCore uuid string
  | TaskOutOfScope uuid string scopeReason

datatype credentialRefusal =
    NoResolver
  | NoProfile
  | NoUsername uuid
  | NoPinnedLine uuid string
  | NotAnAddress uuid string
  | NoObservedKey uuid string
  | TwoObservedKeys nat uuid string
  | MalformedKey string
  | TrustRefused trustError
  | SecretUnresolved

text \<open>\<open>Jobs.Terminate\<close> where a job that is not the scan point's to end is no error.\<close>

definition endJob :: "time \<Rightarrow> uuid \<Rightarrow> uuid \<Rightarrow> StoredReason \<Rightarrow> bool \<Rightarrow> tenantDB \<Rightarrow> tenantDB" where
  "endJob now i sp r incomplete d = d\<lparr>jobs := updateRow i (Terminate now sp r incomplete) (jobs d)\<rparr>"

definition refuseJob :: "time \<Rightarrow> uuid \<Rightarrow> uuid \<Rightarrow> uuid \<Rightarrow> Policy \<Rightarrow> string \<Rightarrow> tenantDB \<Rightarrow> tenantDB" where
  "refuseJob now i sp pid p why d =
     Audit_Record \<lparr>evActor = None, evActorType = ActorSystem, evAction = ''job.scope_refused'', evResource = Some i,
         evDetail = [(''policy_id'', AID pid), (''policy'', AText (plName p)), (''reason'', AText why), (''scan_point_id'', AID sp)]\<rparr>
       (endJob now i sp TerminationScopeViolationHalt False d)"

definition credentialRefused :: "uuid \<Rightarrow> uuid \<Rightarrow> uuid \<Rightarrow> Policy \<Rightarrow> string \<Rightarrow> AuditEvent" where
  "credentialRefused i sp pid p why =
     \<lparr>evActor = None, evActorType = ActorSystem, evAction = ''job.credential_refused'', evResource = Some i,
      evDetail = [(''policy_id'', AID pid), (''policy'', AText (plName p)), (''reason'', AText why), (''scan_point_id'', AID sp)]\<rparr>"

definition refuseCredentialedJob :: "time \<Rightarrow> uuid \<Rightarrow> uuid \<Rightarrow> uuid \<Rightarrow> Policy \<Rightarrow> string \<Rightarrow> tenantDB \<Rightarrow> tenantDB \<times> AuditEvent" where
  "refuseCredentialedJob now i sp pid p why d =
     (let ev = credentialRefused i sp pid p why
      in (Audit_Record ev (endJob now i sp TerminationEngineFailure False d), ev))"

section \<open>Scope at Core\<close>

definition checkTask :: "coreEnv \<Rightarrow> WireConstraints \<Rightarrow> TaskRow \<Rightarrow> jobRefusal option" where
  "checkTask E c t =
     (case Matches (ceURL E) (ceDigit E) (taskTarget t) of (canon, canonical) \<Rightarrow>
        if canonical \<and> coreContains (ceCore E) canon then Some (TaskIsCore (taskID t) (taskTarget t))
        else if canonical
        then (case Permits canon (wcAllowed c) (wcExclusions c) of (ok, why) \<Rightarrow>
                if ok then None else Some (TaskOutOfScope (taskID t) (taskTarget t) why))
        else Some (TaskNotCanonical (taskID t) (taskTarget t)))"

fun checkTasks :: "coreEnv \<Rightarrow> WireConstraints \<Rightarrow> TaskRow list \<Rightarrow> jobRefusal option" where
  "checkTasks E c [] = None"
| "checkTasks E c (t # ts) = (case checkTask E c t of None \<Rightarrow> checkTasks E c ts | Some r \<Rightarrow> Some r)"

section \<open>Credentials\<close>

definition CredentialGrantTTL :: duration where "CredentialGrantTTL = 10 * 60 * 1000000000"

definition SSHForJob :: "uuid \<Rightarrow> tenantDB \<Rightarrow> SSHProfile option" where
  "SSHForJob i d =
     Option.bind (map_of (jobs d) i) (\<lambda>j. Option.bind (map_of (scans d) (ScanID j)) (\<lambda>s. map_of (sshProfiles d) (scPolicy s)))"

definition fingerprintShape :: "string \<Rightarrow> bool" where
  "fingerprintShape v \<longleftrightarrow>
     HasPrefix v ''SHA256:'' \<and> 20 \<le> length (drop 7 v) \<and> length (drop 7 v) \<le> 100
     \<and> list_all (\<lambda>c. isDigit c \<or> CHR ''A'' \<le> c \<and> c \<le> CHR ''Z'' \<or> CHR ''a'' \<le> c \<and> c \<le> CHR ''z'' \<or> c \<in> set ''+/='') (drop 7 v)"

fun pinned_loop :: "string \<Rightarrow> TaskRow list \<Rightarrow> string \<Rightarrow> credentialRefusal + string" where
  "pinned_loop known [] b = Inr b"
| "pinned_loop known (t # ts) b =
     (let covered = LinesCovering known (taskTarget t)
      in if covered = [] then Inl (NoPinnedLine (taskID t) (taskTarget t))
         else pinned_loop known ts (b @ concat (map (\<lambda>line. line @ [newline]) covered)))"

fun observed_loop :: "(string \<Rightarrow> string list) \<Rightarrow> TaskRow list \<Rightarrow> string \<Rightarrow> credentialRefusal + string" where
  "observed_loop keys [] b = Inr b"
| "observed_loop keys (t # ts) b =
     (case ParseAddr (taskTarget t) of
        None \<Rightarrow> Inl (NotAnAddress (taskID t) (taskTarget t))
      | Some a \<Rightarrow>
          (case keys (Addr_String a) of
             [] \<Rightarrow> Inl (NoObservedKey (taskID t) (taskTarget t))
           | [fp] \<Rightarrow>
               if \<not> fingerprintShape fp then Inl (MalformedKey (taskTarget t))
               else observed_loop keys ts (b @ Addr_String a @ '' '' @ fp @ [newline])
           | fps \<Rightarrow> Inl (TwoObservedKeys (length fps) (taskID t) (taskTarget t))))"

definition trustMaterial :: "coreEnv \<Rightarrow> SSHProfile \<Rightarrow> TaskRow list \<Rightarrow> credentialRefusal + (Source \<times> string)" where
  "trustMaterial E pr ts =
     (if TrimSpace (prKnownHosts pr) \<noteq> []
      then map_sum id (Pair SourceOperator) (pinned_loop (prKnownHosts pr) ts [])
      else map_sum id (Pair SourceObserved) (observed_loop (ceObserved E) ts []))"

definition Grants_Issue :: "uuid \<Rightarrow> time \<Rightarrow> uuid \<Rightarrow> uuid \<Rightarrow> string list \<Rightarrow> string \<Rightarrow> duration \<Rightarrow> tenantDB \<Rightarrow> storeError + (tenantDB \<times> time)" where
  "Grants_Issue g now profile job scope fp ttl d =
     (if fp = [] then Inl ErrNoFingerprint
      else if ttl \<le> 0 then Inl ErrNoTTL
      else Inr (d\<lparr>grants := grants d @ [(g,
             \<lparr>grProfile = profile, grJob = job, grScope = scope, grFingerprint = fp, grIssuedAt = now, grExpiresAt = now + ttl,
              grDeliveredAt = None, grZeroisedAt = None\<rparr>)]\<rparr>, now + ttl))"

definition Grants_MarkDelivered :: "uuid \<Rightarrow> time \<Rightarrow> tenantDB \<Rightarrow> tenantDB" where
  "Grants_MarkDelivered g at1 d =
     d\<lparr>grants := upd g (\<lambda>r. if grDeliveredAt r = None then r\<lparr>grDeliveredAt := Some at1\<rparr> else r) (grants d)\<rparr>"

definition Grants_Undelivered :: "nat \<Rightarrow> tenantDB \<Rightarrow> uuid list" where
  "Grants_Undelivered limit d =
     take limit (map fst (rev (sort_key (\<lambda>(i, r). grIssuedAt r) (filter (\<lambda>(i, r). grDeliveredAt r = None) (grants d)))))"

definition Grants_MarkZeroised :: "uuid \<Rightarrow> string \<Rightarrow> time \<Rightarrow> tenantDB \<Rightarrow> storeError + tenantDB" where
  "Grants_MarkZeroised job fp at1 d =
     (if fp = [] then Inl ErrNoFingerprint
      else Inr (d\<lparr>grants := map (\<lambda>(i, r). (i, if grJob r = job \<and> grFingerprint r = fp \<and> grZeroisedAt r = None
             then r\<lparr>grZeroisedAt := Some at1\<rparr> else r)) (grants d)\<rparr>))"

definition unconfirmedLimit :: "int \<Rightarrow> nat" where
  "unconfirmedLimit limit = (if limit \<le> 0 \<or> limit > 1000 then 100 else nat limit)"

definition Grants_Unconfirmed :: "time \<Rightarrow> int \<Rightarrow> tenantDB \<Rightarrow> uuid list" where
  "Grants_Unconfirmed now limit d =
     take (unconfirmedLimit limit) (map fst (rev (sort_key (\<lambda>(i, r). grExpiresAt r)
       (filter (\<lambda>(i, r). grZeroisedAt r = None \<and> grExpiresAt r < now) (grants d)))))"

datatype discardReason = DiscardQueueFullAssignment | DiscardQueueFullGrant | DiscardPassRolledBack | DiscardStreamEnded

record pendingGrant =
  pgJob :: uuid
  pgGrant :: CredentialGrant
  pgQueued :: bool
  pgUndelivered :: "discardReason option"

definition discard :: "discardReason \<Rightarrow> pendingGrant \<Rightarrow> pendingGrant" where
  "discard why p = p\<lparr>pgGrant := (pgGrant p)\<lparr>cgMaterial := []\<rparr>, pgUndelivered := Some why\<rparr>"

definition eraseGrantMaterial :: "CoreMessage \<Rightarrow> CoreMessage" where
  "eraseGrantMaterial m = (case m of MsgCredential g \<Rightarrow> MsgCredential (g\<lparr>cgMaterial := []\<rparr>) | _ \<Rightarrow> m)"

datatype credentialError = Refused credentialRefusal | CredentialStore storeError

definition credentialedAssignment :: "coreEnv \<Rightarrow> session \<Rightarrow> time \<Rightarrow> uuid \<Rightarrow> uuid \<Rightarrow> uuid \<Rightarrow> TaskRow list \<Rightarrow> JobAssignment \<Rightarrow> tenantDB \<Rightarrow>
    credentialError + (tenantDB \<times> pendingGrant \<times> JobAssignment)" where
  "credentialedAssignment E ss now g i scan ts wire d =
     (case ceSecrets E of
        None \<Rightarrow> Inl (Refused NoResolver)
      | Some resolve \<Rightarrow>
          (case SSHForJob i d of
             None \<Rightarrow> Inl (Refused NoProfile)
           | Some pr \<Rightarrow>
               if prUser pr = [] then Inl (Refused (NoUsername (prID pr)))
               else case trustMaterial E pr ts of
                      Inl r \<Rightarrow> Inl (Refused r)
                    | Inr (src, material) \<Rightarrow>
                        (case Compose src material of
                           Inl e \<Rightarrow> Inl (Refused (TrustRefused e))
                         | Inr known \<Rightarrow>
                             (case resolve (prSecretRef pr) of
                                None \<Rightarrow> Inl (Refused SecretUnresolved)
                              | Some secret \<Rightarrow>
                                  let scope = map taskTarget ts
                                  in case Grants_Issue g now (prID pr) i scope (ssFingerprint ss) CredentialGrantTTL d of
                                       Inl e \<Rightarrow> Inl (CredentialStore e)
                                     | Inr (d', expires) \<Rightarrow>
                                         Inr (Audit_Record
                                                \<lparr>evActor = None, evActorType = ActorSystem, evAction = ''credential.issued'', evResource = Some i,
                                                 evDetail = [(''grant_id'', AID g), (''credential_profile_id'', AID (prID pr)),
                                                   (''cred_kind'', AText ''raw_secret''), (''cred_user'', AText (prUser pr)),
                                                   (''trust_source'', AText src), (''targets'', ANum (int (length scope))),
                                                   (''scan_point_id'', AID (ssPoint ss)), (''scan_id'', AID scan),
                                                   (''expires_at'', ANum expires)]\<rparr> d',
                                              \<lparr>pgJob = i,
                                               pgGrant = \<lparr>cgID = g, cgJob = i, cgMaterial = secret, cgScope = scope, cgExpires = unixSec expires\<rparr>,
                                               pgQueued = False, pgUndelivered = None\<rparr>,
                                              wire\<lparr>waCredUser := prUser pr, waKnownHosts := known\<rparr>)))))"

section \<open>The offer of work\<close>

definition maxJobsPerPoll :: int where "maxJobsPerPoll = 5"

definition sendQueue :: nat where "sendQueue = 64"

fun closed_loop :: "coreEnv \<Rightarrow> time \<Rightarrow> (uuid \<times> string) list \<Rightarrow> uuid list" where
  "closed_loop E now [] = []"
| "closed_loop E now ((p, w) # ps) =
     (case parseWindows (ceDecode E) (ceZone E) w of
        Inl _ \<Rightarrow> closed_loop E now ps
      | Inr ws \<Rightarrow> if \<not> snd (windowEnd ws now) then p # closed_loop E now ps else closed_loop E now ps)"

definition windowClosedPolicies :: "coreEnv \<Rightarrow> time \<Rightarrow> tenantDB \<Rightarrow> storeError + uuid list" where
  "windowClosedPolicies E now d = map_sum id (closed_loop E now) (WithTimeWindows (ceArrayLen E) d)"

text \<open>
  A pass: the clocks of Core and of the database, the rows others have locked, the id of the grant of a
  job, the text of a refusal, whether the database fails at a job, at the end of the transaction or in one
  of the later ones, and whether the queue has room at each attempt to send.
\<close>

record offerPass =
  opNow :: time
  opDBNow :: time
  opLocked :: "uuid \<Rightarrow> bool"
  opGrantID :: "uuid \<Rightarrow> uuid"
  opText :: "jobRefusal \<Rightarrow> string"
  opCredText :: "credentialRefusal \<Rightarrow> string"
  opJobFails :: "uuid \<Rightarrow> bool"
  opFails :: bool
  opReplayFails :: bool
  opRecordFails :: bool
  opRoom :: "nat \<Rightarrow> bool"

text \<open>What the pass has gathered: the rows, the assignments with their grants, the refusals to replay.\<close>

record offerState =
  osDB :: tenantDB
  osOffers :: "(JobAssignment \<times> pendingGrant option) list"
  osRefusals :: "AuditEvent list"

definition wireFor :: "uuid \<Rightarrow> Job \<Rightarrow> Lease \<Rightarrow> WireConstraints \<Rightarrow> TaskRow list \<Rightarrow> JobAssignment" where
  "wireFor i j l c ts =
     \<lparr>waJob = i, waEngine = Engine j, waEpoch = Epoch l, waExpires = unixSec (ExpiresAt l), waReassignSafe = ReassignSafe j,
      waConstraints = c, waTasks = map (\<lambda>t. (taskID t, taskTarget t, taskFragile t)) ts, waCredUser = [], waKnownHosts = []\<rparr>"

definition auditIntrusive :: "uuid \<Rightarrow> Job \<Rightarrow> uuid \<Rightarrow> uuid \<Rightarrow> Policy \<Rightarrow> PolicySafety \<Rightarrow> WireConstraints \<Rightarrow> tenantDB \<Rightarrow> tenantDB" where
  "auditIntrusive i j sp pid p m c d =
     (if ScSafetyMode c = ''intrusive''
      then Audit_Record \<lparr>evActor = None, evActorType = ActorSystem, evAction = ''job.intrusive_dispatched'', evResource = Some i,
             evDetail = [(''policy_id'', AID pid), (''policy'', AText (plName p)), (''policy_safety_mode'', AMode (plSafety p)),
               (''scan_safety_mode'', AMode m), (''scan_point_id'', AID sp), (''scan_id'', AID (ScanID j))]\<rparr> d
      else d)"

text \<open>An assignment whose targets are in scope: credentialed, if its engine is.\<close>

definition assign :: "coreEnv \<Rightarrow> session \<Rightarrow> offerPass \<Rightarrow> uuid \<Rightarrow> Job \<Rightarrow> Lease \<Rightarrow> uuid \<Rightarrow> Policy \<Rightarrow> TaskRow list \<Rightarrow> WireConstraints \<Rightarrow> tenantDB \<Rightarrow>
    offerState \<Rightarrow> storeError + offerState" where
  "assign E ss op i j l pid p ts c d st =
     (let wire = wireFor i j l c ts
      in if Engine j = ''host''
         then case credentialedAssignment E ss (opDBNow op) (opGrantID op i) i (ScanID j) ts wire d of
                Inl (Refused r) \<Rightarrow>
                  (case refuseCredentialedJob (opDBNow op) i (ssPoint ss) pid p (opCredText op r) d of (d', ev) \<Rightarrow>
                     Inr (st\<lparr>osDB := d', osRefusals := osRefusals st @ [ev]\<rparr>))
              | Inl (CredentialStore e) \<Rightarrow> Inl e
              | Inr (d', g, wire') \<Rightarrow> Inr (st\<lparr>osDB := d', osOffers := osOffers st @ [(wire', Some g)]\<rparr>)
         else Inr (st\<lparr>osDB := d, osOffers := osOffers st @ [(wire, None)]\<rparr>))"

definition offer_one :: "coreEnv \<Rightarrow> session \<Rightarrow> offerPass \<Rightarrow> uuid \<Rightarrow> offerState \<Rightarrow> storeError + offerState" where
  "offer_one E ss op i st =
     (case map_of (jobs (osDB st)) i of
        None \<Rightarrow> Inl ErrNotFound
      | Some j \<Rightarrow>
          (case Grant (opDBNow op) (ssPoint ss) LeaseTTL j of (j', l) \<Rightarrow>
             let d = (osDB st)\<lparr>jobs := updateRow i (\<lambda>_. Some j') (jobs (osDB st))\<rparr>
             in case Jobs_Tasks i d of
                  Inl e \<Rightarrow> Inl e
                | Inr ts \<Rightarrow>
                    (case ForJob i d of
                       None \<Rightarrow> Inl ErrNotFound
                     | Some (pid, p, m) \<Rightarrow>
                         (case ScopeRules (ceCollate E) pid d of
                            Inl e \<Rightarrow> Inl e
                          | Inr rules \<Rightarrow>
                              (case constraintsFor (ceDecode E) (ceZone E) (Some (jobPolicy p m)) rules (opNow op) of
                                 Inl ce \<Rightarrow>
                                   Inr (st\<lparr>osDB := refuseJob (opDBNow op) i (ssPoint ss) pid p (opText op (NoConstraints ce)) d\<rparr>)
                               | Inr c \<Rightarrow>
                                   (case checkTasks E c ts of
                                      Some r \<Rightarrow> Inr (st\<lparr>osDB := refuseJob (opDBNow op) i (ssPoint ss) pid p (opText op r) d\<rparr>)
                                    | None \<Rightarrow> assign E ss op i j l pid p ts c (auditIntrusive i j (ssPoint ss) pid p m c d) st))))))"

text \<open>What has been gathered when the loop ends, and the error it ended with, if any.\<close>

fun offer_loop :: "coreEnv \<Rightarrow> session \<Rightarrow> offerPass \<Rightarrow> uuid list \<Rightarrow> offerState \<Rightarrow> offerState \<times> storeError option" where
  "offer_loop E ss op [] st = (st, None)"
| "offer_loop E ss op (i # is) st =
     (if opJobFails op i then (st, Some ErrOther)
      else case offer_one E ss op i st of Inl e \<Rightarrow> (st, Some e) | Inr st' \<Rightarrow> offer_loop E ss op is st')"

definition enabledEngines :: "uuid \<Rightarrow> tenantDB \<Rightarrow> string list" where
  "enabledEngines sp d = map cpEngine (filter cpEnabled (Points_Capabilities sp d))"

definition offer_txn :: "coreEnv \<Rightarrow> session \<Rightarrow> offerPass \<Rightarrow> int \<Rightarrow> tenantDB \<Rightarrow> offerState \<times> storeError option" where
  "offer_txn E ss op limit d =
     (let st = \<lparr>osDB = d, osOffers = [], osRefusals = []\<rparr>; engines = enabledEngines (ssPoint ss) d
      in if engines = [] then (st, None)
         else case windowClosedPolicies E (opNow op) d of
                Inl e \<Rightarrow> (st, Some e)
              | Inr shut \<Rightarrow>
                  (case Claim (claimDB (ceUuid E) d) (opLocked op) (ssPoint ss) engines limit shut (jobs d) of (ids, rs) \<Rightarrow>
                     offer_loop E ss op ids (st\<lparr>osDB := d\<lparr>jobs := rs\<rparr>\<rparr>)))"

text \<open>
  The send pass: the assignment first and its grant behind it, each only if the queue has room at that
  attempt. The messages that were queued, and every grant with what became of it.
\<close>

fun send_offers :: "(nat \<Rightarrow> bool) \<Rightarrow> nat \<Rightarrow> (JobAssignment \<times> pendingGrant option) list \<Rightarrow> CoreMessage list \<times> pendingGrant list" where
  "send_offers room n [] = ([], [])"
| "send_offers room n ((a, None) # os) =
     (case send_offers room (Suc n) os of (ms, gs) \<Rightarrow> (if room n then MsgJob a # ms else ms, gs))"
| "send_offers room n ((a, Some g) # os) =
     (if \<not> room n then
        (case send_offers room (Suc n) os of (ms, gs) \<Rightarrow> (ms, discard DiscardQueueFullAssignment g # gs))
      else if \<not> room (Suc n) then
        (case send_offers room (Suc (Suc n)) os of (ms, gs) \<Rightarrow> (MsgJob a # ms, discard DiscardQueueFullGrant g # gs))
      else
        (case send_offers room (Suc (Suc n)) os of (ms, gs) \<Rightarrow> (MsgJob a # MsgCredential (pgGrant g) # ms, g\<lparr>pgQueued := True\<rparr> # gs)))"

definition discardText :: "discardReason option \<Rightarrow> string" where
  "discardText r =
     (case r of
        None \<Rightarrow> ''undelivered, reason not recorded''
      | Some DiscardQueueFullAssignment \<Rightarrow> ''outbound queue full before the assignment''
      | Some DiscardQueueFullGrant \<Rightarrow> ''outbound queue full after the assignment, before the grant''
      | Some DiscardPassRolledBack \<Rightarrow> ''the dispatch transaction rolled back''
      | Some DiscardStreamEnded \<Rightarrow> ''the stream ended before the grant was dequeued'')"

definition record_grant :: "uuid \<Rightarrow> time \<Rightarrow> pendingGrant \<Rightarrow> tenantDB \<Rightarrow> tenantDB" where
  "record_grant sp now g d =
     (let gid = cgID (pgGrant g)
      in if pgQueued g
         then Audit_Record \<lparr>evActor = None, evActorType = ActorSystem, evAction = ''credential.delivered'', evResource = Some (pgJob g),
                evDetail = [(''grant_id'', AID gid), (''scan_point_id'', AID sp)]\<rparr> (Grants_MarkDelivered gid now d)
         else Audit_Record \<lparr>evActor = None, evActorType = ActorSystem, evAction = ''credential.undelivered'', evResource = Some (pgJob g),
                evDetail = [(''grant_id'', AID gid), (''scan_point_id'', AID sp), (''reason'', AText (discardText (pgUndelivered g)))]\<rparr> d)"

definition recordGrantDelivery :: "uuid \<Rightarrow> time \<Rightarrow> pendingGrant list \<Rightarrow> tenantDB \<Rightarrow> tenantDB" where
  "recordGrantDelivery sp now gs d = fold (record_grant sp now) gs d"

text \<open>
  The rows afterwards, the messages that were queued, and every grant. The refusals of a pass that failed
  are written by a transaction of their own, and its grants are erased.
\<close>

definition offerWork :: "coreEnv \<Rightarrow> session \<Rightarrow> offerPass \<Rightarrow> int \<Rightarrow> tenantDB \<Rightarrow> tenantDB \<times> CoreMessage list \<times> pendingGrant list" where
  "offerWork E ss op limit d =
     (case offer_txn E ss op limit d of (st, err) \<Rightarrow>
        if err = None \<and> \<not> opFails op
        then case send_offers (opRoom op) 0 (osOffers st) of (ms, gs) \<Rightarrow>
               (if gs = [] \<or> opRecordFails op then osDB st else recordGrantDelivery (ssPoint ss) (opNow op) gs (osDB st), ms, gs)
        else (if opReplayFails op then d else fold Audit_Record (osRefusals st) d, [],
              map (discard DiscardStreamEnded) (List.map_filter snd (osOffers st))))"

definition offerLimit :: "BackpressureState \<Rightarrow> int option" where
  "offerLimit b = (case b of BackpressureHard \<Rightarrow> None | BackpressureSoft \<Rightarrow> Some 1 | BackpressureNone \<Rightarrow> Some maxJobsPerPoll)"

end
