(* ===== verification/Core_Handlers.thy ===== *)
theory Core_Handlers
  imports Core_Dispatch
begin

text \<open>
  The other handlers of a scan point's stream (\<open>internal/dispatch/dispatch.go\<close>): handshake, renewal,
  progress, the end of a job, acknowledgements, kills and cancellations on the urgent channel, the order
  in which the two channels are sent; and the pass of the sweeper over one tenant (\<open>sweeper.go\<close>).
\<close>

section \<open>Bounds on what arrives\<close>

definition clampCount :: "uint32 \<Rightarrow> int" where
  "clampCount n = (if uint n > 2 ^ 31 - 1 then 2 ^ 31 - 1 else uint n)"

definition clampText :: "string \<Rightarrow> string" where
  "clampText s = (if length s \<le> 256 then s else take 256 s)"

definition MaxTerminalDetail :: nat where "MaxTerminalDetail = 1024"

text \<open>The ellipsis is three bytes.\<close>

definition truncateText :: "string \<Rightarrow> nat \<Rightarrow> string" where
  "truncateText s n = (if length s \<le> n then s else take n s @ map char_of [226, 128, 166 :: nat])"

datatype wireReason =
    W_COMPLETED | W_LEASE_LOST | W_CANCELLED | W_KILLED | W_ENGINE_FAILURE | W_WINDOW_EXPIRED | W_SCOPE_VIOLATION_HALT | W_OTHER

definition terminationReason :: "wireReason \<Rightarrow> StoredReason" where
  "terminationReason r =
     (case r of
        W_COMPLETED \<Rightarrow> TerminationCompleted
      | W_LEASE_LOST \<Rightarrow> TerminationLeaseLost
      | W_CANCELLED \<Rightarrow> TerminationCancelled
      | W_KILLED \<Rightarrow> TerminationKilled
      | W_ENGINE_FAILURE \<Rightarrow> TerminationEngineFailure
      | W_WINDOW_EXPIRED \<Rightarrow> TerminationWindowExpired
      | W_SCOPE_VIOLATION_HALT \<Rightarrow> TerminationScopeViolationHalt
      | W_OTHER \<Rightarrow> TerminationLeaseLost)"

section \<open>Handshake and heartbeat\<close>

datatype handshakeError = VersionUnsupported | IdentityMismatch | HandshakeFailed

fun declare_loop :: "uuid \<Rightarrow> (string \<times> string \<times> bool) list \<Rightarrow> tenantDB \<Rightarrow> tenantDB" where
  "declare_loop sp [] d = d"
| "declare_loop sp ((engine, version, enabled) # cs) d =
     declare_loop sp cs (if ValidEngine engine then DeclareCapability sp engine (clampText version) enabled d else d)"

text \<open>The id that the message echoes is text, empty or the id of the certificate's scan point.\<close>

definition handshake :: "coreEnv \<Rightarrow> (string \<Rightarrow> bool) \<Rightarrow> time \<Rightarrow> string \<Rightarrow> string \<Rightarrow> string \<Rightarrow> (string \<times> string \<times> bool) list \<Rightarrow> tenantDB \<Rightarrow>
    handshakeError + (tenantDB \<times> session)" where
  "handshake E supported now fp version claimedID caps d =
     (if \<not> supported version then Inl VersionUnsupported
      else case GetByFingerprint fp d of
             None \<Rightarrow> Inl HandshakeFailed
           | Some (sp, p) \<Rightarrow>
               if claimedID \<noteq> [] \<and> claimedID \<noteq> ceUuid E sp then Inl IdentityMismatch
               else case Points_Heartbeat sp now (declare_loop sp caps d) of
                      None \<Rightarrow> Inl HandshakeFailed
                    | Some d' \<Rightarrow> Inr (d', \<lparr>ssPoint = sp, ssFingerprint = fp, ssBackpressure = BackpressureNone\<rparr>))"

definition onHeartbeat :: "session \<Rightarrow> time \<Rightarrow> tenantDB \<Rightarrow> tenantDB" where
  "onHeartbeat ss now d = (case Points_Heartbeat (ssPoint ss) now d of None \<Rightarrow> d | Some d' \<Rightarrow> d')"

definition onBackpressure :: "BackpressureState \<Rightarrow> session \<Rightarrow> session" where
  "onBackpressure b ss = ss\<lparr>ssBackpressure := b\<rparr>"

text \<open>A session without a scan point has nothing to mark.\<close>

definition markOffline :: "session \<Rightarrow> tenantDB \<Rightarrow> tenantDB" where
  "markOffline ss d = (if ssPoint ss = 0 then d else case Points_SetStatus (ssPoint ss) ScanPointOffline d of None \<Rightarrow> d | Some d' \<Rightarrow> d')"

definition onProgress :: "session \<Rightarrow> uuid \<Rightarrow> tenantDB \<Rightarrow> tenantDB" where
  "onProgress ss i d = d\<lparr>jobs := Core_Leases.onProgress i (ssPoint ss) (jobs d)\<rparr>"

definition onKillAck :: "session \<Rightarrow> time \<Rightarrow> uuid \<Rightarrow> uint32 \<Rightarrow> tenantDB \<Rightarrow> tenantDB" where
  "onKillAck ss now k halted d = (case Kill_Ack now k (ssPoint ss) (clampCount halted) d of Inl _ \<Rightarrow> d | Inr d' \<Rightarrow> d')"

definition onCancelAck :: "session \<Rightarrow> time \<Rightarrow> uuid \<Rightarrow> int \<Rightarrow> uint32 \<Rightarrow> tenantDB \<Rightarrow> tenantDB" where
  "onCancelAck ss now i e halted d = (case CancelAcks_Record now i (ssPoint ss) e (clampCount halted) d of Inl _ \<Rightarrow> d | Inr d' \<Rightarrow> d')"

section \<open>Renewal\<close>

text \<open>The errors of the four reads and writes of one renewal, if they fail.\<close>

record renewPass =
  rnNow :: time
  rnDBNow :: time
  rnPolicyError :: "storeError option"
  rnScopeError :: "storeError option"
  rnRenewError :: "storeError option"
  rnCurrentFails :: bool

definition windowClosedForJob :: "coreEnv \<Rightarrow> renewPass \<Rightarrow> uuid \<Rightarrow> tenantDB \<Rightarrow> bool" where
  "windowClosedForJob E rn i d =
     (case rnPolicyError rn of
        Some _ \<Rightarrow> False
      | None \<Rightarrow>
          (case ForJob i d of
             None \<Rightarrow> False
           | Some (pid, p, m) \<Rightarrow>
               if plWindows p = [] then False
               else case parseWindows (ceDecode E) (ceZone E) (plWindows p) of
                      Inl _ \<Rightarrow> False
                    | Inr ws \<Rightarrow> \<not> snd (windowEnd ws (rnNow rn))))"

text \<open>The live rules and the targets of a job; \<open>None\<close> for rules that cannot travel.\<close>

definition liveScope :: "coreEnv \<Rightarrow> renewPass \<Rightarrow> uuid \<Rightarrow> tenantDB \<Rightarrow> storeError + (string list \<times> string list \<times> string list) option" where
  "liveScope E rn i d =
     (case rnScopeError rn of
        Some e \<Rightarrow> Inl e
      | None \<Rightarrow>
          (case ForJob i d of
             None \<Rightarrow> Inl ErrNotFound
           | Some (pid, p, m) \<Rightarrow>
               (case ScopeRules (ceCollate E) pid d of
                  Inl e \<Rightarrow> Inl e
                | Inr rules \<Rightarrow>
                    (case scopePlan rules of
                       Inl _ \<Rightarrow> Inr None
                     | Inr (al, ex) \<Rightarrow>
                         (case Jobs_Tasks i d of
                            Inl e \<Rightarrow> Inl e
                          | Inr ts \<Rightarrow> Inr (Some (al, ex, map taskTarget ts)))))))"

fun narrowed_loop :: "coreEnv \<Rightarrow> string list \<Rightarrow> string list \<Rightarrow> string list \<Rightarrow> leaseDetail option" where
  "narrowed_loop E al ex [] = None"
| "narrowed_loop E al ex (raw # ts) =
     (case Matches (ceURL E) (ceDigit E) raw of (canon, canonical) \<Rightarrow>
        if \<not> canonical then Some (TargetNotCanonical raw)
        else if \<not> fst (Permits canon al ex) then Some (TargetNotInScope raw)
        else narrowed_loop E al ex ts)"

definition scopeNarrowedForJob :: "coreEnv \<Rightarrow> renewPass \<Rightarrow> uuid \<Rightarrow> tenantDB \<Rightarrow> leaseDetail option" where
  "scopeNarrowedForJob E rn i d =
     (case liveScope E rn i d of
        Inl e \<Rightarrow> if e = ErrStatementTimeout \<or> e = ErrPoolExhausted then Some ScopeUnreadable else None
      | Inr None \<Rightarrow> None
      | Inr (Some (al, ex, ts)) \<Rightarrow> narrowed_loop E al ex ts)"

definition onLeaseRenewal :: "coreEnv \<Rightarrow> session \<Rightarrow> renewPass \<Rightarrow> uuid \<Rightarrow> int \<Rightarrow> tenantDB \<Rightarrow> tenantDB \<times> CoreMessage option" where
  "onLeaseRenewal E ss rn i e d =
     (if windowClosedForJob E rn i d then (d, Some (MsgLease i e 0 LEASE_LOST WindowHasClosed))
      else case scopeNarrowedForJob E rn i d of
             Some why \<Rightarrow> (d, Some (MsgLease i e 0 LEASE_LOST why))
           | None \<Rightarrow>
               (case rnRenewError rn of
                  Some _ \<Rightarrow> (d, None)
                | None \<Rightarrow>
                    (case Option.bind (map_of (jobs d) i) (Renew (rnDBNow rn) e (ssPoint ss) LeaseTTL) of
                       Some (j', l) \<Rightarrow>
                         (d\<lparr>jobs := updateRow i (\<lambda>_. Some j') (jobs d)\<rparr>,
                          Some (MsgLease i (Epoch l) (unixSec (ExpiresAt l)) LEASE_GRANTED NoDetail))
                     | None \<Rightarrow>
                         (d, Some (case (if rnCurrentFails rn then None else Option.bind (map_of (jobs d) i) Current) of
                            None \<Rightarrow> MsgLease i e 0 LEASE_UNKNOWN_JOB NoRecord
                          | Some cur \<Rightarrow> MsgLease i e 0 LEASE_LOST
                              (if Epoch cur > e then Superseded (Epoch cur)
                               else if HolderID cur \<noteq> ssPoint ss then HeldByAnother
                               else LeaseHasExpired))))))"

section \<open>The end of a job\<close>

definition settleScanOf :: "time \<Rightarrow> uuid \<Rightarrow> tenantDB \<Rightarrow> tenantDB" where
  "settleScanOf now i d = (case map_of (jobs d) i of None \<Rightarrow> d | Some j \<Rightarrow> fst (SettleIfDone now (ScanID j) d))"

text \<open>A failure of the transaction, or of the attestation without a fingerprint, leaves the rows as they were.\<close>

definition onTerminal :: "session \<Rightarrow> time \<Rightarrow> time \<Rightarrow> bool \<Rightarrow> uuid \<Rightarrow> int \<Rightarrow> wireReason \<Rightarrow> bool \<Rightarrow> string \<Rightarrow> bool \<Rightarrow> tenantDB \<Rightarrow> tenantDB" where
  "onTerminal ss now dbNow fails i e r incomplete detail zeroised d =
     (let sp = ssPoint ss;
          st = terminationReason r;
          d1 = endJob dbNow i sp st incomplete d;
          d2 = settleScanOf dbNow i d1;
          d3 = d2\<lparr>jobs := updateRow i (Core_Leases.Release e sp LeaseReleased) (jobs d2)\<rparr>;
          d4 = (if st \<noteq> TerminationCompleted
                then Audit_Record \<lparr>evActor = Some sp, evActorType = ActorScanPoint, evAction = ''job.terminated'', evResource = Some i,
                       evDetail = (''reason'', AStatus st) # (if detail \<noteq> [] then [(''detail'', AText (truncateText detail MaxTerminalDetail))] else [])\<rparr> d3
                else d3)
      in if fails then d
         else if zeroised
         then (case Grants_MarkZeroised i (ssFingerprint ss) now d4 of Inl _ \<Rightarrow> d | Inr d5 \<Rightarrow> d5)
         else Audit_Record \<lparr>evActor = Some sp, evActorType = ActorScanPoint, evAction = ''scan_point.credentials_not_attested'', evResource = Some i,
                evDetail = [(''reason'', AStatus st),
                  (''note'', AText ''JobTerminal arrived without credentials_zeroised; ADR-020 requires zeroisation on every terminal path'')]\<rparr> d4)"

section \<open>Kills and cancellations\<close>

definition killScope :: "KillScope \<Rightarrow> wireKillScope" where
  "killScope k = (case k of KillTenant \<Rightarrow> KILL_TENANT | KillZone _ \<Rightarrow> KILL_ZONE | KillScan _ \<Rightarrow> KILL_SCAN | KillOther \<Rightarrow> KILL_UNSPECIFIED)"

definition cancelGraceMs :: int where "cancelGraceMs = 5000"

text \<open>
  The loops over what is owed: a message is marked as sent only when the queue took it. \<open>room\<close> says
  whether it does at each attempt, \<open>fails\<close> whether the read of what is owed fails.
\<close>

fun kill_loop :: "(nat \<Rightarrow> bool) \<Rightarrow> nat \<Rightarrow> (uuid \<times> KillSwitch) list \<Rightarrow> uuid list \<Rightarrow> CoreMessage list \<times> uuid list" where
  "kill_loop room n [] sent1 = ([], sent1)"
| "kill_loop room n ((i, k) # ks) sent1 =
     (if i \<in> set sent1 then kill_loop room n ks sent1
      else if room n
      then (case kill_loop room (Suc n) ks (i # sent1) of (ms, s) \<Rightarrow> (MsgKill i (killScope (kScope k)) # ms, s))
      else kill_loop room (Suc n) ks sent1)"

definition propagateKills :: "session \<Rightarrow> time \<Rightarrow> bool \<Rightarrow> (nat \<Rightarrow> bool) \<Rightarrow> uuid list \<Rightarrow> tenantDB \<Rightarrow> CoreMessage list \<times> uuid list" where
  "propagateKills ss now fails room sent1 d =
     (if fails then ([], sent1) else kill_loop room 0 (LiveFor now (ssPoint ss) d) sent1)"

fun cancel_loop :: "(nat \<Rightarrow> bool) \<Rightarrow> nat \<Rightarrow> (uuid \<times> int \<times> uuid \<times> ScanStatus) list \<Rightarrow> uuid list \<Rightarrow> CoreMessage list \<times> uuid list" where
  "cancel_loop room n [] sent1 = ([], sent1)"
| "cancel_loop room n ((i, e, scan, st) # js) sent1 =
     (if i \<in> set sent1 then cancel_loop room n js sent1
      else if room n
      then (case cancel_loop room (Suc n) js (i # sent1) of (ms, s) \<Rightarrow> (MsgCancel i e scan st cancelGraceMs # ms, s))
      else cancel_loop room (Suc n) js sent1)"

definition propagateCancellations :: "session \<Rightarrow> time \<Rightarrow> bool \<Rightarrow> (nat \<Rightarrow> bool) \<Rightarrow> uuid list \<Rightarrow> tenantDB \<Rightarrow> CoreMessage list \<times> uuid list" where
  "propagateCancellations ss now fails room sent1 d =
     (if fails then ([], sent1) else cancel_loop room 0 (CancellableFor now (ssPoint ss) d) sent1)"

text \<open>One tick of the pump: what it puts on the urgent and on the ordinary channel, in that order.\<close>

definition pump_tick :: "coreEnv \<Rightarrow> session \<Rightarrow> offerPass \<Rightarrow> bool \<Rightarrow> bool \<Rightarrow> (nat \<Rightarrow> bool) \<Rightarrow> (nat \<Rightarrow> bool) \<Rightarrow> uuid list \<Rightarrow> uuid list \<Rightarrow> tenantDB \<Rightarrow>
    CoreMessage list \<times> CoreMessage list \<times> uuid list \<times> uuid list \<times> tenantDB" where
  "pump_tick E ss op fails1 fails2 room1 room2 sentKills sentCancels d =
     (case propagateKills ss (opDBNow op) fails1 room1 sentKills d of (ks, sk) \<Rightarrow>
      case propagateCancellations ss (opDBNow op) fails2 room2 sentCancels d of (cs, sc) \<Rightarrow>
      case offerLimit (ssBackpressure ss) of
        None \<Rightarrow> (ks @ cs, [], sk, sc, d)
      | Some limit \<Rightarrow> (case offerWork E ss op limit d of (d', ms, gs) \<Rightarrow> (ks @ cs, ms, sk, sc, d')))"

section \<open>The send loop\<close>

text \<open>
  The two channels and where the loop stands: at its top, where it drains the urgent channel, or waiting
  on both. While it waits it may take from either. Erased messages are what remains of a grant.
\<close>

datatype sendAt = LoopTop | Waiting | LoopEnded

record sendState =
  urgentQ :: "CoreMessage list"
  outQueue :: "CoreMessage list"
  sendPC :: sendAt
  onWire :: "CoreMessage list"
  remains :: "CoreMessage list"

definition sendMsg :: "CoreMessage \<Rightarrow> sendState \<Rightarrow> sendState" where
  "sendMsg m s = s\<lparr>onWire := onWire s @ [m], remains := remains s @ [eraseGrantMaterial m], sendPC := LoopTop\<rparr>"

inductive sendLoop_step :: "sendState \<Rightarrow> sendState \<Rightarrow> bool" where
  drained: "sendPC s = LoopTop \<Longrightarrow> urgentQ s = m # ms \<Longrightarrow> sendLoop_step s (sendMsg m (s\<lparr>urgentQ := ms\<rparr>))"
| quiet: "sendPC s = LoopTop \<Longrightarrow> urgentQ s = [] \<Longrightarrow> sendLoop_step s (s\<lparr>sendPC := Waiting\<rparr>)"
| urgent: "sendPC s = Waiting \<Longrightarrow> urgentQ s = m # ms \<Longrightarrow> sendLoop_step s (sendMsg m (s\<lparr>urgentQ := ms\<rparr>))"
| ordinary: "sendPC s = Waiting \<Longrightarrow> outQueue s = m # ms \<Longrightarrow> sendLoop_step s (sendMsg m (s\<lparr>outQueue := ms\<rparr>))"
| ended: "sendPC s = Waiting \<Longrightarrow> sendLoop_step s (s\<lparr>sendPC := LoopEnded\<rparr>)"
| send_failed: "sendPC s \<noteq> LoopEnded \<Longrightarrow> urgentQ s = m # ms \<Longrightarrow>
    sendLoop_step s (s\<lparr>urgentQ := ms, remains := remains s @ [eraseGrantMaterial m], sendPC := LoopEnded\<rparr>)"
| out_failed: "sendPC s = Waiting \<Longrightarrow> outQueue s = m # ms \<Longrightarrow>
    sendLoop_step s (s\<lparr>outQueue := ms, remains := remains s @ [eraseGrantMaterial m], sendPC := LoopEnded\<rparr>)"

text \<open>The pump and the receive loop put messages on the channels meanwhile.\<close>

inductive queue_step :: "sendState \<Rightarrow> sendState \<Rightarrow> bool" where
  queued_urgent: "length (urgentQ s) < sendQueue \<Longrightarrow> queue_step s (s\<lparr>urgentQ := urgentQ s @ [m]\<rparr>)"
| queued_out: "length (outQueue s) < sendQueue \<Longrightarrow> queue_step s (s\<lparr>outQueue := outQueue s @ [m]\<rparr>)"

text \<open>When the stream has ended: what nobody will read any more is erased.\<close>

definition drainGrantMaterial :: "sendState \<Rightarrow> sendState" where
  "drainGrantMaterial s = s\<lparr>remains := remains s @ map eraseGrantMaterial (outQueue s @ urgentQ s), outQueue := [], urgentQ := []\<rparr>"

section \<open>The sweeper\<close>

text \<open>The leases that \<open>ExpireLeases\<close> reports: one for each job that moves.\<close>

definition expiredLeases :: "time \<Rightarrow> (uuid \<Rightarrow> bool) \<Rightarrow> int \<Rightarrow> rows \<Rightarrow> (uuid \<times> Lease \<times> bool) list" where
  "expiredLeases now locked limit rs =
     (let ps = picked now locked limit rs
      in List.map_filter (\<lambda>(i, j).
           if Status j = JobAssigned \<or> Status j = JobRunning
           then map_option (\<lambda>l. (i, l, ReassignSafe j)) (find (\<lambda>l. overdue now l \<and> (i, Epoch l) \<in> set ps) (leases j))
           else None) rs)"

definition auditLost :: "uuid \<times> Lease \<times> bool \<Rightarrow> tenantDB \<Rightarrow> tenantDB" where
  "auditLost = (\<lambda>(i, l, safe) d.
     if safe then d
     else Audit_Record \<lparr>evActor = None, evActorType = ActorSystem, evAction = ''job.lease_lost'', evResource = Some i,
            evDetail = [(''epoch'', ANum (Epoch l)), (''reassign_safe'', AFlag False), (''requeued'', AFlag False),
              (''reason'', AText ''lease_lost''), (''scan_point_id'', AID (HolderID l))]\<rparr> d)"

definition sweepTenant :: "time \<Rightarrow> time \<Rightarrow> (uuid \<Rightarrow> bool) \<Rightarrow> int \<Rightarrow> bool \<Rightarrow> tenantDB \<Rightarrow> tenantDB" where
  "sweepTenant now dbNow locked limit fails d =
     (if fails then d
      else let lost = expiredLeases dbNow locked limit (jobs d);
               d1 = d\<lparr>jobs := ExpireLeases dbNow locked limit (jobs d)\<rparr>;
               d2 = fst (MarkStaleOffline (now - HeartbeatTimeout) d1)
           in fold auditLost lost d2)"

end
