(* ===== verification/Core_Fencing.thy ===== *)
theory Core_Fencing
  imports Core_Leases
begin

text \<open>
  What leases guarantee. The abstract contract is a fencing token: a counter with an optional owner,
  where only a free token is taken, and taking it counts up. It is stated as a locale, its consequences
  are proved there, and Core's transactions on one job are shown to implement it.
\<close>

section \<open>The contract\<close>

inductive token_step :: "nat \<times> 'h option \<Rightarrow> nat \<times> 'h option \<Rightarrow> bool" where
  idle: "token_step s s"
| take: "token_step (n, None) (Suc n, Some h)"
| give: "token_step (n, Some h) (n, None)"

inductive_cases token_stepE [elim]: "token_step (n, x) (m, y)"

locale fencing =
  fixes inv :: "'s \<Rightarrow> bool" and trans :: "'s \<Rightarrow> 's \<Rightarrow> bool"
    and token :: "'s \<Rightarrow> nat" and owner :: "'s \<Rightarrow> 'h option"
  assumes inv_step: "inv s \<Longrightarrow> trans s s' \<Longrightarrow> inv s'"
    and simulates: "inv s \<Longrightarrow> trans s s' \<Longrightarrow> token_step (token s, owner s) (token s', owner s')"
begin

lemma inv_steps: "trans\<^sup>*\<^sup>* s s' \<Longrightarrow> inv s \<Longrightarrow> inv s'"
  by (induction rule: rtranclp_induct) (auto intro: inv_step)

lemma token_mono:
  assumes "trans\<^sup>*\<^sup>* s s'" "inv s"
  shows "token s \<le> token s'"
  using assms
proof (induction rule: rtranclp_induct)
  case (step y z)
  then have "token_step (token y, owner y) (token z, owner z)" using simulates inv_steps by blast
  then have "token y \<le> token z" by (auto elim: token_step.cases)
  then show ?case using step by simp
qed simp

lemma same_token_same_owner:
  assumes "trans\<^sup>*\<^sup>* s s'" "inv s"
  shows "(token s' = token s \<longrightarrow> owner s' = owner s \<or> owner s' = None) \<and> (owner s = None \<longrightarrow> token s' = token s \<longrightarrow> owner s' = None)"
  using assms
proof (induction rule: rtranclp_induct)
  case (step y z)
  have "token_step (token y, owner y) (token z, owner z)" using simulates inv_steps step by blast
  moreover have "token s \<le> token y" using token_mono step by blast
  ultimately show ?case using step by (auto elim: token_step.cases)
qed simp

text \<open>Whoever owned a token and finds another owner later finds a higher token.\<close>

lemma fenced_off:
  assumes "trans\<^sup>*\<^sup>* s s'" "inv s" "owner s = Some a" "owner s' = Some b" "a \<noteq> b"
  shows "token s < token s'"
  using same_token_same_owner [OF assms(1,2)] token_mono [OF assms(1,2)] assms(3-5) by (auto simp: le_less)

end

section \<open>Transactions on one job\<close>

inductive job_step :: "time \<Rightarrow> Job \<Rightarrow> Job \<Rightarrow> bool" for now where
  offer: "Status j = JobQueued \<Longrightarrow> Attempt j < MaxAttempts \<Longrightarrow> job_step now j (offerJob now sp refused (claimed sp j))"
| renew: "Renew now e sp ttl j = Some (j', l) \<Longrightarrow> job_step now j j'"
| run: "MarkRunning sp j = Some j' \<Longrightarrow> job_step now j j'"
| terminate: "Terminate now sp r inc j = Some j' \<Longrightarrow> job_step now j j'"
| release: "Release e sp LeaseReleased j = Some j' \<Longrightarrow> job_step now j j'"
| reconcile: "job_step now j (ReconcileTasksWithResults j)"
| expire: "job_step now j (expireJob now es j)"
| observe: "job_step now j (markObserved seen j)"

definition granted :: "Job \<Rightarrow> bool" where
  "granted j \<longleftrightarrow> leases j \<noteq> [] \<and> State (last (leases j)) = LeaseGranted"

definition job_token :: "Job \<Rightarrow> nat" where
  "job_token j = length (leases j)"

definition job_owner :: "Job \<Rightarrow> uuid option" where
  "job_owner j = (if granted j then Some (HolderID (last (leases j))) else None)"

definition job_inv :: "Job \<Rightarrow> bool" where
  "job_inv j \<longleftrightarrow> map Epoch (leases j) = map int [1..<Suc (length (leases j))]
     \<and> (\<forall>l \<in> set (butlast (leases j)). State l \<noteq> LeaseGranted)
     \<and> (Status j = JobQueued \<longrightarrow> \<not> granted j)
     \<and> length (leases j) = Attempt j \<and> Attempt j \<le> MaxAttempts
     \<and> (\<not> ReassignSafe j \<longrightarrow> Attempt j \<le> 1 \<and> (0 < Attempt j \<longrightarrow> Status j \<noteq> JobQueued))"

text \<open>A change of the leases that keeps epochs and holders and revives none.\<close>

definition tamed :: "Lease list \<Rightarrow> Lease list \<Rightarrow> bool" where
  "tamed ls ls' \<longleftrightarrow> (\<exists>f. ls' = map f ls \<and>
     (\<forall>l. Epoch (f l) = Epoch l \<and> HolderID (f l) = HolderID l \<and> (State (f l) = LeaseGranted \<longrightarrow> State l = LeaseGranted)))"

lemma tamed_refl [simp]: "tamed ls ls"
  by (auto simp: tamed_def intro: exI [of _ id])

lemma tamed_map:
  "(\<And>l. Epoch (f l) = Epoch l \<and> HolderID (f l) = HolderID l \<and> (State (f l) = LeaseGranted \<longrightarrow> State l = LeaseGranted))
    \<Longrightarrow> tamed ls (map f ls)"
  by (auto simp: tamed_def)

lemma tamed_facts:
  assumes "tamed ls ls'"
  shows "length ls' = length ls" "map Epoch ls' = map Epoch ls"
    "(\<forall>l \<in> set (butlast ls). State l \<noteq> LeaseGranted) \<Longrightarrow> (\<forall>l \<in> set (butlast ls'). State l \<noteq> LeaseGranted)"
    "ls' \<noteq> [] \<Longrightarrow> State (last ls') = LeaseGranted \<Longrightarrow> State (last ls) = LeaseGranted"
    "ls' \<noteq> [] \<Longrightarrow> HolderID (last ls') = HolderID (last ls)"
proof -
  obtain f where f: "ls' = map f ls"
    "\<And>l. Epoch (f l) = Epoch l \<and> HolderID (f l) = HolderID l \<and> (State (f l) = LeaseGranted \<longrightarrow> State l = LeaseGranted)"
    using assms by (auto simp: tamed_def)
  show "length ls' = length ls" "map Epoch ls' = map Epoch ls" using f by simp_all
  show "(\<forall>l \<in> set (butlast ls). State l \<noteq> LeaseGranted) \<Longrightarrow> (\<forall>l \<in> set (butlast ls'). State l \<noteq> LeaseGranted)"
    using f by (auto simp: map_butlast [symmetric])
  show "ls' \<noteq> [] \<Longrightarrow> State (last ls') = LeaseGranted \<Longrightarrow> State (last ls) = LeaseGranted"
    "ls' \<noteq> [] \<Longrightarrow> HolderID (last ls') = HolderID (last ls)"
    using f by (auto simp: last_map)
qed

text \<open>What a transaction other than an offer does to the leases and the status.\<close>

definition mild :: "Job \<Rightarrow> Job \<Rightarrow> bool" where
  "mild j j' \<longleftrightarrow> tamed (leases j) (leases j') \<and> Attempt j' = Attempt j \<and> ReassignSafe j' = ReassignSafe j
     \<and> (Status j' = JobQueued \<longrightarrow> Status j = JobQueued \<or> (ReassignSafe j \<and> \<not> granted j'))"

lemma mild_inv: "mild j j' \<Longrightarrow> job_inv j \<Longrightarrow> job_inv j'"
  unfolding mild_def job_inv_def granted_def
  using tamed_facts [of "leases j" "leases j'"] by (auto simp del: upt_Suc)

lemma mild_token: "mild j j' \<Longrightarrow> token_step (job_token j, job_owner j) (job_token j', job_owner j')"
  unfolding mild_def job_token_def job_owner_def granted_def
  using tamed_facts [of "leases j" "leases j'"] by (auto intro: token_step.intros)

lemma setState_mild: "setState p st j = Some j' \<Longrightarrow> st \<noteq> LeaseGranted \<Longrightarrow> mild j j'"
  by (auto simp: setState_def mild_def split: if_splits intro!: tamed_map)

lemma Renew_mild: "Renew now e sp ttl j = Some (j', l) \<Longrightarrow> mild j j'"
  by (auto simp: Renew_def mild_def renewed_def split: option.splits if_splits intro!: tamed_map)

lemma Terminate_mild: "Terminate now sp r inc j = Some j' \<Longrightarrow> mild j j'"
  by (auto simp: Terminate_def mild_def endTasks_def statusFor_def Let_def split: if_splits StoredReason.splits)

lemma expireJob_leases:
  "tamed (leases j) (leases (expireJob now es j))" "Attempt (expireJob now es j) = Attempt j"
  "ReassignSafe (expireJob now es j) = ReassignSafe j"
proof -
  have "tamed (leases j) (map (\<lambda>l. if overdue now l \<and> Epoch l \<in> set es then l\<lparr>State := LeaseExpired\<rparr> else l) (leases j))"
    by (rule tamed_map) auto
  then show "tamed (leases j) (leases (expireJob now es j))" by (simp add: expireJob_def endTasks_def Let_def)
qed (simp_all add: expireJob_def endTasks_def Let_def)

lemma expireJob_queued:
  assumes "job_inv j" "Status (expireJob now es j) = JobQueued" "Status j \<noteq> JobQueued"
  shows "ReassignSafe j \<and> \<not> granted (expireJob now es j)"
proof -
  let ?f = "\<lambda>l. if overdue now l \<and> Epoch l \<in> set es then l\<lparr>State := LeaseExpired\<rparr> else l"
  have hit: "list_ex (\<lambda>l. overdue now l \<and> Epoch l \<in> set es) (leases j)" and safe: "ReassignSafe j"
    and ls: "leases (expireJob now es j) = map ?f (leases j)"
    using assms(2,3) by (auto simp: expireJob_def endTasks_def Let_def split: if_splits)
  obtain l where l: "l \<in> set (leases j)" "overdue now l" "Epoch l \<in> set es" using hit by (auto simp: list_ex_iff)
  then have "l = last (leases j)"
    using assms(1) by (metis job_inv_def append_butlast_last_id empty_iff in_set_butlastD list.set(1) overdue_def
        rotate1.simps(2) set_ConsD set_rotate1 append_Nil2 Un_iff set_append)
  then have "\<not> granted (expireJob now es j)"
    using l ls by (cases "leases j" rule: rev_cases) (auto simp: granted_def)
  then show ?thesis using safe by simp
qed

lemma expireJob_mild: "job_inv j \<Longrightarrow> mild j (expireJob now es j)"
  using expireJob_leases expireJob_queued [of j now es] by (auto simp: mild_def)

lemma maxEpoch_upto: "map Epoch ls = map int [1..<Suc (length ls)] \<Longrightarrow> maxEpoch ls = int (length ls)"
proof -
  assume e: "map Epoch ls = map int [1..<Suc (length ls)]"
  have "maxEpoch ls = foldr max (map Epoch ls) 0" by (simp add: maxEpoch_def foldr_map o_def)
  moreover have "foldr max (map int [1..<Suc n]) k = max (int n) k" if "0 \<le> k" for n k
    using that by (induction n arbitrary: k) auto
  ultimately show ?thesis using e by simp
qed

lemma offerJob_leases:
  "\<exists>l. leases (offerJob now sp refused (claimed sp j)) = leases j @ [l] \<and> Epoch l = maxEpoch (leases j) + 1
     \<and> HolderID l = sp \<and> State l = LeaseGranted"
  "Attempt (offerJob now sp refused (claimed sp j)) = Attempt j + 1"
  "ReassignSafe (offerJob now sp refused (claimed sp j)) = ReassignSafe j"
  "Status (offerJob now sp refused (claimed sp j)) \<noteq> JobQueued"
  by (auto simp: offerJob_def Grant_def claimed_def Terminate_def endTasks_def statusFor_def Let_def
      split: option.splits if_splits StoredReason.splits)

lemma offerJob_inv:
  assumes "job_inv j" "Status j = JobQueued" "Attempt j < MaxAttempts"
  shows "job_inv (offerJob now sp refused (claimed sp j))"
proof -
  obtain l where l: "leases (offerJob now sp refused (claimed sp j)) = leases j @ [l]"
    "Epoch l = maxEpoch (leases j) + 1" "State l = LeaseGranted"
    using offerJob_leases(1) [of now sp refused j] by blast
  have "maxEpoch (leases j) = int (length (leases j))" using assms(1) maxEpoch_upto by (simp add: job_inv_def)
  moreover have "\<forall>x \<in> set (leases j). State x \<noteq> LeaseGranted"
    using assms(1,2) by (cases "leases j" rule: rev_cases) (auto simp: job_inv_def granted_def)
  ultimately show ?thesis
    using assms l offerJob_leases(2-4) [of now sp refused j] by (auto simp: job_inv_def)
qed

lemma job_step_inv: "job_inv j \<Longrightarrow> job_step now j j' \<Longrightarrow> job_inv j'"
proof (erule job_step.cases, goal_cases)
  case (6 j)
  then show ?case by (auto simp: job_inv_def ReconcileTasksWithResults_def granted_def)
next
  case (8 j)
  then show ?case by (auto simp: job_inv_def markObserved_def granted_def)
next
  case (3 sp j j')
  then show ?case by (auto simp: job_inv_def MarkRunning_def granted_def split: if_splits)
qed (auto intro: offerJob_inv mild_inv Renew_mild Terminate_mild expireJob_mild setState_mild simp: Release_def)

lemma job_step_token:
  "job_inv j \<Longrightarrow> job_step now j j' \<Longrightarrow> token_step (job_token j, job_owner j) (job_token j', job_owner j')"
proof (erule job_step.cases, goal_cases)
  case (1 j sp refused)
  obtain l where "leases (offerJob now sp refused (claimed sp j)) = leases j @ [l]" "HolderID l = sp" "State l = LeaseGranted"
    using offerJob_leases(1) [of now sp refused j] by blast
  moreover have "job_owner j = None" using 1 by (simp add: job_inv_def job_owner_def)
  ultimately show ?case using 1 by (auto simp: job_token_def job_owner_def granted_def intro: token_step.intros)
next
  case (6 j)
  then show ?case
    by (auto simp: job_token_def job_owner_def ReconcileTasksWithResults_def granted_def intro: token_step.intros)
next
  case (8 j)
  then show ?case
    by (auto simp: job_token_def job_owner_def markObserved_def granted_def intro: token_step.intros)
next
  case (3 sp j j')
  then show ?case
    by (auto simp: job_token_def job_owner_def MarkRunning_def granted_def intro: token_step.intros split: if_splits)
qed (auto intro: mild_token Renew_mild Terminate_mild expireJob_mild setState_mild simp: Release_def)

text \<open>Any transaction, whenever it happens.\<close>

definition any_step :: "Job \<Rightarrow> Job \<Rightarrow> bool" where
  "any_step j j' \<longleftrightarrow> (\<exists>now. job_step now j j')"

interpretation core: fencing job_inv any_step job_token job_owner
  by unfold_locales (auto simp: any_step_def intro: job_step_inv job_step_token)

section \<open>Transactions on all jobs\<close>

lemma map_of_rows: "map_of (map (\<lambda>(i, j). (i, f i j)) rs) k = map_option (f k) (map_of rs k)"
  by (induction rs) auto

lemma keys_rows: "map fst (map (\<lambda>(i, j). (i, f i j)) rs) = map fst rs"
  by (induction rs) auto

lemma updateRow_job:
  assumes "map_of rs i = Some j" "\<And>j'. f j = Some j' \<Longrightarrow> job_step now j j'"
  shows "\<exists>j'. map_of (updateRow k f rs) i = Some j' \<and> any_step\<^sup>*\<^sup>* j j'"
  using assms by (cases "f j") (auto simp: updateRow_def map_of_rows any_step_def intro!: r_into_rtranclp)

lemma Claim_ids:
  assumes "Claim d locked sp engines limit closed rs = (ids, rs')" "distinct (map fst rs)" "map_of rs i = Some j"
  shows "map_of rs' i = Some (if i \<in> set ids then claimed sp j else j) \<and> (i \<in> set ids \<longrightarrow> claimable d sp engines closed j)"
proof -
  have "claimable d sp engines closed j" if "(i, j') \<in> set rs" "claimable d sp engines closed j'" for j'
    using that assms(2,3) map_of_is_SomeI [of rs i j'] by simp
  then show ?thesis
    using assms by (auto simp: Claim_def Let_def map_of_rows split: if_splits dest!: in_set_takeD)
qed

lemma offerWork_job:
  assumes "distinct (map fst rs)" "map_of rs i = Some j"
  shows "\<exists>j'. map_of (offerWork now d locked sp engines limit closed refused fails rs) i = Some j' \<and> any_step\<^sup>*\<^sup>* j j'"
proof (cases fails)
  case True
  then show ?thesis using assms(2) by (simp add: offerWork_def)
next
  case False
  obtain ids rs' where c: "Claim d locked sp engines limit closed rs = (ids, rs')"
    by (cases "Claim d locked sp engines limit closed rs")
  note cl = Claim_ids [OF c assms]
  have "map_of (offerWork now d locked sp engines limit closed refused fails rs) i
      = Some (if i \<in> set ids then offerJob now sp (refused i) (claimed sp j) else j)"
    using False c cl by (simp add: offerWork_def map_of_rows)
  moreover have "any_step j (offerJob now sp (refused i) (claimed sp j))" if "i \<in> set ids"
    using cl that by (auto simp: any_step_def claimable_def intro: job_step.offer)
  ultimately show ?thesis by auto
qed

lemma offerWork_keys: "map fst (offerWork now d locked sp engines limit closed refused fails rs) = map fst rs"
  by (auto simp: offerWork_def Claim_def Let_def keys_rows split: prod.splits if_splits simp del: map_map)

lemma core_step_keys: "core_step now rs rs' \<Longrightarrow> distinct (map fst rs) \<Longrightarrow> distinct (map fst rs')"
proof (induction rule: core_step.induct)
  case (offered now rs d locked sp engines limit closed refused fails)
  then show ?case by (simp add: offerWork_keys)
qed (auto simp: onRenewal_def onProgress_def onTerminal_def updateRow_def keys_rows ExpireLeases_def markRows_def Let_def simp del: map_map)

lemma onTerminal_job:
  assumes "map_of rs i = Some j"
  shows "\<exists>j'. map_of (onTerminal now k e sp r inc rs) i = Some j' \<and> any_step\<^sup>*\<^sup>* j j'"
proof -
  obtain j1 where 1: "map_of (updateRow k (Terminate now sp r inc) rs) i = Some j1" "any_step\<^sup>*\<^sup>* j j1"
    using updateRow_job [OF assms, of "Terminate now sp r inc" now k] job_step.terminate by blast
  obtain j2 where "map_of (onTerminal now k e sp r inc rs) i = Some j2" "any_step\<^sup>*\<^sup>* j1 j2"
    using updateRow_job [OF 1(1), of "Release e sp LeaseReleased" now k] job_step.release
    unfolding onTerminal_def by blast
  then show ?thesis using 1(2) rtranclp_trans by metis
qed

lemma core_step_job:
  assumes "core_step now rs rs'" "distinct (map fst rs)" "map_of rs i = Some j"
  shows "\<exists>j'. map_of rs' i = Some j' \<and> any_step\<^sup>*\<^sup>* j j'"
  using assms
proof (induction rule: core_step.induct)
  case (planned k rs now scan engine safe ts)
  then show ?case by auto
next
  case (offered now rs)
  then show ?case by (intro offerWork_job)
next
  case (renewal now rs k e sp)
  show ?case unfolding onRenewal_def
    by (rule updateRow_job [OF renewal(2), where now = now]) (auto intro: job_step.renew)
next
  case (progress now rs k sp)
  show ?case unfolding onProgress_def
    by (rule updateRow_job [OF progress(2), where now = now]) (rule job_step.run)
next
  case (terminal now rs)
  then show ?case by (intro onTerminal_job)
next
  case (reconciled now rs k)
  show ?case by (rule updateRow_job [OF reconciled(2), where now = now]) (auto intro: job_step.reconcile)
next
  case (swept now rs locked limit)
  then show ?case
    by (auto simp: ExpireLeases_def Let_def map_of_rows any_step_def intro!: r_into_rtranclp job_step.expire)
next
  case (observed now rs seen)
  then show ?case
    by (auto simp: markRows_def map_of_rows any_step_def intro!: r_into_rtranclp job_step.observe)
qed

lemma core_step_new:
  assumes "core_step now rs rs'" "map_of rs i = None" "map_of rs' i = Some j"
  shows "\<exists>scan engine safe ts. j = newJob scan engine safe now ts"
  using assms
proof (induction rule: core_step.induct)
  case (planned k rs now scan engine safe ts)
  then have "j = newJob scan engine safe now ts" by (auto split: if_splits)
  then show ?case by blast
next
  case (offered now rs d locked sp engines limit closed refused fails)
  then have "i \<notin> set (map fst rs)" by (simp add: map_of_eq_None_iff)
  then have "map_of (offerWork now d locked sp engines limit closed refused fails rs) i = None"
    using offerWork_keys [of now d locked sp engines limit closed refused fails rs]
    by (metis map_of_eq_None_iff image_set)
  then show ?case using offered(2) by simp
qed (auto simp: onRenewal_def onProgress_def onTerminal_def updateRow_def map_of_rows ExpireLeases_def markRows_def Let_def simp del: map_map)

lemma newJob_inv: "job_inv (newJob scan engine safe now ts)"
  by (simp add: job_inv_def newJob_def granted_def)

lemma core_reach_inv: "core_reach rs \<Longrightarrow> distinct (map fst rs) \<and> (\<forall>i j. map_of rs i = Some j \<longrightarrow> job_inv j)"
proof (induction rule: core_reach.induct)
  case (stepped rs now rs')
  have "job_inv j'" if "map_of rs' i = Some j'" for i j'
  proof (cases "map_of rs i")
    case None
    then show ?thesis using core_step_new [OF stepped(2) None that] newJob_inv by auto
  next
    case (Some j)
    then show ?thesis using core_step_job [OF stepped(2) _ Some] stepped(3) that core.inv_steps by fastforce
  qed
  then show ?case using stepped core_step_keys by blast
qed simp

text \<open>What a successful renewal says about the lease it extends.\<close>

lemma Renew_fenced:
  assumes inv: "job_inv j" and r: "Renew now e sp ttl j = Some (j', l)"
  shows "Epoch l = e \<and> e = int (job_token j) \<and> job_owner j = Some sp \<and> now < ExpiresAt (last (leases j)) \<and> job_owner j' = Some sp"
proof -
  obtain x where x: "x \<in> set (leases j)" "renewable now e sp x"
    and j': "j' = j\<lparr>leases := map (\<lambda>l. if renewable now e sp l then renewed now ttl l else l) (leases j)\<rparr>"
    using r nth_mem by (fastforce simp: Renew_def find_Some_iff split: option.splits)
  obtain ys y where ys: "leases j = ys @ [y]" using x(1) by (cases "leases j" rule: rev_cases) auto
  then have "x = y" using x inv by (auto simp: job_inv_def renewable_def)
  moreover have "Epoch y = int (length (leases j))"
  proof -
    have "map Epoch (leases j) ! length ys = int (length (leases j))"
      using inv ys by (simp add: job_inv_def nth_append del: upt_Suc)
    then show ?thesis using ys by (simp add: nth_append)
  qed
  moreover have "Epoch l = e" using r by (auto simp: Renew_def renewed_def renewable_def find_Some_iff split: option.splits)
  ultimately show ?thesis
    using x(2) j' ys by (auto simp: renewable_def job_token_def job_owner_def granted_def renewed_def)
qed

section \<open>Properties\<close>


text \<open>
  C2. A job that is not safe to repeat is handed out at most once in its life, whatever fails, and any
  job at most five times.
\<close>

theorem at_most_once:
  assumes "core_reach rs" "map_of rs i = Some j"
  shows "length (leases j) \<le> 5 \<and> (\<not> ReassignSafe j \<longrightarrow> length (leases j) \<le> 1)"
  using core_reach_inv [OF assms(1)] assms(2) by (auto simp: job_inv_def MaxAttempts_def)


text \<open>
  A renewal succeeds only for the scan point that owns the token and only with the newest epoch,
  before the lease has run out: a superseded scan point can never extend its lease.
\<close>

theorem renewal_fenced:
  assumes "core_reach rs" "map_of rs i = Some j" "Renew now e sp ttl j = Some (j', l)"
  shows "e = int (job_token j) \<and> job_owner j = Some sp \<and> now < ExpiresAt (last (leases j)) \<and> job_owner j' = Some sp"
  using Renew_fenced [OF _ assms(3)] core_reach_inv [OF assms(1)] assms(2) by blast

section \<open>A late terminal message\<close>

text \<open>
  One job that is safe to repeat, one scan point. It is handed out, its lease runs out and is swept, and
  the same scan point is handed the job again. Its terminal message for the first epoch arrives then.
\<close>

definition ex_claim :: ClaimDB where
  "ex_claim = \<lparr>scanStatus = (\<lambda>_. Some ScanRunning), scanPolicy = (\<lambda>_. None), allowedZones = (\<lambda>_. []), liveKills = [],
     zoneOf = (\<lambda>_. None), zoneText = (\<lambda>_. []), authorised = (\<lambda>_. True)\<rparr>"

abbreviation ex_offer :: "time \<Rightarrow> rows \<Rightarrow> rows" where
  "ex_offer now rs \<equiv> offerWork now ex_claim (\<lambda>_. False) 7 [''discovery''] 10 [] (\<lambda>_. None) False rs"

definition ex_task :: TaskRow where
  "ex_task = \<lparr>taskID = 5, taskTarget = ''ab'', taskFragile = False, taskStatus = TaskPending, targetID = Some 3,
     hasAccepted = False\<rparr>"

definition ex_planned :: "bool \<Rightarrow> rows" where
  "ex_planned safe = [(1, newJob 2 ''discovery'' safe 0 [ex_task])]"

definition ex_first :: "bool \<Rightarrow> rows" where
  "ex_first safe = ex_offer 100 (ex_planned safe)"

definition ex_second :: rows where
  "ex_second = ex_offer 60000000200 (ExpireLeases 60000000100 (\<lambda>_. False) 100 (ex_first True))"

lemma ex_planned_reach: "core_reach (ex_planned safe)"
  using stepped [OF empty planned [where rs = "[]"]] by (auto simp: ex_planned_def)

lemma ex_first_reach: "core_reach (ex_first safe)"
  unfolding ex_first_def by (rule stepped [OF ex_planned_reach offered])

lemma ex_second_reach: "core_reach ex_second"
  unfolding ex_second_def by (rule stepped [OF stepped [OF ex_first_reach swept] offered])

lemma ex_first_row: "ex_first safe = [(1, (newJob 2 ''discovery'' safe 0
     [ex_task])\<lparr>Status := JobAssigned, ScanPointID := Some 7, Attempt := 1,
       leases := [\<lparr>Epoch = 1, HolderID = 7, State = LeaseGranted, GrantedAt = 100, ExpiresAt = 60000000100, RenewedAt = None\<rparr>]\<rparr>)]"
  by (simp add: ex_first_def ex_planned_def offerWork_def Claim_def claimable_def newJob_def ex_claim_def MaxAttempts_def
      zoneForbids_def claimLimit_def claimed_def offerJob_def Grant_def orTTL_def LeaseTTL_def maxEpoch_def Let_def ex_task_def)

lemma ex_second_row: "ex_second = [(1, (newJob 2 ''discovery'' True 0
     [ex_task])\<lparr>Status := JobAssigned, ScanPointID := Some 7, Attempt := 2,
       leases := [\<lparr>Epoch = 1, HolderID = 7, State = LeaseExpired, GrantedAt = 100, ExpiresAt = 60000000100, RenewedAt = None\<rparr>,
         \<lparr>Epoch = 2, HolderID = 7, State = LeaseGranted, GrantedAt = 60000000200, ExpiresAt = 120000000200, RenewedAt = None\<rparr>]\<rparr>)]"
  by (auto simp: ex_second_def ex_first_row ExpireLeases_def picked_def overdue_def sweepLimit_def expireJob_def
      offerWork_def Claim_def claimable_def newJob_def ex_claim_def MaxAttempts_def
      zoneForbids_def claimLimit_def claimed_def offerJob_def Grant_def orTTL_def LeaseTTL_def maxEpoch_def Let_def ex_task_def)

text \<open>
  Ending a job is not fenced: the predicate of \<open>Terminate\<close> names the scan point and not the epoch.
  A terminal message of a superseded incarnation fails the job while the same scan point holds a granted
  lease for the next one and is working on it.
\<close>

theorem stale_terminal_fails_job:
  "\<exists>rs j. core_reach rs \<and> map_of rs 1 = Some j \<and> job_owner j = Some 7 \<and> job_token j = 2 \<and> Status j = JobAssigned
     \<and> (\<exists>j'. map_of (onTerminal 60000000300 1 1 7 TerminationLeaseLost True rs) 1 = Some j'
            \<and> Status j' = JobFailed \<and> job_owner j' = Some 7)"
  by (rule exI [of _ ex_second])
     (simp add: ex_second_reach, simp add: ex_second_row job_owner_def job_token_def granted_def onTerminal_def updateRow_def
       Terminate_def statusFor_def endTasks_def Release_def setState_def newJob_def)

section \<open>Witnesses\<close>


theorem at_most_once_witness: "\<exists>j. map_of (ex_first False) 1 = Some j \<and> length (leases j) \<le> 1 \<and> job_owner j = Some 7"
proof -
  obtain j where "map_of (ex_first False) 1 = Some j" "\<not> ReassignSafe j" "job_owner j = Some 7"
    by (auto simp: ex_first_row newJob_def job_owner_def granted_def)
  then show ?thesis using at_most_once [OF ex_first_reach] by blast
qed


theorem renewal_fenced_witness:
  "\<exists>j. map_of (ex_first True) 1 = Some j \<and> job_owner j = Some 7 \<and> (1::int) = int (job_token j)"
proof -
  obtain j where j: "map_of (ex_first True) 1 = Some j" and r: "\<exists>j' l. Renew 200 1 7 LeaseTTL j = Some (j', l)"
    by (simp add: ex_first_row Renew_def renewable_def)
  then show ?thesis using renewal_fenced [OF ex_first_reach j] by blast
qed

end
