(* ===== verification/Core_System.thy ===== *)
theory Core_System
  imports Core_Handlers Core_Fencing
begin

text \<open>
  The transactions of one tenant as a step relation, the refinement of the lease protocol of
  \<open>Core_Leases\<close> by them, and the invariants of the rows.
\<close>

section \<open>Steps\<close>

text \<open>
  One committed transaction of Core: of the operator's interface, of the planner, of a scan point's
  stream or of the sweeper. Primary keys are distinct; policies are edited but not removed.
\<close>

inductive db_step :: "coreEnv \<Rightarrow> tenantDB \<Rightarrow> tenantDB \<Rightarrow> bool" for E where
  created: "Scans_Create i now policy scanType by1 ts d = Inr d' \<Longrightarrow> i \<notin> fst ` set (scans d) \<Longrightarrow> db_step E d d'"
| cancelled: "Scans_Cancel now i actor why d = Inr d' \<Longrightarrow> db_step E d d'"
| mode_set: "SetSafetyMode i m actor d = Inr d' \<Longrightarrow> db_step E d d'"
| planned: "engineFor i d = Inr (engine, safe) \<Longrightarrow> PlanScan (ceURL E) (ceDigit E) ids now i engine safe d = Some (Inr (d', n)) \<Longrightarrow>
    distinct (map fst (jobs d')) \<Longrightarrow> db_step E d d'"
| plan_failed: "Scans_Fail now i why d = Inr d' \<Longrightarrow> db_step E d d'"
| killed: "k \<notin> fst ` set (kills d) \<Longrightarrow> db_step E d (Kill_Issue k now scope by1 why d)"
| kill_acked: "db_step E d (onKillAck ss now k halted d)"
| kill_resolved: "Kill_Resolve now k d = Some d' \<Longrightarrow> db_step E d d'"
| offered: "db_step E d (fst (offerWork E ss op limit d))"
| renewal: "db_step E d (fst (onLeaseRenewal E ss rn i e d))"
| progress: "db_step E d (onProgress ss i d)"
| terminal: "db_step E d (onTerminal ss now dbNow fails i e r incomplete detail zeroised d)"
| cancel_acked: "db_step E d (onCancelAck ss now i e halted d)"
| reconciled: "db_step E d (d\<lparr>jobs := updateRow i (\<lambda>j. Some (ReconcileTasksWithResults j)) (jobs d)\<rparr>)"
| connected: "handshake E supported now fp version claimedID caps d = Inr (d', ss) \<Longrightarrow> db_step E d d'"
| heartbeat: "db_step E d (onHeartbeat ss now d)"
| disconnected: "db_step E d (markOffline ss d)"
| swept: "db_step E d (sweepTenant now dbNow locked limit fails d)"
| observed: "db_step E d (d\<lparr>jobs := markRows seen (jobs d)\<rparr>)"
| edited: "fst ` set (policies d) \<subseteq> fst ` set ps \<Longrightarrow> db_step E d (d\<lparr>policies := ps, sshProfiles := prs, points := sps\<rparr>)"

inductive db_reach :: "coreEnv \<Rightarrow> tenantDB \<Rightarrow> bool" for E where
  empty: "db_reach E \<lparr>scans = [], jobs = [], policies = ps, kills = [], cancels = [], points = sps, sshProfiles = prs, grants = [], audit = []\<rparr>"
| stepped: "db_reach E d \<Longrightarrow> db_step E d d' \<Longrightarrow> db_reach E d'"

section \<open>Rows\<close>

lemma Audit_Record_frame [simp]:
  "scans (Audit_Record e d) = scans d" "jobs (Audit_Record e d) = jobs d" "policies (Audit_Record e d) = policies d"
  "points (Audit_Record e d) = points d" "kills (Audit_Record e d) = kills d" "cancels (Audit_Record e d) = cancels d"
  "grants (Audit_Record e d) = grants d" "sshProfiles (Audit_Record e d) = sshProfiles d" "audit (Audit_Record e d) = audit d @ [e]"
  by (simp_all add: Audit_Record_def)

lemma fold_frame:
  assumes "\<And>x d. f (g x d) = f d"
  shows "f (fold g xs d) = f d"
  using assms by (induction xs arbitrary: d) simp_all

lemma Audits_frame [simp]:
  "scans (fold Audit_Record es d) = scans d" "jobs (fold Audit_Record es d) = jobs d" "policies (fold Audit_Record es d) = policies d"
  by (rule fold_frame, simp)+

lemma record_grant_frame [simp]:
  "scans (record_grant sp now g d) = scans d" "jobs (record_grant sp now g d) = jobs d" "policies (record_grant sp now g d) = policies d"
  by (simp_all add: record_grant_def Grants_MarkDelivered_def Let_def)

lemma recordGrantDelivery_frame [simp]:
  "scans (recordGrantDelivery sp now gs d) = scans d" "jobs (recordGrantDelivery sp now gs d) = jobs d"
  "policies (recordGrantDelivery sp now gs d) = policies d"
  unfolding recordGrantDelivery_def by (rule fold_frame, simp)+

lemma endJob_frame [simp]:
  "scans (endJob now i sp r inc d) = scans d" "policies (endJob now i sp r inc d) = policies d"
  "jobs (endJob now i sp r inc d) = updateRow i (Terminate now sp r inc) (jobs d)"
  by (simp_all add: endJob_def)

lemma refuseJob_frame [simp]:
  "scans (refuseJob now i sp pid p why d) = scans d" "policies (refuseJob now i sp pid p why d) = policies d"
  "jobs (refuseJob now i sp pid p why d) = updateRow i (Terminate now sp TerminationScopeViolationHalt False) (jobs d)"
  by (simp_all add: refuseJob_def)

lemma auditIntrusive_frame [simp]:
  "scans (auditIntrusive i j sp pid p m c d) = scans d" "policies (auditIntrusive i j sp pid p m c d) = policies d"
  "jobs (auditIntrusive i j sp pid p m c d) = jobs d"
  by (simp_all add: auditIntrusive_def)

lemma credentialedAssignment_frame:
  "credentialedAssignment E ss now g i scan ts w d = Inr (d', p, w') \<Longrightarrow>
    scans d' = scans d \<and> policies d' = policies d \<and> jobs d' = jobs d"
  by (auto simp: credentialedAssignment_def Grants_Issue_def Let_def split: option.splits if_splits sum.splits)

section \<open>The lease protocol\<close>

lemma updateRow_keys [simp]: "map fst (updateRow i f rs) = map fst rs"
  by (auto simp: updateRow_def)

lemma updateRow_const:
  "distinct (map fst rs) \<Longrightarrow> map_of rs i = Some j \<Longrightarrow> updateRow i (\<lambda>_. Some (h j)) rs = updateRow i (\<lambda>j. Some (h j)) rs"
  by (auto simp: updateRow_def map_of_eq_Some_iff dest: eq_key_imp_eq_value)

lemma updateRow_twice:
  "updateRow i f (updateRow i (\<lambda>j. Some (h j)) rs) = updateRow i (\<lambda>j. Some (case f (h j) of None \<Rightarrow> h j | Some j' \<Rightarrow> j')) rs"
  by (auto simp: updateRow_def split: option.splits)

lemma offerJob_Terminate:
  "offerJob now sp (Some r) j = (case Terminate now sp r False (fst (Grant now sp LeaseTTL j)) of None \<Rightarrow> fst (Grant now sp LeaseTTL j) | Some j' \<Rightarrow> j')"
  by (simp add: offerJob_def Let_def case_prod_beta)

text \<open>A job of a pass: it is granted a lease, and ended again if it is refused.\<close>

lemma offer_one_rows:
  assumes "offer_one E ss op i st = Inr st'" "distinct (map fst (jobs (osDB st)))"
  shows "scans (osDB st') = scans (osDB st) \<and> policies (osDB st') = policies (osDB st)
    \<and> (\<exists>refused. jobs (osDB st') = updateRow i (\<lambda>j. Some (offerJob (opDBNow op) (ssPoint ss) refused j)) (jobs (osDB st)))"
proof -
  obtain j j' l where j: "map_of (jobs (osDB st)) i = Some j" "Grant (opDBNow op) (ssPoint ss) LeaseTTL j = (j', l)"
    using assms(1) by (auto simp: offer_one_def split: option.splits prod.splits)
  define d where "d = (osDB st)\<lparr>jobs := updateRow i (\<lambda>_. Some j') (jobs (osDB st))\<rparr>"
  have f: "scans d = scans (osDB st)" "policies d = policies (osDB st)" by (simp_all add: d_def)
  have g: "jobs d = updateRow i (\<lambda>j. Some (fst (Grant (opDBNow op) (ssPoint ss) LeaseTTL j))) (jobs (osDB st))"
    using updateRow_const [OF assms(2) j(1), of "\<lambda>j. fst (Grant (opDBNow op) (ssPoint ss) LeaseTTL j)"] j(2) by (simp add: d_def)
  have n: "jobs d = updateRow i (\<lambda>j. Some (offerJob (opDBNow op) (ssPoint ss) None j)) (jobs (osDB st))"
    unfolding g by (simp add: offerJob_def Let_def case_prod_beta)
  have r: "updateRow i (Terminate (opDBNow op) (ssPoint ss) r False) (jobs d)
      = updateRow i (\<lambda>j. Some (offerJob (opDBNow op) (ssPoint ss) (Some r) j)) (jobs (osDB st))" for r
    unfolding g updateRow_twice offerJob_Terminate ..
  note * = assms(1) [unfolded offer_one_def j(1) option.case j(2) prod.case Let_def, folded d_def]
  show ?thesis
    using * f n r
    by (auto simp: assign_def refuseCredentialedJob_def Let_def split: sum.splits option.splits prod.splits if_splits credentialError.splits
        dest!: credentialedAssignment_frame)
qed

lemma offer_loop_rows:
  assumes "offer_loop E ss op is st = (st', None)" "distinct (map fst (jobs (osDB st)))" "distinct is"
  shows "scans (osDB st') = scans (osDB st) \<and> policies (osDB st') = policies (osDB st)
    \<and> (\<exists>refused. jobs (osDB st') = map (\<lambda>(i, j). (i, if i \<in> set is then offerJob (opDBNow op) (ssPoint ss) (refused i) j else j)) (jobs (osDB st)))"
  using assms
proof (induction "is" arbitrary: st)
  case Nil
  then show ?case by (auto simp: case_prod_beta)
next
  case (Cons i "is")
  obtain st1 where s1: "offer_one E ss op i st = Inr st1" and l: "offer_loop E ss op is st1 = (st', None)"
    using Cons.prems(1) by (auto split: sum.splits if_splits)
  obtain r where r: "jobs (osDB st1) = updateRow i (\<lambda>j. Some (offerJob (opDBNow op) (ssPoint ss) r j)) (jobs (osDB st))"
    "scans (osDB st1) = scans (osDB st)" "policies (osDB st1) = policies (osDB st)"
    using offer_one_rows [OF s1 Cons.prems(2)] by blast
  have "distinct (map fst (jobs (osDB st1)))" using r(1) Cons.prems(2) by simp
  then obtain refused where q: "scans (osDB st') = scans (osDB st1)" "policies (osDB st') = policies (osDB st1)"
    "jobs (osDB st') = map (\<lambda>(i, j). (i, if i \<in> set is then offerJob (opDBNow op) (ssPoint ss) (refused i) j else j)) (jobs (osDB st1))"
    using Cons.IH [OF l] Cons.prems(3) by auto
  have "jobs (osDB st') = map (\<lambda>(k, j). (k, if k \<in> set (i # is) then offerJob (opDBNow op) (ssPoint ss) ((refused(i := r)) k) j else j)) (jobs (osDB st))"
    unfolding q(3) r(1) updateRow_def using Cons.prems(3) by auto
  then show ?case using q(1,2) r(2,3) by (intro conjI exI [of _ "refused(i := r)"]) simp_all
qed

lemma Claim_distinct:
  "distinct (map fst rs) \<Longrightarrow> distinct (fst (Claim c locked sp engines limit closed1 rs))"
  by (simp add: Claim_def Let_def distinct_map_filter distinct_map inj_on_def take_map [symmetric] distinct_take split: prod.splits)

lemma Claim_keys: "map fst (snd (Claim c locked sp engines limit shut rs)) = map fst rs"
  by (auto simp: Claim_def Let_def)

text \<open>The offer of work is the offer of the lease protocol, whose arguments it determines.\<close>

lemma offer_txn_rows:
  assumes "offer_txn E ss op limit d = (st, None)" "distinct (map fst (jobs d))"
  shows "scans (osDB st) = scans d \<and> policies (osDB st) = policies d
    \<and> (\<exists>engines shut refused. jobs (osDB st)
         = Core_Leases.offerWork (opDBNow op) (claimDB (ceUuid E) d) (opLocked op) (ssPoint ss) engines limit shut refused False (jobs d))"
proof (cases "enabledEngines (ssPoint ss) d = []")
  case True
  then have "st = \<lparr>osDB = d, osOffers = [], osRefusals = []\<rparr>" using assms(1) by (simp add: offer_txn_def)
  moreover have "Core_Leases.offerWork (opDBNow op) (claimDB (ceUuid E) d) (opLocked op) (ssPoint ss) [] limit shut refused False (jobs d) = jobs d" for shut refused
    by (simp add: Core_Leases.offerWork_def Claim_def case_prod_beta)
  ultimately show ?thesis by (metis offerState.select_convs(1))
next
  case False
  let ?c = "claimDB (ceUuid E) d" and ?en = "enabledEngines (ssPoint ss) d"
  obtain shut ids rs where c: "Claim ?c (opLocked op) (ssPoint ss) ?en limit shut (jobs d) = (ids, rs)"
    and l: "offer_loop E ss op ids \<lparr>osDB = d\<lparr>jobs := rs\<rparr>, osOffers = [], osRefusals = []\<rparr> = (st, None)"
    using assms(1) False by (auto simp: offer_txn_def Let_def split: sum.splits prod.splits)
  have "distinct ids" "map fst rs = map fst (jobs d)"
    using Claim_distinct [OF assms(2), of ?c "opLocked op" "ssPoint ss" ?en limit shut]
      Claim_keys [of ?c "opLocked op" "ssPoint ss" ?en limit shut "jobs d"] c by simp_all
  then obtain refused where "scans (osDB st) = scans d" "policies (osDB st) = policies d"
    "jobs (osDB st) = map (\<lambda>(i, j). (i, if i \<in> set ids then offerJob (opDBNow op) (ssPoint ss) (refused i) j else j)) rs"
    using offer_loop_rows [OF l] assms(2) by auto
  then show ?thesis using c by (intro conjI exI [of _ ?en] exI [of _ shut] exI [of _ refused]) (simp_all add: Core_Leases.offerWork_def)
qed

definition core_any :: "rows \<Rightarrow> rows \<Rightarrow> bool" where
  "core_any rs rs' \<longleftrightarrow> (\<exists>now. core_step now rs rs')"

lemma core_anyI: "core_step now rs rs' \<Longrightarrow> core_any\<^sup>*\<^sup>* rs rs'"
  by (rule r_into_rtranclp) (auto simp: core_any_def)

lemmas core_anys = core_step.renewal [THEN core_anyI] core_step.terminal [THEN core_anyI] core_step.reconciled [THEN core_anyI]
  core_step.swept [THEN core_anyI] core_step.progress [THEN core_anyI] core_step.observed [THEN core_anyI]

lemma offerWork_refines:
  assumes "distinct (map fst (jobs d))"
  shows "scans (fst (Core_Dispatch.offerWork E ss op limit d)) = scans d" "policies (fst (Core_Dispatch.offerWork E ss op limit d)) = policies d"
    "core_any\<^sup>*\<^sup>* (jobs d) (jobs (fst (Core_Dispatch.offerWork E ss op limit d)))"
proof -
  obtain st err where t: "offer_txn E ss op limit d = (st, err)" by (cases "offer_txn E ss op limit d")
  show "scans (fst (Core_Dispatch.offerWork E ss op limit d)) = scans d" "policies (fst (Core_Dispatch.offerWork E ss op limit d)) = policies d"
    using t offer_txn_rows [OF _ assms, of E ss op limit st] by (auto simp: Core_Dispatch.offerWork_def split: prod.splits)
  show "core_any\<^sup>*\<^sup>* (jobs d) (jobs (fst (Core_Dispatch.offerWork E ss op limit d)))"
  proof (cases "err = None \<and> \<not> opFails op")
    case True
    then obtain engines shut refused where "jobs (osDB st)
         = Core_Leases.offerWork (opDBNow op) (claimDB (ceUuid E) d) (opLocked op) (ssPoint ss) engines limit shut refused False (jobs d)"
      using offer_txn_rows [OF _ assms, of E ss op limit st] t by blast
    then have "core_any (jobs d) (jobs (osDB st))" unfolding core_any_def by (metis core_step.offered)
    moreover have "jobs (fst (Core_Dispatch.offerWork E ss op limit d)) = jobs (osDB st)"
      using t True by (simp add: Core_Dispatch.offerWork_def split: prod.splits)
    ultimately show ?thesis by (simp add: r_into_rtranclp)
  next
    case False
    then have "jobs (fst (Core_Dispatch.offerWork E ss op limit d)) = jobs d" using t by (auto simp: Core_Dispatch.offerWork_def)
    then show ?thesis by simp
  qed
qed

lemma core_any_append:
  "list_all (fresh_job now scan engine safe \<circ> snd) new \<Longrightarrow> distinct (map fst (rs @ new)) \<Longrightarrow> core_any\<^sup>*\<^sup>* rs (rs @ new)"
proof (induction new arbitrary: rs)
  case (Cons x new)
  obtain i j where x: "x = (i, j)" by (cases x)
  obtain ts where "j = newJob scan engine safe now ts" using Cons.prems(1) x by (auto simp: fresh_job_def)
  then have "core_any rs (rs @ [x])"
    using core_step.planned [of i rs now scan engine safe ts] Cons.prems(2) x by (auto simp: core_any_def)
  moreover have "core_any\<^sup>*\<^sup>* (rs @ [x]) ((rs @ [x]) @ new)" using Cons.prems by (intro Cons.IH) auto
  ultimately show ?case by simp
qed simp

lemma Renew_const:
  assumes "distinct (map fst rs)" "map_of rs i = Some j" "Renew now e sp ttl j = Some (j', l)"
  shows "updateRow i (\<lambda>_. Some j') rs = updateRow i (\<lambda>j. map_option fst (Renew now e sp ttl j)) rs"
proof -
  have "b = j" if b: "(i, b) \<in> set rs" for b
    using eq_key_imp_eq_value [OF assms(1) b map_of_SomeD [OF assms(2)]] .
  then show ?thesis using assms(3) by (auto simp: updateRow_def)
qed

lemma onLeaseRenewal_rows:
  assumes "distinct (map fst (jobs d))"
  shows "scans (fst (onLeaseRenewal E ss rn i e d)) = scans d" "policies (fst (onLeaseRenewal E ss rn i e d)) = policies d"
    "core_any\<^sup>*\<^sup>* (jobs d) (jobs (fst (onLeaseRenewal E ss rn i e d)))"
proof -
  show "scans (fst (onLeaseRenewal E ss rn i e d)) = scans d" "policies (fst (onLeaseRenewal E ss rn i e d)) = policies d"
    by (auto simp: onLeaseRenewal_def split: option.splits)
  have "jobs (fst (onLeaseRenewal E ss rn i e d)) \<in> {jobs d, onRenewal (rnDBNow rn) i e (ssPoint ss) (jobs d)}"
    using Renew_const [OF assms] by (auto simp: onLeaseRenewal_def onRenewal_def Option.bind_eq_Some_conv split: option.splits)
  then show "core_any\<^sup>*\<^sup>* (jobs d) (jobs (fst (onLeaseRenewal E ss rn i e d)))"
    by (auto intro: core_anys)
qed

lemma SettleIfDone_frame [simp]: "jobs (fst (SettleIfDone now i d)) = jobs d" "policies (fst (SettleIfDone now i d)) = policies d"
  by (auto simp: SettleIfDone_def Let_def split: option.splits)

lemma settleScanOf_frame [simp]: "jobs (settleScanOf now i d) = jobs d" "policies (settleScanOf now i d) = policies d"
  by (auto simp: settleScanOf_def split: option.splits)

lemma onTerminal_rows:
  "jobs (Core_Handlers.onTerminal ss now dbNow fails i e r inc detail z d)
     \<in> {jobs d, Core_Leases.onTerminal dbNow i e (ssPoint ss) (terminationReason r) inc (jobs d)}"
  "policies (Core_Handlers.onTerminal ss now dbNow fails i e r inc detail z d) = policies d"
  "scans (Core_Handlers.onTerminal ss now dbNow fails i e r inc detail z d)
     \<in> {scans d, scans (settleScanOf dbNow i (endJob dbNow i (ssPoint ss) (terminationReason r) inc d))}"
  by (auto simp: Core_Handlers.onTerminal_def Core_Leases.onTerminal_def Grants_MarkZeroised_def Let_def split: sum.splits)

lemma auditLost_frame [simp]:
  "scans (auditLost x d) = scans d" "jobs (auditLost x d) = jobs d" "policies (auditLost x d) = policies d"
  by (auto simp: auditLost_def split: prod.splits)

lemma sweepTenant_rows:
  "scans (sweepTenant now dbNow locked limit fails d) = scans d" "policies (sweepTenant now dbNow locked limit fails d) = policies d"
  "jobs (sweepTenant now dbNow locked limit fails d) = (if fails then jobs d else ExpireLeases dbNow locked limit (jobs d))"
proof -
  have f: "scans (fold auditLost xs x) = scans x" "policies (fold auditLost xs x) = policies x" "jobs (fold auditLost xs x) = jobs x" for xs x
    by (rule fold_frame, simp)+
  show "scans (sweepTenant now dbNow locked limit fails d) = scans d" "policies (sweepTenant now dbNow locked limit fails d) = policies d"
    "jobs (sweepTenant now dbNow locked limit fails d) = (if fails then jobs d else ExpireLeases dbNow locked limit (jobs d))"
    by (simp_all add: sweepTenant_def MarkStaleOffline_def f Let_def)
qed

lemma declare_loop_frame [simp]:
  "scans (declare_loop sp cs d) = scans d" "jobs (declare_loop sp cs d) = jobs d" "policies (declare_loop sp cs d) = policies d"
  by (induction sp cs d rule: declare_loop.induct) (auto simp: DeclareCapability_def Let_def)

lemma handshake_frame [frame]:
  "handshake E supported now fp v c caps d = Inr (d', ss) \<Longrightarrow> scans d' = scans d \<and> jobs d' = jobs d \<and> policies d' = policies d"
  by (auto simp: handshake_def Points_Heartbeat_def split: if_splits option.splits prod.splits)

lemma onHeartbeat_frame [simp]:
  "scans (onHeartbeat ss now d) = scans d" "jobs (onHeartbeat ss now d) = jobs d" "policies (onHeartbeat ss now d) = policies d"
  by (auto simp: onHeartbeat_def Points_Heartbeat_def split: option.splits)

lemma markOffline_frame [simp]:
  "scans (markOffline ss d) = scans d" "jobs (markOffline ss d) = jobs d" "policies (markOffline ss d) = policies d"
  by (auto simp: markOffline_def Points_SetStatus_def split: option.splits)

lemma acks_frame [simp]:
  "scans (onKillAck ss now k h d) = scans d" "jobs (onKillAck ss now k h d) = jobs d" "policies (onKillAck ss now k h d) = policies d"
  "scans (onCancelAck ss now i e h d) = scans d" "jobs (onCancelAck ss now i e h d) = jobs d" "policies (onCancelAck ss now i e h d) = policies d"
  by (auto simp: onKillAck_def Kill_Ack_def onCancelAck_def CancelAcks_Record_def split: option.splits sum.splits if_splits)

lemma Kill_Resolve_frame [frame]: "Kill_Resolve now k d = Some d' \<Longrightarrow> scans d' = scans d \<and> jobs d' = jobs d \<and> policies d' = policies d"
  by (auto simp: Kill_Resolve_def split: option.splits if_splits)

lemma Kill_Issue_frame [simp]: "jobs (Kill_Issue k now sc by1 why d) = jobs d" "policies (Kill_Issue k now sc by1 why d) = policies d"
  by (auto simp: Kill_Issue_def Let_def split: KillScope.splits option.splits)

lemma endScan_frame: "endScan now i to d = Some d' \<Longrightarrow> jobs d' = jobs d \<and> policies d' = policies d"
  by (auto simp: endScan_Some)

lemma operator_frame [frame]:
  "Scans_Create i now p ty by1 ts d = Inr d' \<Longrightarrow> jobs d' = jobs d \<and> policies d' = policies d"
  "Scans_Cancel now i actor why d = Inr d' \<Longrightarrow> jobs d' = jobs d \<and> policies d' = policies d"
  "Scans_Fail now i why d = Inr d' \<Longrightarrow> jobs d' = jobs d \<and> policies d' = policies d"
  "SetSafetyMode i m actor d = Inr d' \<Longrightarrow> jobs d' = jobs d \<and> policies d' = policies d"
  by (auto simp: Scans_Create_def Scans_Cancel_def Scans_Fail_def SetSafetyMode_def dest!: endScan_frame split: if_splits option.splits prod.splits)

text \<open>Every transaction is a run of transactions of the lease protocol on the jobs.\<close>

lemma db_step_rows:
  assumes "db_step E d d'" "distinct (map fst (jobs d))"
  shows "core_any\<^sup>*\<^sup>* (jobs d) (jobs d')"
  using assms(1)
proof cases
  case (planned i engine safe ids now n)
  from planned(2) show ?thesis
  proof (rule PlanScan_Inr)
    fix s new tasks
    assume "d' = d\<lparr>scans := upd i (startedScan now) (scans d), jobs := jobs d @ new\<rparr>" "list_all (fresh_job now i engine safe \<circ> snd) new"
    then show ?thesis using core_any_append planned(3) by simp
  qed
next
  case (offered ss op limit)
  then show ?thesis using offerWork_refines [OF assms(2)] by simp
next
  case (renewal ss rn i e)
  then show ?thesis using onLeaseRenewal_rows [OF assms(2)] by simp
next
  case (progress ss i)
  then have "core_any (jobs d) (jobs d')" unfolding core_any_def by (metis Core_Handlers.onProgress_def core_step.progress tenantDB.select_convs(2) tenantDB.surjective tenantDB.update_convs(2))
  then show ?thesis ..
next
  case (terminal ss now dbNow fails i e r incomplete detail zeroised)
  then show ?thesis using onTerminal_rows(1) [of ss now dbNow fails i e r incomplete detail zeroised d]
    by (auto intro: core_anys)
next
  case (reconciled i)
  then show ?thesis by (auto intro: core_anys)
next
  case (observed seen)
  then show ?thesis by (auto intro: core_anys)
next
  case (swept now dbNow locked limit fails)
  then show ?thesis by (auto simp: sweepTenant_rows intro: core_anys)
qed (auto dest: frame)

section \<open>Reachable states\<close>

lemma core_any_reach: "core_any\<^sup>*\<^sup>* rs rs' \<Longrightarrow> core_reach rs \<Longrightarrow> core_reach rs'"
  by (induction rule: rtranclp_induct) (auto simp: core_any_def intro: core_reach.stepped)

lemma core_reach_distinct: "core_reach rs \<Longrightarrow> distinct (map fst rs)"
  by (simp add: core_reach_inv)

lemma db_reach_rows: "db_reach E d \<Longrightarrow> core_reach (jobs d)"
proof (induction rule: db_reach.induct)
  case (empty ps sps prs)
  then show ?case by (simp add: core_reach.empty)
next
  case (stepped d d')
  then show ?case using db_step_rows core_any_reach core_reach_distinct by blast
qed

text \<open>A job is never lost, and what becomes of it is a run of the transactions on one job.\<close>

lemma core_any_job:
  assumes "core_any\<^sup>*\<^sup>* rs rs'" "distinct (map fst rs)" "map_of rs i = Some j"
  shows "distinct (map fst rs') \<and> (\<exists>j'. map_of rs' i = Some j' \<and> any_step\<^sup>*\<^sup>* j j')"
  using assms(1)
proof (induction rule: rtranclp_induct)
  case base
  then show ?case using assms by blast
next
  case (step rs1 rs2)
  obtain now j1 where s: "core_step now rs1 rs2" "map_of rs1 i = Some j1" "any_step\<^sup>*\<^sup>* j j1" "distinct (map fst rs1)"
    using step by (auto simp: core_any_def)
  obtain j2 where "map_of rs2 i = Some j2" "any_step\<^sup>*\<^sup>* j1 j2" using core_step_job [OF s(1,4,2)] by blast
  then show ?case using s core_step_keys [OF s(1,4)] rtranclp_trans [of any_step j j1 j2] by blast
qed

text \<open>Only planning adds jobs.\<close>

lemma offerWork_rows_keys: "distinct (map fst (jobs d)) \<Longrightarrow> map fst (jobs (fst (Core_Dispatch.offerWork E ss op limit d))) = map fst (jobs d)"
  using offer_txn_rows [of E ss op limit d] offerWork_keys
  by (fastforce simp: Core_Dispatch.offerWork_def split: prod.splits if_splits)

lemma core_ops_keys:
  "map fst (onRenewal now i e sp rs) = map fst rs" "map fst (Core_Leases.onTerminal now i e sp r inc rs) = map fst rs"
  "map fst (Core_Leases.onProgress i sp rs) = map fst rs" "map fst (ExpireLeases now locked limit rs) = map fst rs"
  "map fst (markRows seen rs) = map fst rs"
  by (auto simp: onRenewal_def Core_Leases.onTerminal_def Core_Leases.onProgress_def ExpireLeases_def markRows_def Let_def)

lemma onLeaseRenewal_keys: "map fst (jobs (fst (onLeaseRenewal E ss rn i e d))) = map fst (jobs d)"
  by (auto simp: onLeaseRenewal_def split: option.splits)

lemma onTerminal_keys: "map fst (jobs (Core_Handlers.onTerminal ss now dbNow fails i e r inc detail z d)) = map fst (jobs d)"
  using onTerminal_rows(1) [of ss now dbNow fails i e r inc detail z d] by (auto simp: core_ops_keys)

end
