(* ===== verification/Core_Wellformed.thy ===== *)
theory Core_Wellformed
  imports Core_System
begin

text \<open>
  What the rows of a tenant look like in every reachable state: keys, references between the tables, and
  the agreement of a scan's status with its timestamps and its jobs.
\<close>

section \<open>Well-formed rows\<close>

definition scan_ok :: "Job list \<Rightarrow> Scan \<Rightarrow> bool" where
  "scan_ok js s \<longleftrightarrow> scTargets s \<noteq> [] \<and> (scCancelRequested s \<noteq> None \<longrightarrow> scStatus s = ScanKilled) \<and>
     (case scStatus s of
        ScanPending \<Rightarrow> scStarted s = None \<and> scCompleted s = None \<and> js = []
      | ScanPlanning \<Rightarrow> False
      | ScanRunning \<Rightarrow> scStarted s \<noteq> None \<and> scCompleted s = None
      | ScanCompleted \<Rightarrow> scStarted s \<noteq> None \<and> scCompleted s \<noteq> None
          \<and> list_ex (\<lambda>j. Status j = JobCompleted) js \<and> \<not> list_ex activeJob js
      | _ \<Rightarrow> scCompleted s \<noteq> None)"

definition db_wf :: "tenantDB \<Rightarrow> bool" where
  "db_wf d \<longleftrightarrow> distinct (map fst (scans d)) \<and> distinct (map fst (jobs d))
     \<and> list_all (\<lambda>(i, s). scan_ok (scanJobs i d) s \<and> scPolicy s \<in> fst ` set (policies d)) (scans d)
     \<and> list_all (\<lambda>(i, j). jobTasks j \<noteq> [] \<and> ScanID j \<in> fst ` set (scans d)) (jobs d)"

lemma list_all_map_of:
  "distinct (map fst xs) \<Longrightarrow> list_all (\<lambda>(i, x). P i x) xs \<longleftrightarrow> (\<forall>i x. map_of xs i = Some x \<longrightarrow> P i x)"
  by (auto simp: list_all_iff)

lemma scanJobs_map_of:
  "distinct (map fst (jobs d)) \<Longrightarrow> j \<in> set (scanJobs i d) \<longleftrightarrow> (\<exists>k. map_of (jobs d) k = Some j \<and> ScanID j = i)"
  by (force simp: scanJobs_def)

lemma db_wf_alt:
  "db_wf d \<longleftrightarrow> distinct (map fst (scans d)) \<and> distinct (map fst (jobs d))
     \<and> (\<forall>i s. map_of (scans d) i = Some s \<longrightarrow> scan_ok (scanJobs i d) s \<and> scPolicy s \<in> fst ` set (policies d))
     \<and> (\<forall>i j. map_of (jobs d) i = Some j \<longrightarrow> jobTasks j \<noteq> [] \<and> ScanID j \<in> fst ` set (scans d))"
  unfolding db_wf_def by (auto simp: list_all_map_of)

section \<open>What a transaction leaves of a job\<close>

definition job_kept :: "Job \<Rightarrow> Job \<Rightarrow> bool" where
  "job_kept j j' \<longleftrightarrow> ScanID j' = ScanID j \<and> (jobTasks j' = [] \<longleftrightarrow> jobTasks j = []) \<and> (\<not> activeJob j \<longrightarrow> Status j' = Status j)"

lemma job_kept_refl [simp]: "job_kept j j"
  by (simp add: job_kept_def)

lemma job_kept_trans: "job_kept j1 j2 \<Longrightarrow> job_kept j2 j3 \<Longrightarrow> job_kept j1 j3"
  by (auto simp: job_kept_def activeJob_def)

lemma offerJob_kept: "Status j = JobQueued \<Longrightarrow> job_kept j (offerJob now sp refused (claimed sp j))"
  by (auto simp: job_kept_def activeJob_def offerJob_def Grant_def claimed_def Terminate_def endTasks_def Let_def split: option.splits if_splits)

lemma expireJob_kept: "job_kept j (expireJob now es j)"
  by (auto simp: job_kept_def activeJob_def expireJob_def endTasks_def Let_def)

lemma job_step_kept: "job_step now j j' \<Longrightarrow> job_kept j j'"
proof (erule job_step.cases, goal_cases)
  case 1
  then show ?case by (simp add: offerJob_kept)
next
  case 7
  then show ?case by (simp add: expireJob_kept)
qed (auto simp: job_kept_def activeJob_def Renew_def MarkRunning_def Terminate_def endTasks_def
       Release_def setState_def ReconcileTasksWithResults_def markObserved_def Let_def split: option.splits if_splits)

lemma any_steps_kept: "any_step\<^sup>*\<^sup>* j j' \<Longrightarrow> job_kept j j'"
  by (induction rule: rtranclp_induct) (auto simp: any_step_def intro: job_kept_trans job_step_kept)

text \<open>The rows of the jobs before and after, with the same keys.\<close>

definition rows_kept :: "rows \<Rightarrow> rows \<Rightarrow> bool" where
  "rows_kept rs rs' \<longleftrightarrow> map fst rs' = map fst rs \<and> (\<forall>i j. map_of rs i = Some j \<longrightarrow> (\<exists>j'. map_of rs' i = Some j' \<and> job_kept j j'))"

lemma rows_kept_refl [simp]: "rows_kept rs rs"
  by (auto simp: rows_kept_def)

lemma rows_keptI: "core_any\<^sup>*\<^sup>* rs rs' \<Longrightarrow> distinct (map fst rs) \<Longrightarrow> map fst rs' = map fst rs \<Longrightarrow> rows_kept rs rs'"
  unfolding rows_kept_def using core_any_job any_steps_kept by blast

lemma rows_kept_back:
  assumes "rows_kept rs rs'" "map_of rs' i = Some j'"
  shows "\<exists>j. map_of rs i = Some j \<and> job_kept j j'"
proof -
  have "i \<in> set (map fst rs)" using assms by (metis map_of_eq_None_iff option.distinct(1) rows_kept_def image_set)
  then obtain j where "map_of rs i = Some j" by (metis map_of_eq_None_iff not_Some_eq image_set)
  then show ?thesis using assms by (fastforce simp: rows_kept_def)
qed

lemma scan_ok_kept:
  assumes "rows_kept (jobs d) (jobs d')" "distinct (map fst (jobs d))" "scan_ok (scanJobs i d) s"
  shows "scan_ok (scanJobs i d') s"
proof -
  have k: "distinct (map fst (jobs d'))" using assms(1,2) by (simp add: rows_kept_def)
  have old: "\<exists>j. j \<in> set (scanJobs i d) \<and> job_kept j j'" if j': "j' \<in> set (scanJobs i d')" for j'
    using j' rows_kept_back [OF assms(1)] unfolding scanJobs_map_of [OF k] scanJobs_map_of [OF assms(2)] by (fastforce simp: job_kept_def)
  have new: "\<exists>j'. j' \<in> set (scanJobs i d') \<and> job_kept j j'" if j: "j \<in> set (scanJobs i d)" for j
    using j assms(1) unfolding scanJobs_map_of [OF k] scanJobs_map_of [OF assms(2)] rows_kept_def by (fastforce simp: job_kept_def)
  have "scanJobs i d' = []" if "scanJobs i d = []" using old that by (metis list.set_intros(1) neq_Nil_conv empty_iff list.set(1))
  moreover have "\<not> list_ex activeJob (scanJobs i d')" if "\<not> list_ex activeJob (scanJobs i d)"
    using old that by (fastforce simp: list_ex_iff job_kept_def activeJob_def)
  moreover have "list_ex (\<lambda>j. Status j = JobCompleted) (scanJobs i d')"
    if "list_ex (\<lambda>j. Status j = JobCompleted) (scanJobs i d)"
    using new that by (fastforce simp: list_ex_iff job_kept_def activeJob_def)
  ultimately show ?thesis using assms(3) by (auto simp: scan_ok_def split: ScanStatus.splits)
qed

text \<open>What every transaction leaves of a scan: what was asked for, and how it ended.\<close>

definition scan_kept :: "Scan \<Rightarrow> Scan \<Rightarrow> bool" where
  "scan_kept s s' \<longleftrightarrow> scPolicy s' = scPolicy s \<and> scType s' = scType s \<and> scTargets s' = scTargets s \<and> scCreated s' = scCreated s
     \<and> (scStatus s' = ScanPending \<longrightarrow> scStatus s = ScanPending)
     \<and> (\<not> openScan (scStatus s) \<longrightarrow> scStatus s' = scStatus s \<and> scCompleted s' = scCompleted s)"

definition wf_step :: "tenantDB \<Rightarrow> tenantDB \<Rightarrow> bool" where
  "wf_step d d' \<longleftrightarrow> db_wf d' \<and> (\<forall>i s. map_of (scans d) i = Some s \<longrightarrow> (\<exists>s'. map_of (scans d') i = Some s' \<and> scan_kept s s'))"

lemma scan_kept_refl [simp]: "scan_kept s s"
  by (simp add: scan_kept_def)

lemma scan_kept_trans: "scan_kept s1 s2 \<Longrightarrow> scan_kept s2 s3 \<Longrightarrow> scan_kept s1 s3"
  unfolding scan_kept_def by (elim conjE, intro conjI) (simp, simp, simp, simp, blast, metis)

lemma wf_step_trans: "wf_step d1 d2 \<Longrightarrow> wf_step d2 d3 \<Longrightarrow> wf_step d1 d3"
  unfolding wf_step_def using scan_kept_trans by blast

lemma wf_keys: "db_wf d \<Longrightarrow> distinct (map fst (jobs d))"
  by (simp add: db_wf_alt)

lemma wf_scan: "db_wf d \<Longrightarrow> map_of (scans d) i = Some s \<Longrightarrow> scan_ok (scanJobs i d) s"
  by (simp add: db_wf_alt)

lemma wf_kept:
  assumes "db_wf d" "scans d' = scans d" "fst ` set (policies d) \<subseteq> fst ` set (policies d')" "rows_kept (jobs d) (jobs d')"
  shows "wf_step d d'"
proof -
  note k = wf_keys [OF assms(1)]
  have "distinct (map fst (jobs d'))" using k assms(4) by (simp add: rows_kept_def)
  moreover have "jobTasks j' \<noteq> [] \<and> ScanID j' \<in> fst ` set (scans d)" if j': "map_of (jobs d') i = Some j'" for i j'
    using rows_kept_back [OF assms(4) j'] assms(1) by (auto simp: db_wf_alt job_kept_def)
  ultimately have "db_wf d'" using assms(1-3) scan_ok_kept [OF assms(4) k] by (auto simp: db_wf_alt)
  then show ?thesis using assms(2) by (auto simp: wf_step_def)
qed

lemma wf_same: "db_wf d \<Longrightarrow> scans d' = scans d \<Longrightarrow> jobs d' = jobs d \<Longrightarrow> policies d' = policies d \<Longrightarrow> wf_step d d'"
  by (rule wf_kept) auto

lemma wf_rows:
  "db_wf d \<Longrightarrow> scans d' = scans d \<Longrightarrow> policies d' = policies d \<Longrightarrow> core_any\<^sup>*\<^sup>* (jobs d) (jobs d') \<Longrightarrow> map fst (jobs d') = map fst (jobs d) \<Longrightarrow> wf_step d d'"
  using wf_kept rows_keptI wf_keys by simp

section \<open>What a transaction makes of a scan\<close>

lemma wf_scan_step:
  assumes "db_wf d" "\<And>s. map_of (scans d) i = Some s \<Longrightarrow> scan_ok (scanJobs i d) (f s) \<and> scan_kept s (f s)"
    "scans d' = upd i f (scans d)" "jobs d' = jobs d" "policies d' = policies d"
  shows "wf_step d d'"
proof -
  have "scanJobs k d' = scanJobs k d" for k using assms(4) by (simp add: scanJobs_def)
  moreover have "map_of (scans d') k = (if k = i then map_option f (map_of (scans d) k) else map_of (scans d) k)" for k
    by (simp add: assms(3) map_of_upd)
  moreover have "scPolicy (f s) = scPolicy s" if "map_of (scans d) i = Some s" for s
    using assms(2) [OF that] by (simp add: scan_kept_def)
  ultimately show ?thesis
    using assms(1,2) unfolding wf_step_def db_wf_alt assms(4,5) by (auto simp: assms(3))
qed

lemma endScan_wf:
  assumes "db_wf d" "endScan now i to d = Some d1" "to \<in> {ScanFailed, ScanCancelled, ScanKilled}"
    "scans d' = scans d1" "jobs d' = jobs d1" "policies d' = policies d1"
  shows "wf_step d d'"
proof -
  have "d1 = d\<lparr>scans := upd i (\<lambda>s. s\<lparr>scStatus := to, scCompleted := Some now\<rparr>) (scans d)\<rparr>" "\<forall>s. map_of (scans d) i = Some s \<longrightarrow> openScan (scStatus s)"
    using assms(2) by (auto simp: endScan_Some)
  then show ?thesis using assms(3-) wf_scan [OF assms(1)]
    by (intro wf_scan_step [OF assms(1)]) (auto simp: scan_ok_def scan_kept_def openScan_def)
qed

lemma SettleIfDone_wf:
  assumes "db_wf d"
  shows "wf_step d (fst (SettleIfDone now i d))"
proof -
  let ?st = "if list_ex (\<lambda>j. Status j = JobCompleted) (scanJobs i d) then ScanCompleted else ScanFailed"
  show ?thesis
  proof (cases "\<exists>s. map_of (scans d) i = Some s \<and> scStatus s = ScanRunning \<and> scanJobs i d \<noteq> [] \<and> \<not> list_ex activeJob (scanJobs i d)")
    case True
    then have "fst (SettleIfDone now i d) = d\<lparr>scans := upd i (\<lambda>s. s\<lparr>scStatus := ?st, scCompleted := Some now\<rparr>) (scans d)\<rparr>"
      by (auto simp: SettleIfDone_def Let_def)
    then show ?thesis using True wf_scan [OF assms, of i]
      by (intro wf_scan_step [OF assms]) (auto simp: scan_ok_def scan_kept_def openScan_def split: ScanStatus.splits)
  next
    case False
    then have "fst (SettleIfDone now i d) = d"
      using wf_scan [OF assms] by (fastforce simp: SettleIfDone_def scan_ok_def split: option.splits)
    then show ?thesis using assms by (simp add: wf_same)
  qed
qed

lemma settleScanOf_wf: "db_wf d \<Longrightarrow> wf_step d (settleScanOf now i d)"
  by (auto simp: settleScanOf_def SettleIfDone_wf wf_same split: option.splits)

lemma Kill_Issue_wf:
  assumes "db_wf d"
  shows "wf_step d (Kill_Issue k now sc by1 why d)"
proof (cases "\<exists>i s. sc = KillScan i \<and> map_of (scans d) i = Some s \<and> openScan (scStatus s)")
  case True
  then obtain i s where i: "sc = KillScan i" "map_of (scans d) i = Some s" "openScan (scStatus s)" by blast
  show ?thesis
    by (rule wf_scan_step [OF assms, of i "\<lambda>r. r\<lparr>scStatus := ScanKilled, scCompleted := Some now,
          scCancelRequested := Some (case scCancelRequested r of None \<Rightarrow> now | Some t \<Rightarrow> t)\<rparr>"])
      (use i wf_scan [OF assms i(2)] in \<open>auto simp: Kill_Issue_def scan_ok_def scan_kept_def\<close>)
next
  case False
  then have "scans (Kill_Issue k now sc by1 why d) = scans d" by (auto simp: Kill_Issue_def Let_def split: KillScope.splits option.splits)
  then show ?thesis using assms by (simp add: wf_same)
qed

lemma Scans_Create_wf:
  assumes "db_wf d" "i \<notin> fst ` set (scans d)" "Scans_Create i now p ty by1 ts d = Inr d'"
  shows "wf_step d d'"
proof -
  obtain s where s: "d' = d\<lparr>scans := scans d @ [(i, s)]\<rparr>" "scStatus s = ScanPending" "scStarted s = None" "scCompleted s = None" "scCancelRequested s = None" "scTargets s \<noteq> []"
    "scPolicy s \<in> fst ` set (policies d)"
    using assms(3) by (auto simp: Scans_Create_def split: if_splits) (force dest: map_of_SomeD)
  have j: "scanJobs k d' = scanJobs k d" for k using s(1) by (simp add: scanJobs_def)
  have "scanJobs i d = []" using assms(1,2) by (auto simp: db_wf_def scanJobs_def list_all_iff filter_empty_conv)
  moreover have "map_of (scans d) i = None" using assms(2) by (simp add: map_of_eq_None_iff)
  ultimately show ?thesis
    using assms(1,2) s j unfolding wf_step_def db_wf_def by (auto simp: scan_ok_def list_all_iff split: option.splits)
qed

lemma PlanScan_wf:
  assumes "db_wf d" "PlanScan u g ids now scan engine safe d = Some (Inr (d', n))" "distinct (map fst (jobs d'))"
  shows "wf_step d d'"
  using assms(2)
proof (rule PlanScan_Inr)
  fix s new tasks
  assume p: "map_of (scans d) scan = Some s" "scStatus s = ScanPending" "d' = d\<lparr>scans := upd scan (startedScan now) (scans d), jobs := jobs d @ new\<rparr>"
    "list_all (fresh_job now scan engine safe \<circ> snd) new"
  have f: "ScanID j = scan \<and> jobTasks j \<noteq> []" if "(i, j) \<in> set new" for i j
    using p(4) that by (auto simp: list_all_iff fresh_job_def newJob_def)
  have o: "scanJobs k d' = scanJobs k d" if "k \<noteq> scan" for k using p(3) f that by (auto simp: scanJobs_def filter_empty_conv)
  have s: "scan_ok js (startedScan now s) \<and> scan_kept s (startedScan now s)" for js
    using wf_scan [OF assms(1) p(1)] p(2) by (auto simp: startedScan_def scan_ok_def scan_kept_def openScan_def)
  have "scan_ok (scanJobs k d') t' \<and> scPolicy t' \<in> fst ` set (policies d)" if t: "map_of (scans d') k = Some t'" for k t'
    using t o [of k] s p(1,3) assms(1) by (cases "k = scan") (auto simp: map_of_upd db_wf_alt scan_kept_def)
  moreover have "jobTasks j \<noteq> [] \<and> ScanID j \<in> fst ` set (scans d)" if "map_of (jobs d') k = Some j" for k j
  proof -
    have "(k, j) \<in> set new \<or> map_of (jobs d) k = Some j" using that p(3) by (auto simp: map_add_Some_iff dest: map_of_SomeD)
    moreover have "scan \<in> fst ` set (scans d)" using map_of_SomeD [OF p(1)] by force
    ultimately show ?thesis using f assms(1) by (auto simp: db_wf_alt)
  qed
  ultimately have "db_wf d'" using assms(1,3) p(3) by (simp add: db_wf_alt)
  then show ?thesis using s p(1,3) by (auto simp: wf_step_def map_of_upd)
qed

lemma endJob_wf: "db_wf d \<Longrightarrow> wf_step d (endJob now i sp r inc d)"
  by (rule wf_kept) (auto simp: rows_kept_def updateRow_def map_of_rows split: option.splits intro!: job_step_kept job_step.terminate)

lemma release_wf: "db_wf d \<Longrightarrow> wf_step d (d\<lparr>jobs := updateRow i (Core_Leases.Release e sp LeaseReleased) (jobs d)\<rparr>)"
  by (rule wf_kept) (auto simp: rows_kept_def updateRow_def map_of_rows split: option.splits intro!: job_step_kept job_step.release)

lemma onTerminal_wf:
  assumes "db_wf d"
  shows "wf_step d (Core_Handlers.onTerminal ss now dbNow fails i e r inc detail z d)"
proof -
  let ?d2 = "settleScanOf dbNow i (endJob dbNow i (ssPoint ss) (terminationReason r) inc d)"
  let ?d3 = "?d2\<lparr>jobs := updateRow i (Core_Leases.Release e (ssPoint ss) LeaseReleased) (jobs ?d2)\<rparr>"
  have w: "wf_step d ?d3"
    using endJob_wf [OF assms] settleScanOf_wf release_wf wf_step_trans by (meson wf_step_def)
  show ?thesis
  proof (cases "fails \<or> z \<and> ssFingerprint ss = []")
    case True
    then have "Core_Handlers.onTerminal ss now dbNow fails i e r inc detail z d = d"
      by (auto simp: Core_Handlers.onTerminal_def Grants_MarkZeroised_def Let_def)
    then show ?thesis using wf_same [OF assms] by simp
  next
    case False
    let ?d' = "Core_Handlers.onTerminal ss now dbNow fails i e r inc detail z d"
    have "scans ?d' = scans ?d3" "jobs ?d' = jobs ?d3" "policies ?d' = policies ?d3"
      using False by (auto simp: Core_Handlers.onTerminal_def Grants_MarkZeroised_def Let_def)
    then show ?thesis using w wf_same wf_step_trans by (meson wf_step_def)
  qed
qed

lemma db_step_wf:
  assumes "db_step E d d'" "db_wf d"
  shows "wf_step d d'"
  using assms(1)
proof cases
  case (offered ss op limit)
  then show ?thesis
    using offerWork_refines offerWork_rows_keys wf_keys [OF assms(2)] by (simp add: wf_rows [OF assms(2)])
next
  case (renewal ss rn i e)
  then show ?thesis
    using onLeaseRenewal_rows wf_keys [OF assms(2)] onLeaseRenewal_keys by (simp add: wf_rows [OF assms(2)])
next
  case (progress ss i)
  then show ?thesis
    by (intro wf_rows [OF assms(2)]) (auto simp: Core_Handlers.onProgress_def core_ops_keys intro!: core_anys)
next
  case (reconciled i)
  then show ?thesis by (intro wf_rows [OF assms(2)]) (auto intro!: core_anys)
next
  case (observed seen)
  then show ?thesis by (intro wf_rows [OF assms(2)]) (auto simp: core_ops_keys intro!: core_anys)
next
  case (swept now dbNow locked limit fails)
  then show ?thesis by (intro wf_rows [OF assms(2)]) (auto simp: sweepTenant_rows core_ops_keys intro!: core_anys)
next
  case (edited ps prs sps)
  then show ?thesis by (intro wf_kept [OF assms(2)]) auto
next
  case (mode_set i m actor)
  then show ?thesis
    using wf_scan [OF assms(2), of i] by (intro wf_scan_step [OF assms(2), of i "\<lambda>s. s\<lparr>scSafety := m\<rparr>"])
      (auto simp: SetSafetyMode_def scan_ok_def scan_kept_def split: option.splits if_splits)
next
  case (cancelled now i actor why)
  then show ?thesis using endScan_wf [OF assms(2)] by (auto simp: Scans_Cancel_def split: option.splits)
next
  case (plan_failed now i why)
  then show ?thesis using endScan_wf [OF assms(2)] by (auto simp: Scans_Fail_def split: option.splits)
next
  case (planned i engine safe ids now n)
  then show ?thesis using PlanScan_wf [OF assms(2)] by blast
qed (use assms(2) in \<open>auto intro: Scans_Create_wf Kill_Issue_wf onTerminal_wf wf_same dest: frame\<close>)

lemma db_reach_wf: "db_reach E d \<Longrightarrow> db_wf d"
proof (induction rule: db_reach.induct)
  case (stepped d d')
  then show ?case using db_step_wf by (simp add: wf_step_def)
qed (simp add: db_wf_def)

lemma db_steps_wf: "(db_step E)\<^sup>*\<^sup>* d d' \<Longrightarrow> db_wf d \<Longrightarrow> wf_step d d'"
proof (induction rule: rtranclp_induct)
  case (step d1 d2)
  then show ?case using db_step_wf wf_step_trans by (meson wf_step_def)
qed (simp add: wf_same)

section \<open>Properties\<close>


text \<open>
  C18. Whatever happens later, a scan keeps its policy, its type and its targets, and one that has ended
  keeps the status it ended with and the time it ended at.
\<close>

theorem scan_outcome_final:
  assumes "db_reach E d" "(db_step E)\<^sup>*\<^sup>* d d'" "map_of (scans d) i = Some s"
  shows "\<exists>s'. map_of (scans d') i = Some s' \<and> scPolicy s' = scPolicy s \<and> scType s' = scType s \<and> scTargets s' = scTargets s
    \<and> (\<not> openScan (scStatus s) \<longrightarrow> scStatus s' = scStatus s \<and> scCompleted s' = scCompleted s)"
  using db_steps_wf [OF assms(2) db_reach_wf [OF assms(1)]] assms(3) unfolding wf_step_def scan_kept_def by blast

text \<open>
  C6. The transactions of the system implement the lease protocol: each of them is a run of transactions of
  that protocol on the rows of the jobs, so every state of the system is one the protocol can reach.
\<close>

theorem system_refines_leases:
  assumes "db_reach E d" "db_step E d d'"
  shows "core_reach (jobs d) \<and> core_any\<^sup>*\<^sup>* (jobs d) (jobs d') \<and> core_reach (jobs d')"
  using assms db_reach_rows db_step_rows core_reach_distinct db_reach.stepped by blast

section \<open>Witnesses\<close>

definition ex_policyRow :: Policy where
  "ex_policyRow = \<lparr>plName = ''p'', plSafety = SafetySafeMode, plRate = Some 5, plConcurrent = None, plWindows = [], plEngines = [''discovery''], plZones = [],
     plRules = [(0, \<lparr>Effect = ScopeAllow, MatchType = MatchHostname, MatchValue = ''ab''\<rparr>)]\<rparr>"

definition ex_env :: coreEnv where
  "ex_env = \<lparr>ceURL = (\<lambda>_. None), ceDigit = (\<lambda>_. False), ceDecode = (\<lambda>_. Some []), ceZone = (\<lambda>_. None), ceArrayLen = (\<lambda>_. 0),
     ceCollate = (\<lambda>_. 0), ceUuid = (\<lambda>_. []), ceCore = \<lparr>addrs = []\<rparr>, ceSecrets = None, ceObserved = (\<lambda>_. [])\<rparr>"

definition ex_created :: tenantDB where
  "ex_created = \<lparr>scans = [(2, ex_scan)], jobs = [], policies = [(4, ex_policyRow)], kills = [], cancels = [], points = [], sshProfiles = [],
     grants = [], audit = []\<rparr>"

lemma ex_created_reach: "db_reach E ex_created"
proof -
  let ?d = "\<lparr>scans = [], jobs = [], policies = [(4, ex_policyRow)], kills = [], cancels = [], points = [], sshProfiles = [], grants = [], audit = []\<rparr>"
  have "Scans_Create 2 0 4 ''discovery'' None [ex_target] ?d = Inr ex_created"
    by (simp add: Scans_Create_def ex_created_def ex_scan_def ex_target_def)
  then show ?thesis by (intro db_reach.stepped [OF db_reach.empty db_step.created]) auto
qed

definition ex_cancelled :: tenantDB where
  "ex_cancelled = (case Scans_Cancel 50 2 None [] ex_created of Inr d \<Rightarrow> d | Inl _ \<Rightarrow> ex_created)"

lemma ex_cancel: "Scans_Cancel 50 2 None [] ex_created = Inr ex_cancelled"
  by (simp add: ex_cancelled_def Scans_Cancel_def endScan_def ex_created_def ex_scan_def openScan_def)

lemma ex_cancelled_reach: "db_reach E ex_cancelled"
  by (rule db_reach.stepped [OF ex_created_reach db_step.cancelled [OF ex_cancel]])

lemma ex_cancelled_scan: "\<exists>s. map_of (scans ex_cancelled) 2 = Some s \<and> scStatus s = ScanCancelled"
  by (simp add: ex_cancelled_def Scans_Cancel_def endScan_def ex_created_def ex_scan_def openScan_def upd_def)


theorem scan_outcome_final_witness:
  "\<exists>s. map_of (scans ex_created) 2 = Some s \<and> (\<exists>s'. map_of (scans ex_cancelled) 2 = Some s' \<and> scTargets s' = scTargets s)"
proof -
  have s: "map_of (scans ex_created) 2 = Some ex_scan" by (simp add: ex_created_def)
  have "db_step ex_env ex_created ex_cancelled" by (rule db_step.cancelled [OF ex_cancel])
  then show ?thesis using scan_outcome_final [OF ex_created_reach r_into_rtranclp s] s by blast
qed

theorem system_refines_leases_witness: "core_reach (jobs ex_created) \<and> core_any\<^sup>*\<^sup>* (jobs ex_created) (jobs ex_cancelled)"
  using system_refines_leases [OF ex_created_reach [of ex_env] db_step.cancelled [OF ex_cancel]] by simp

end
