(* ===== verification/Core_Offers.thy ===== *)
theory Core_Offers
  imports Core_Wellformed
begin

text \<open>
  What the offer of work guarantees about the assignments and the credentials it puts on a stream.
\<close>

section \<open>One job\<close>

text \<open>The checks that an assignment has passed, against the rows \<open>d\<close>.\<close>

definition taskCleared :: "coreEnv \<Rightarrow> WireConstraints \<Rightarrow> TaskRow \<Rightarrow> bool" where
  "taskCleared E c t \<longleftrightarrow>
     (case Matches (ceURL E) (ceDigit E) (taskTarget t) of (canon, canonical) \<Rightarrow>
        canonical \<and> \<not> coreContains (ceCore E) canon \<and> fst (Permits canon (wcAllowed c) (wcExclusions c)))"

definition cleared :: "coreEnv \<Rightarrow> time \<Rightarrow> tenantDB \<Rightarrow> JobAssignment \<Rightarrow> pendingGrant option \<Rightarrow> bool" where
  "cleared E now d a g \<longleftrightarrow>
     (\<exists>j ts pid p m rules. map_of (jobs d) (waJob a) = Some j \<and> Jobs_Tasks (waJob a) d = Inr ts
        \<and> ForJob (waJob a) d = Some (pid, p, m) \<and> ScopeRules (ceCollate E) pid d = Inr rules
        \<and> constraintsFor (ceDecode E) (ceZone E) (Some (jobPolicy p m)) rules now = Inr (waConstraints a)
        \<and> list_all (taskCleared E (waConstraints a)) ts
        \<and> waEngine a = Engine j \<and> waEpoch a = maxEpoch (leases j) + 1 \<and> waTasks a = map (\<lambda>t. (taskID t, taskTarget t, taskFragile t)) ts
        \<and> (case g of None \<Rightarrow> Engine j \<noteq> ''host''
           | Some g \<Rightarrow> Engine j = ''host'' \<and> pgJob g = waJob a \<and> cgJob (pgGrant g) = waJob a \<and> cgScope (pgGrant g) = map taskTarget ts
               \<and> \<not> pgQueued g \<and> pgUndelivered g = None))"

lemma checkTask_None: "checkTask E c t = None \<longleftrightarrow> taskCleared E c t"
  by (auto simp: checkTask_def taskCleared_def case_prod_beta)

lemma checkTasks_None: "checkTasks E c ts = None \<longleftrightarrow> list_all (taskCleared E c) ts"
  by (induction ts) (auto split: option.splits simp: checkTask_None [symmetric])

lemma credentialedAssignment_Inr:
  "credentialedAssignment E ss now g i scan ts w d = Inr (d', p, w') \<Longrightarrow>
     jobs d' = jobs d \<and> pgJob p = i \<and> cgJob (pgGrant p) = i \<and> cgScope (pgGrant p) = map taskTarget ts \<and> \<not> pgQueued p \<and> pgUndelivered p = None
     \<and> waJob w' = waJob w \<and> waEngine w' = waEngine w \<and> waEpoch w' = waEpoch w \<and> waTasks w' = waTasks w \<and> waConstraints w' = waConstraints w"
  by (auto simp: credentialedAssignment_def Grants_Issue_def Let_def split: option.splits if_splits sum.splits)

lemma Grant_Jobs_Tasks:
  assumes "map_of (jobs d) i = Some j"
  shows "Jobs_Tasks i (d\<lparr>jobs := updateRow i (\<lambda>_. Some (fst (Grant now sp ttl j))) (jobs d)\<rparr>) = Jobs_Tasks i d"
    "ForJob i (d\<lparr>jobs := updateRow i (\<lambda>_. Some (fst (Grant now sp ttl j))) (jobs d)\<rparr>) = ForJob i d"
  using assms by (simp_all add: Jobs_Tasks_def ForJob_def updateRow_def map_of_rows Grant_def Let_def)

text \<open>Either nothing is offered, or one assignment that has passed the checks, and then the job holds its lease.\<close>

lemma offer_one_offers:
  assumes "offer_one E ss op i st = Inr st'"
  shows "osOffers st' = osOffers st \<or>
    (\<exists>a g. osOffers st' = osOffers st @ [(a, g)] \<and> waJob a = i \<and> cleared E (opNow op) (osDB st) a g
       \<and> map_of (jobs (osDB st')) i = map_option (\<lambda>j. fst (Grant (opDBNow op) (ssPoint ss) LeaseTTL j)) (map_of (jobs (osDB st)) i))"
proof -
  obtain j where j: "map_of (jobs (osDB st)) i = Some j"
    using assms by (auto simp: offer_one_def split: option.splits)
  obtain j' l where l: "Grant (opDBNow op) (ssPoint ss) LeaseTTL j = (j', l)" by (cases "Grant (opDBNow op) (ssPoint ss) LeaseTTL j")
  define d where "d = (osDB st)\<lparr>jobs := updateRow i (\<lambda>_. Some j') (jobs (osDB st))\<rparr>"
  have g: "Jobs_Tasks i d = Jobs_Tasks i (osDB st)" "ForJob i d = ForJob i (osDB st)" "ScopeRules col pid d = ScopeRules col pid (osDB st)" for col pid
    using Grant_Jobs_Tasks [OF j, of "opDBNow op" "ssPoint ss" LeaseTTL] l by (simp_all add: d_def ScopeRules_def)
  have r: "map_of (jobs d) i = Some j'" using j by (simp add: d_def updateRow_def map_of_rows)
  have e: "Epoch l = maxEpoch (leases j) + 1" using l by (auto simp: Grant_def Let_def)
  note * = assms [unfolded offer_one_def j option.case l prod.case Let_def, folded d_def]
  show ?thesis
  proof (cases "osOffers st' = osOffers st")
    case False
    then obtain ts pid p m rules c where ok: "Jobs_Tasks i d = Inr ts" "ForJob i d = Some (pid, p, m)" "ScopeRules (ceCollate E) pid d = Inr rules"
      "constraintsFor (ceDecode E) (ceZone E) (Some (jobPolicy p m)) rules (opNow op) = Inr c" "checkTasks E c ts = None"
      "assign E ss op i j l pid p ts c (auditIntrusive i j (ssPoint ss) pid p m c d) st = Inr st'"
      using * by (auto split: sum.splits option.splits prod.splits)
    then show ?thesis
      using False j l r g e unfolding assign_def Let_def cleared_def
      by (auto simp: wireFor_def checkTasks_None refuseCredentialedJob_def split: if_splits sum.splits credentialError.splits prod.splits
          dest!: credentialedAssignment_Inr)
  qed simp
qed


section \<open>One pass\<close>

lemma cleared_frame:
  assumes "scans d' = scans d" "policies d' = policies d" "map_of (jobs d') (waJob a) = map_of (jobs d) (waJob a)"
  shows "cleared E now d' a g \<longleftrightarrow> cleared E now d a g"
  unfolding cleared_def Jobs_Tasks_def ForJob_def ScopeRules_def assms ..

lemma claimed_sels:
  "Engine (claimed sp j) = Engine j" "leases (claimed sp j) = leases j" "jobTasks (claimed sp j) = jobTasks j" "ScanID (claimed sp j) = ScanID j"
  by (simp_all add: claimed_def)

lemma cleared_claimed:
  assumes "scans d' = scans d" "policies d' = policies d" "map_of (jobs d) (waJob a) = Some j" "map_of (jobs d') (waJob a) = Some (claimed sp j)"
  shows "cleared E now d' a g \<longleftrightarrow> cleared E now d a g"
  unfolding cleared_def Jobs_Tasks_def ForJob_def ScopeRules_def assms by (cases g) (simp_all add: claimed_sels)

lemma offer_loop_offers:
  assumes "offer_loop E ss op is st = (st', None)" "distinct (map fst (jobs (osDB st)))" "distinct is"
  shows "\<exists>new. osOffers st' = osOffers st @ new \<and> (\<forall>(a, g) \<in> set new. waJob a \<in> set is \<and> cleared E (opNow op) (osDB st) a g
    \<and> map_of (jobs (osDB st')) (waJob a)
        = map_option (\<lambda>j. fst (Grant (opDBNow op) (ssPoint ss) LeaseTTL j)) (map_of (jobs (osDB st)) (waJob a)))"
  using assms
proof (induction "is" arbitrary: st)
  case (Cons i "is")
  obtain st1 where s1: "offer_one E ss op i st = Inr st1" and l: "offer_loop E ss op is st1 = (st', None)"
    using Cons.prems(1) by (auto split: sum.splits if_splits)
  obtain r where r: "jobs (osDB st1) = updateRow i (\<lambda>j. Some (offerJob (opDBNow op) (ssPoint ss) r j)) (jobs (osDB st))"
    "scans (osDB st1) = scans (osDB st)" "policies (osDB st1) = policies (osDB st)"
    using offer_one_rows [OF s1 Cons.prems(2)] by blast
  have k: "distinct (map fst (jobs (osDB st1)))" using r(1) Cons.prems(2) by simp
  obtain new where new: "osOffers st' = osOffers st1 @ new" "\<forall>(a, g) \<in> set new. waJob a \<in> set is \<and> cleared E (opNow op) (osDB st1) a g
    \<and> map_of (jobs (osDB st')) (waJob a)
        = map_option (\<lambda>j. fst (Grant (opDBNow op) (ssPoint ss) LeaseTTL j)) (map_of (jobs (osDB st1)) (waJob a))"
    using Cons.IH [OF l k] Cons.prems(3) by auto
  have other: "map_of (jobs (osDB st1)) k = map_of (jobs (osDB st)) k" if "k \<noteq> i" for k
    using that by (simp add: r(1) updateRow_def map_of_rows option.map_ident)
  have tail: "\<forall>(a, g) \<in> set new. waJob a \<in> set (i # is) \<and> cleared E (opNow op) (osDB st) a g
    \<and> map_of (jobs (osDB st')) (waJob a)
        = map_option (\<lambda>j. fst (Grant (opDBNow op) (ssPoint ss) LeaseTTL j)) (map_of (jobs (osDB st)) (waJob a))"
    using new(2) other cleared_frame [OF r(2,3)] Cons.prems(3) by fastforce
  have keep: "map_of (jobs (osDB st')) i = map_of (jobs (osDB st1)) i"
  proof -
    obtain refused where "jobs (osDB st') = map (\<lambda>(i, j). (i, if i \<in> set is then offerJob (opDBNow op) (ssPoint ss) (refused i) j else j)) (jobs (osDB st1))"
      using offer_loop_rows [OF l k] Cons.prems(3) by auto
    then show ?thesis using Cons.prems(3) by (simp add: map_of_rows option.map_ident)
  qed
  from offer_one_offers [OF s1] show ?case
  proof
    assume "osOffers st1 = osOffers st"
    then show ?thesis using new(1) tail by auto
  next
    assume "\<exists>a g. osOffers st1 = osOffers st @ [(a, g)] \<and> waJob a = i \<and> cleared E (opNow op) (osDB st) a g
       \<and> map_of (jobs (osDB st1)) i = map_option (\<lambda>j. fst (Grant (opDBNow op) (ssPoint ss) LeaseTTL j)) (map_of (jobs (osDB st)) i)"
    then show ?thesis using new(1) tail keep by auto
  qed
qed simp

lemma send_offers_jobs: "MsgJob a \<in> set (fst (send_offers room n os)) \<Longrightarrow> \<exists>g. (a, g) \<in> set os"
  by (induction room n os rule: send_offers.induct) (auto simp: case_prod_beta split: if_splits)

text \<open>An assignment on the stream: the job was claimable, it has passed the checks and holds the lease that is sent.\<close>

lemma offerWork_assigned:
  assumes "distinct (map fst (jobs d))" "Core_Dispatch.offerWork E ss op limit d = (d', ms, gs)" "MsgJob a \<in> set ms"
  shows "\<exists>j g shut. map_of (jobs d) (waJob a) = Some j \<and> windowClosedPolicies E (opNow op) d = Inr shut
    \<and> claimable (claimDB (ceUuid E) d) (ssPoint ss) (enabledEngines (ssPoint ss) d) shut j \<and> cleared E (opNow op) d a g
    \<and> map_option leases (map_of (jobs d') (waJob a)) = Some (leases (fst (Grant (opDBNow op) (ssPoint ss) LeaseTTL j)))"
proof -
  obtain st where t: "offer_txn E ss op limit d = (st, None)" "ms = fst (send_offers (opRoom op) 0 (osOffers st))" and d': "jobs d' = jobs (osDB st)"
    using assms(2,3) by (auto simp: Core_Dispatch.offerWork_def split: prod.splits if_splits)
  obtain g where g: "(a, g) \<in> set (osOffers st)" using send_offers_jobs assms(3) t(2) by blast
  let ?c = "claimDB (ceUuid E) d" and ?en = "enabledEngines (ssPoint ss) d"
  obtain shut ids rs where w: "windowClosedPolicies E (opNow op) d = Inr shut"
    and c: "Claim ?c (opLocked op) (ssPoint ss) ?en limit shut (jobs d) = (ids, rs)"
    and l: "offer_loop E ss op ids \<lparr>osDB = d\<lparr>jobs := rs\<rparr>, osOffers = [], osRefusals = []\<rparr> = (st, None)"
    using t(1) g by (auto simp: offer_txn_def Let_def split: sum.splits prod.splits if_splits)
  have k: "distinct ids" "map fst rs = map fst (jobs d)"
    using Claim_distinct [OF assms(1), of ?c "opLocked op" "ssPoint ss" ?en limit shut]
      Claim_keys [of ?c "opLocked op" "ssPoint ss" ?en limit shut "jobs d"] c by simp_all
  have o: "waJob a \<in> set ids" "cleared E (opNow op) (d\<lparr>jobs := rs\<rparr>) a g"
    "map_of (jobs d') (waJob a) = map_option (\<lambda>j. fst (Grant (opDBNow op) (ssPoint ss) LeaseTTL j)) (map_of rs (waJob a))"
    using offer_loop_offers [OF l] k assms(1) g d' by auto
  obtain j where j: "map_of (jobs d) (waJob a) = Some j"
  proof -
    obtain x where "map_of rs (waJob a) = Some x" using o(2) by (auto simp: cleared_def)
    then have "waJob a \<in> set (map fst rs)" by (auto dest!: map_of_SomeD intro!: rev_image_eqI)
    then show thesis using that k(2) by (cases "map_of (jobs d) (waJob a)") (auto simp: map_of_eq_None_iff)
  qed
  have cl: "map_of rs (waJob a) = Some (claimed (ssPoint ss) j)" "claimable ?c (ssPoint ss) ?en shut j"
    using Claim_ids [OF c assms(1) j] o(1) by simp_all
  have "cleared E (opNow op) d a g"
    by (rule cleared_claimed [THEN iffD1, OF _ _ j _ o(2), of "ssPoint ss"]) (simp_all add: cl(1))
  moreover have "map_option leases (map_of (jobs d') (waJob a)) = Some (leases (fst (Grant (opDBNow op) (ssPoint ss) LeaseTTL j)))"
    unfolding o(3) cl(1) by (simp add: Grant_def claimed_def Let_def)
  ultimately show ?thesis using j cl(2) w by blast
qed

section \<open>Credentials\<close>

text \<open>A credential on the stream directly follows the assignment it is for, and names its targets.\<close>

fun paired :: "CoreMessage list \<Rightarrow> bool" where
  "paired (MsgJob a # MsgCredential c # ms) \<longleftrightarrow> waEngine a = ''host'' \<and> cgJob c = waJob a \<and> cgScope c = map (\<lambda>(i, t, f). t) (waTasks a) \<and> paired ms"
| "paired (MsgCredential c # ms) \<longleftrightarrow> False"
| "paired (m # ms) \<longleftrightarrow> paired ms"
| "paired [] \<longleftrightarrow> True"

text \<open>A grant afterwards: on the stream, or without its secret and with a reason.\<close>

definition accounted :: "CoreMessage list \<Rightarrow> pendingGrant \<Rightarrow> bool" where
  "accounted ms g \<longleftrightarrow>
     (if pgQueued g then MsgCredential (pgGrant g) \<in> set ms else cgMaterial (pgGrant g) = [] \<and> pgUndelivered g \<noteq> None)"

definition paired_offer :: "JobAssignment \<times> pendingGrant option \<Rightarrow> bool" where
  "paired_offer = (\<lambda>(a, g). case g of None \<Rightarrow> True
     | Some g \<Rightarrow> waEngine a = ''host'' \<and> cgJob (pgGrant g) = waJob a \<and> cgScope (pgGrant g) = map (\<lambda>(i, t, f). t) (waTasks a) \<and> \<not> pgQueued g)"

lemma paired_MsgJob: "paired ms \<Longrightarrow> paired (MsgJob a # ms)"
proof (cases ms)
  case (Cons m l)
  assume "paired ms"
  then show ?thesis using Cons by (cases m) auto
qed simp

lemma cleared_paired: "cleared E now d a g \<Longrightarrow> paired_offer (a, g)"
  by (auto simp: cleared_def paired_offer_def o_def split: option.splits)

lemma send_offers_paired:
  "list_all paired_offer os \<Longrightarrow>
    paired (fst (send_offers room n os)) \<and> list_all (accounted (fst (send_offers room n os))) (snd (send_offers room n os))
    \<and> length (snd (send_offers room n os)) = length (List.map_filter snd os)"
  by (induction room n os rule: send_offers.induct)
     (auto simp: case_prod_beta paired_offer_def paired_MsgJob discard_def List.map_filter_simps, auto simp: accounted_def list_all_iff)

lemma offer_loop_paired:
  "list_all paired_offer (osOffers st) \<Longrightarrow> list_all paired_offer (osOffers (fst (offer_loop E ss op is st)))"
proof (induction "is" arbitrary: st)
  case (Cons i "is")
  have "list_all paired_offer (osOffers st1)" if "offer_one E ss op i st = Inr st1" for st1
    using offer_one_offers [OF that] Cons.prems cleared_paired by auto
  then show ?case using Cons by (auto split: sum.splits)
qed simp

lemma offer_txn_paired: "list_all paired_offer (osOffers (fst (offer_txn E ss op limit d)))"
  by (auto simp: offer_txn_def Let_def offer_loop_paired split: sum.splits prod.splits)

lemma discarded_accounted: "list_all paired_offer os \<Longrightarrow> list_all (accounted []) (map (discard why) (List.map_filter snd os))"
  by (induction os) (auto simp: List.map_filter_simps paired_offer_def accounted_def discard_def split: option.splits)

section \<open>Properties\<close>

text \<open>
  C1. Every job that an offer of work puts on a stream may run there. It was in the queue, its engine is one
  the scan point has enabled, its scan is not stopped, no live kill switch covers it, the zone and the
  maintenance window of its policy admit it and all its targets are authorised. Its constraints are those
  of its policy as stored at that moment, and all of its tasks travel with it: each one in canonical form,
  none of them Core itself, each one permitted by the rules that travel. The epoch is one more than any
  before, and the job holds exactly that lease, granted to this scan point.
\<close>

theorem offer_authorised:
  assumes "distinct (map fst (jobs d))" "Core_Dispatch.offerWork E ss op limit d = (d', ms, gs)" "MsgJob a \<in> set ms"
  shows "\<exists>j shut pid p m rules ts. map_of (jobs d) (waJob a) = Some j \<and> windowClosedPolicies E (opNow op) d = Inr shut
    \<and> claimable (claimDB (ceUuid E) d) (ssPoint ss) (enabledEngines (ssPoint ss) d) shut j
    \<and> ForJob (waJob a) d = Some (pid, p, m) \<and> ScopeRules (ceCollate E) pid d = Inr rules
    \<and> constraintsFor (ceDecode E) (ceZone E) (Some (jobPolicy p m)) rules (opNow op) = Inr (waConstraints a)
    \<and> ts = sort_key taskID (jobTasks j) \<and> waTasks a = map (\<lambda>t. (taskID t, taskTarget t, taskFragile t)) ts
    \<and> (\<forall>t \<in> set ts. \<exists>c. Matches (ceURL E) (ceDigit E) (taskTarget t) = (c, True) \<and> \<not> coreContains (ceCore E) c
          \<and> fst (Permits c (wcAllowed (waConstraints a)) (wcExclusions (waConstraints a))))
    \<and> waEpoch a = maxEpoch (leases j) + 1
    \<and> (\<exists>j' l. map_of (jobs d') (waJob a) = Some j' \<and> leases j' = leases j @ [l] \<and> Epoch l = waEpoch a \<and> HolderID l = ssPoint ss
          \<and> State l = LeaseGranted)"
proof -
  obtain j g shut where o: "map_of (jobs d) (waJob a) = Some j" "windowClosedPolicies E (opNow op) d = Inr shut"
    "claimable (claimDB (ceUuid E) d) (ssPoint ss) (enabledEngines (ssPoint ss) d) shut j" "cleared E (opNow op) d a g"
    "map_option leases (map_of (jobs d') (waJob a)) = Some (leases (fst (Grant (opDBNow op) (ssPoint ss) LeaseTTL j)))"
    using offerWork_assigned [OF assms] by blast
  obtain ts pid p m rules where c: "Jobs_Tasks (waJob a) d = Inr ts" "ForJob (waJob a) d = Some (pid, p, m)"
    "ScopeRules (ceCollate E) pid d = Inr rules"
    "constraintsFor (ceDecode E) (ceZone E) (Some (jobPolicy p m)) rules (opNow op) = Inr (waConstraints a)"
    "list_all (taskCleared E (waConstraints a)) ts" "waEpoch a = maxEpoch (leases j) + 1"
    "waTasks a = map (\<lambda>t. (taskID t, taskTarget t, taskFragile t)) ts"
    using o(1,4) unfolding cleared_def by auto
  have ts: "ts = sort_key taskID (jobTasks j)" using c(1) o(1) by (auto simp: Jobs_Tasks_def Let_def split: if_splits)
  have t: "\<exists>c. Matches (ceURL E) (ceDigit E) (taskTarget t) = (c, True) \<and> \<not> coreContains (ceCore E) c
      \<and> fst (Permits c (wcAllowed (waConstraints a)) (wcExclusions (waConstraints a)))" if "t \<in> set ts" for t
    using c(5) that by (auto simp: list_all_iff taskCleared_def case_prod_beta prod_eq_iff)
  have l: "\<exists>j' l. map_of (jobs d') (waJob a) = Some j' \<and> leases j' = leases j @ [l] \<and> Epoch l = waEpoch a \<and> HolderID l = ssPoint ss
      \<and> State l = LeaseGranted"
    using o(5) c(6) by (auto simp: Grant_def Let_def)
  show ?thesis using o(1-3) c(2-4,6,7) ts t l by blast
qed

text \<open>
  C12. Once a scan has ended, in whatever way, no job of it is put on any stream again.
\<close>

theorem ended_scan_not_offered:
  assumes "db_reach E d" "map_of (scans d) i = Some s" "\<not> openScan (scStatus s)" "(db_step E)\<^sup>*\<^sup>* d d1"
  shows "case Core_Dispatch.offerWork E ss op limit d1 of (d2, ms, gs) \<Rightarrow>
    list_all (\<lambda>m. case m of MsgJob a \<Rightarrow> map_option ScanID (map_of (jobs d1) (waJob a)) \<noteq> Some i | _ \<Rightarrow> True) ms"
proof -
  obtain d2 ms gs where of: "Core_Dispatch.offerWork E ss op limit d1 = (d2, ms, gs)" by (cases "Core_Dispatch.offerWork E ss op limit d1")
  have "map_option ScanID (map_of (jobs d1) (waJob a)) \<noteq> Some i" if a: "MsgJob a \<in> set ms" for a
  proof
    assume i: "map_option ScanID (map_of (jobs d1) (waJob a)) = Some i"
    have w: "wf_step d d1" using db_steps_wf [OF assms(4) db_reach_wf [OF assms(1)]] .
    then have wf: "db_wf d1" by (simp add: wf_step_def)
    obtain s' where s': "map_of (scans d1) i = Some s'" "scStatus s' = scStatus s"
      using w assms(2,3) unfolding wf_step_def scan_kept_def by blast
    obtain j where j: "map_of (jobs d1) (waJob a) = Some j" "ScanID j = i" "Status j = JobQueued"
      "scanStatus (claimDB (ceUuid E) d1) (ScanID j) \<notin> {Some ScanCancelled, Some ScanKilled, Some ScanFailed}"
      using offerWork_assigned [OF wf_keys [OF wf] of a] i by (auto simp: claimable_def)
    have "scStatus s' = ScanCompleted"
      using assms(3) s' j(2,4) by (cases "scStatus s") (auto simp: openScan_def claimDB_def)
    then have "\<not> list_ex activeJob (scanJobs i d1)" using wf_scan [OF wf s'(1)] by (simp add: scan_ok_def)
    moreover have "j \<in> set (scanJobs i d1)" using scanJobs_map_of [OF wf_keys [OF wf]] j(1,2) by blast
    ultimately show False using j(3) by (auto simp: list_ex_iff activeJob_def)
  qed
  then show ?thesis using of by (auto simp: list_all_iff split: CoreMessage.splits)
qed


section \<open>Witnesses\<close>

definition ex_point :: ScanPoint where
  "ex_point = \<lparr>spZone = 1, spFingerprint = ''f'', spStatus = ScanPointOnline, spLastHeartbeat = Some 0,
     spCaps = [\<lparr>cpEngine = ''rules'', cpVersion = [], cpEnabled = True\<rparr>]\<rparr>"

definition ex_session :: session where
  "ex_session = \<lparr>ssPoint = 7, ssFingerprint = ''f'', ssBackpressure = BackpressureNone\<rparr>"

definition ex_offerPass :: offerPass where
  "ex_offerPass = \<lparr>opNow = 100, opDBNow = 100, opLocked = (\<lambda>_. False), opGrantID = (\<lambda>i. i), opText = (\<lambda>_. []), opCredText = (\<lambda>_. []),
     opJobFails = (\<lambda>_. False), opFails = False, opReplayFails = False, opRecordFails = False, opRoom = (\<lambda>_. True)\<rparr>"

definition ex_nameTask :: TaskRow where
  "ex_nameTask = \<lparr>taskID = 5, taskTarget = ''ab'', taskFragile = False, taskStatus = TaskPending, targetID = Some 3, hasAccepted = False\<rparr>"

definition ex_running :: Scan where
  "ex_running = ex_scan\<lparr>scStatus := ScanRunning, scStarted := Some 0\<rparr>"

definition ex_rows :: tenantDB where
  "ex_rows = \<lparr>scans = [(2, ex_running)], jobs = [(1, newJob 2 ''rules'' False 0 [ex_nameTask])], policies = [(4, ex_policyRow)], kills = [],
     cancels = [], points = [(7, ex_point)], sshProfiles = [], grants = [], audit = []\<rparr>"

lemma ex_Matches: "Matches (\<lambda>_. None) (\<lambda>_. False) ''ab'' = (named ''ab'', True)"
  by (simp add: Matches_def name_defs char_of_eq_iff)

lemma ex_trim: "TrimSpace ''ab'' = ''ab''"
  by (rule TrimSpace_id) (simp_all add: graphic_def)

lemma ex_Permits: "fst (Permits (named ''ab'') [''ab''] [])"
  by (simp add: Permits_iff matches_def ex_trim ParsePrefix_def cutLastByte_def ParseAddr_def)

lemma ex_wireConstraints:
  "\<exists>c. constraintsFor (\<lambda>_. Some []) (\<lambda>_. None) (Some (jobPolicy ex_policyRow SafetySafeMode))
       [\<lparr>Effect = ScopeAllow, MatchType = MatchHostname, MatchValue = ''ab''\<rparr>] 100 = Inr c \<and> wcAllowed c = [''ab''] \<and> wcExclusions c = []"
  by (simp add: constraintsFor_def scopePlan_def ex_trim jobPolicy_def ex_policyRow_def parseWindows_def windowEnd_def Let_def)

lemma ex_claims:
  "Claim (claimDB (\<lambda>_. []) ex_rows) (\<lambda>_. False) 7 [''rules''] 5 [] (jobs ex_rows) = ([1], [(1, claimed 7 (newJob 2 ''rules'' False 0 [ex_nameTask]))])"
  by (simp add: Claim_def ex_rows_def claimable_def claimDB_def newJob_def ex_running_def ex_scan_def ex_policyRow_def ex_nameTask_def ex_target_def
      ex_point_def MaxAttempts_def zoneForbids_def claimLimit_def)

lemma ex_offer: "\<exists>d' a. Core_Dispatch.offerWork ex_env ex_session ex_offerPass 5 ex_rows = (d', [MsgJob a], []) \<and> waJob a = 1"
proof -
  have e: "enabledEngines 7 ex_rows = [''rules'']"
    by (simp add: enabledEngines_def Points_Capabilities_def ex_rows_def ex_point_def)
  have w: "windowClosedPolicies ex_env 100 ex_rows = Inr []"
    by (simp add: windowClosedPolicies_def WithTimeWindows_def ex_env_def ex_rows_def)
  define d where "d = ex_rows\<lparr>jobs := [(1, claimed 7 (newJob 2 ''rules'' False 0 [ex_nameTask]))]\<rparr>"
  obtain c where c: "constraintsFor (\<lambda>_. Some []) (\<lambda>_. None) (Some (jobPolicy ex_policyRow SafetySafeMode))
       [\<lparr>Effect = ScopeAllow, MatchType = MatchHostname, MatchValue = ''ab''\<rparr>] 100 = Inr c" "wcAllowed c = [''ab'']" "wcExclusions c = []"
    using ex_wireConstraints by blast
  have k: "checkTasks ex_env c [ex_nameTask] = None"
    unfolding checkTasks_None using ex_Permits by (simp add: taskCleared_def ex_env_def ex_nameTask_def ex_Matches c(2,3) coreContains_def)
  let ?t = "[ex_nameTask]" and ?j = "claimed 7 (newJob 2 ''rules'' False 0 [ex_nameTask])"
  have m: "map_of (jobs d) 1 = Some ?j" "opNow ex_offerPass = 100" "opDBNow ex_offerPass = 100" "ssPoint ex_session = 7"
    by (simp_all add: d_def ex_offerPass_def ex_session_def)
  obtain j1 l where g: "Grant 100 7 LeaseTTL ?j = (j1, l)" by (cases "Grant 100 7 LeaseTTL ?j")
  define d1 where "d1 = d\<lparr>jobs := updateRow 1 (\<lambda>_. Some j1) (jobs d)\<rparr>"
  have j1: "jobTasks j1 = ?t" "ScanID j1 = 2" using g by (auto simp: Grant_def claimed_def newJob_def Let_def)
  have t: "Jobs_Tasks 1 d1 = Inr ?t"
    by (simp add: Jobs_Tasks_def d1_def d_def updateRow_def j1 MaxTasksPerAssignment_def)
  have f: "ForJob 1 d1 = Some (4, ex_policyRow, SafetySafeMode)"
    by (simp add: ForJob_def d1_def d_def ex_rows_def updateRow_def j1 ex_running_def ex_scan_def)
  have r: "ScopeRules (\<lambda>_. 0) 4 d1 = Inr [\<lparr>Effect = ScopeAllow, MatchType = MatchHostname, MatchValue = ''ab''\<rparr>]"
    by (simp add: ScopeRules_def d1_def d_def ex_rows_def ex_policyRow_def MaxScopeRulesPerAssignment_def)
  have v: "ceCollate ex_env = (\<lambda>_. 0)" "ceDecode ex_env = (\<lambda>_. Some [])" "ceZone ex_env = (\<lambda>_. None)" "ceUuid ex_env = (\<lambda>_. [])" by (simp_all add: ex_env_def)
  have "\<exists>st a. offer_one ex_env ex_session ex_offerPass 1 \<lparr>osDB = d, osOffers = [], osRefusals = []\<rparr> = Inr st \<and> osOffers st = [(a, None)] \<and> waJob a = 1"
    unfolding offer_one_def offerState.select_convs m option.case g prod.case Let_def d1_def [symmetric] t sum.case f v r c(1) k
    by (simp add: assign_def wireFor_def claimed_def newJob_def)
  then show ?thesis
    using e w ex_claims by (auto simp: Core_Dispatch.offerWork_def offer_txn_def ex_session_def ex_offerPass_def Let_def d_def v)
qed

theorem offer_authorised_witness:
  "\<exists>d' a. Core_Dispatch.offerWork ex_env ex_session ex_offerPass 5 ex_rows = (d', [MsgJob a], [])
    \<and> (\<exists>j. map_of (jobs ex_rows) 1 = Some j \<and> waEpoch a = maxEpoch (leases j) + 1)"
proof -
  obtain d' a where a: "Core_Dispatch.offerWork ex_env ex_session ex_offerPass 5 ex_rows = (d', [MsgJob a], [])" "waJob a = 1"
    using ex_offer by blast
  have "distinct (map fst (jobs ex_rows))" by (simp add: ex_rows_def)
  then show ?thesis using offer_authorised [OF _ a(1), of a] a by auto
qed

theorem ended_scan_not_offered_witness:
  "case Core_Dispatch.offerWork ex_env ex_session ex_offerPass 5 ex_cancelled of (d2, ms, gs) \<Rightarrow>
    list_all (\<lambda>m. case m of MsgJob a \<Rightarrow> map_option ScanID (map_of (jobs ex_cancelled) (waJob a)) \<noteq> Some 2 | _ \<Rightarrow> True) ms"
proof -
  obtain s where s: "map_of (scans ex_cancelled) 2 = Some s" "\<not> openScan (scStatus s)" using ex_cancelled_scan by (auto simp: openScan_def)
  show ?thesis by (rule ended_scan_not_offered [OF ex_cancelled_reach s rtranclp.rtrancl_refl])
qed

end
