(* ===== verification/Core_Stream.thy ===== *)
theory Core_Stream
  imports Core_Offers
begin

text \<open>
  What a scan point is told while it works: whether it may go on (renewals), that it must stop (kills and
  cancellations), and in which order the two channels of its stream are served.
\<close>

section \<open>Renewals\<close>

lemma narrowed_None:
  "narrowed_loop E al ex ts = None \<longleftrightarrow>
     (\<forall>t \<in> set ts. \<exists>c. Matches (ceURL E) (ceDigit E) t = (c, True) \<and> fst (Permits c al ex))"
  by (induction ts) (auto simp: case_prod_beta prod_eq_iff)

lemma wf_ForJob:
  assumes "db_wf d" "map_of (jobs d) i = Some j"
  shows "\<exists>pid p m. ForJob i d = Some (pid, p, m)"
proof -
  obtain s where s: "map_of (scans d) (ScanID j) = Some s"
    using assms unfolding db_wf_alt by (metis map_of_eq_None_iff not_Some_eq)
  then have "scPolicy s \<in> fst ` set (policies d)" using assms by (auto simp: db_wf_alt)
  then obtain p where "map_of (policies d) (scPolicy s) = Some p" by (metis map_of_eq_None_iff not_Some_eq)
  then show ?thesis using assms(2) s by (simp add: ForJob_def)
qed


section \<open>Stopping\<close>

text \<open>What the messages on the urgent channel name: the kill switch or the job.\<close>

definition stopIDs :: "CoreMessage list \<Rightarrow> uuid list" where
  "stopIDs = List.map_filter (\<lambda>m. case m of MsgKill k sc \<Rightarrow> Some k | MsgCancel i e scan st g \<Rightarrow> Some i | _ \<Rightarrow> None)"

lemma stopIDs_simps [simp]:
  "stopIDs [] = []" "stopIDs (MsgKill k sc # ms) = k # stopIDs ms" "stopIDs (MsgCancel i e scan st g # ms) = i # stopIDs ms"
  by (simp_all add: stopIDs_def List.map_filter_simps)

lemma kill_loop_sent: "set (snd (kill_loop room n ks s)) = set s \<union> set (stopIDs (fst (kill_loop room n ks s)))"
  by (induction room n ks s rule: kill_loop.induct) (auto simp: case_prod_beta)

lemma kill_loop_all: "(\<And>n. room n) \<Longrightarrow> fst ` set ks \<subseteq> set (snd (kill_loop room n ks s))"
  by (induction room n ks s rule: kill_loop.induct) (auto simp: case_prod_beta kill_loop_sent)

lemma cancel_loop_sent: "set (snd (cancel_loop room n js s)) = set s \<union> set (stopIDs (fst (cancel_loop room n js s)))"
  by (induction room n js s rule: cancel_loop.induct) (auto simp: case_prod_beta)

lemma cancel_loop_all: "(\<And>n. room n) \<Longrightarrow> fst ` set js \<subseteq> set (snd (cancel_loop room n js s))"
  by (induction room n js s rule: cancel_loop.induct) (auto simp: case_prod_beta cancel_loop_sent)

lemma LiveFor_mem:
  assumes "map_of (points d) sp = Some p"
  shows "(k, r) \<in> set (LiveFor now sp d) \<longleftrightarrow> (k, r) \<in> set (kills d) \<and> kResolvedAt r = None \<and> killCoversScanPoint now d sp p (kScope r)"
  using assms by (auto simp: LiveFor_def)

lemma CancellableFor_mem:
  assumes "(i, j) \<in> set (jobs d)" "map_of (scans d) (ScanID j) = Some s" "stoppedScan (Some (scStatus s))" "list_ex (stillHolds now sp) (leases j)"
  shows "i \<in> fst ` set (CancellableFor now sp d)"
proof -
  have "\<exists>e. heldEpoch now sp j = Some e"
    using assms(4) by (auto simp: heldEpoch_def list_ex_iff split: list.splits) (metis filter_empty_conv length_0_conv length_map length_rev length_sort)
  then show ?thesis using assms(1-3) by (force simp: CancellableFor_def List.map_filter_def)
qed


section \<open>The two channels\<close>

definition stream_step :: "sendState \<Rightarrow> sendState \<Rightarrow> bool" where
  "stream_step s t \<longleftrightarrow> sendLoop_step s t \<or> queue_step s t"

text \<open>What has been sent since \<open>us\<close> stood in the urgent channel and the wire carried \<open>w\<close>.\<close>

definition overtaken :: "CoreMessage list \<Rightarrow> CoreMessage list \<Rightarrow> sendState \<Rightarrow> bool" where
  "overtaken us w s \<longleftrightarrow>
     (\<exists>before k. onWire s = w @ before @ take k us \<and> length before \<le> 1 \<and> k < length us
        \<and> (sendPC s = LoopEnded \<or> (\<exists>new. urgentQ s = drop k us @ new) \<and> (sendPC s = Waiting \<longrightarrow> before = [] \<and> k = 0)))
   \<or> (\<exists>before rest. onWire s = w @ before @ us @ rest \<and> length before \<le> 1)"

lemma sendMsg_sels [simp]:
  "onWire (sendMsg m s) = onWire s @ [m]" "sendPC (sendMsg m s) = LoopTop" "urgentQ (sendMsg m s) = urgentQ s"
  by (simp_all add: sendMsg_def)

lemma overtakenI:
  "onWire s = w @ before @ take k us \<Longrightarrow> length before \<le> 1 \<Longrightarrow> k < length us \<Longrightarrow>
    sendPC s = LoopEnded \<or> urgentQ s = drop k us @ new \<and> (sendPC s = Waiting \<longrightarrow> before = [] \<and> k = 0) \<Longrightarrow> overtaken us w s"
  unfolding overtaken_def by blast

lemma overtaken_urgent:
  assumes "urgentQ s = m # ms" "urgentQ s = drop k us @ new" "onWire s = w @ before @ take k us" "length before \<le> 1" "k < length us"
  shows "overtaken us w (sendMsg m (s\<lparr>urgentQ := ms\<rparr>))"
proof -
  have m: "m = us ! k" "ms = drop (Suc k) us @ new" using assms(1,2,5) by (metis Cons_nth_drop_Suc append_Cons list.inject)+
  have w: "onWire (sendMsg m (s\<lparr>urgentQ := ms\<rparr>)) = w @ before @ take (Suc k) us"
    using assms(3,5) m by (simp add: take_Suc_conv_app_nth)
  show ?thesis
  proof (cases "Suc k = length us")
    case True
    then have "onWire (sendMsg m (s\<lparr>urgentQ := ms\<rparr>)) = w @ before @ us @ []" using w by simp
    then show ?thesis using assms(4) unfolding overtaken_def by blast
  next
    case False
    then show ?thesis using w assms(4,5) m by (intro overtakenI [where k = "Suc k"]) auto
  qed
qed

lemma stream_step_wire: "stream_step s t \<Longrightarrow> \<exists>x. onWire t = onWire s @ x"
  by (auto simp: stream_step_def elim!: sendLoop_step.cases queue_step.cases)

lemma overtaken_step:
  assumes "overtaken us w s" "stream_step s t"
  shows "overtaken us w t"
  using assms(1) [unfolded overtaken_def]
proof (elim disjE exE conjE)
  fix before rest
  assume "onWire s = w @ before @ us @ rest" "length before \<le> 1"
  moreover obtain x where "onWire t = onWire s @ x" using stream_step_wire [OF assms(2)] by blast
  ultimately have "onWire t = w @ before @ us @ (rest @ x)" by simp
  then show ?thesis using \<open>length before \<le> 1\<close> unfolding overtaken_def by blast
next
  fix before k
  assume "onWire s = w @ before @ take k us" "length before \<le> 1" "k < length us" "sendPC s = LoopEnded"
  moreover have "onWire t = onWire s \<and> sendPC t = LoopEnded"
    using assms(2) \<open>sendPC s = LoopEnded\<close> by (auto simp: stream_step_def elim!: sendLoop_step.cases queue_step.cases)
  ultimately show ?thesis by (intro overtakenI) auto
next
  fix before k new
  assume a: "onWire s = w @ before @ take k us" "length before \<le> 1" "k < length us" "urgentQ s = drop k us @ new"
    "sendPC s = Waiting \<longrightarrow> before = [] \<and> k = 0"
  have ne: "urgentQ s \<noteq> []" using a(3,4) by simp
  from assms(2) show ?thesis unfolding stream_step_def
  proof
    assume "sendLoop_step s t"
    then show ?thesis
    proof cases
      case (drained m ms)
      then show ?thesis using overtaken_urgent [OF _ a(4,1-3)] by simp
    next
      case (urgent m ms)
      then show ?thesis using overtaken_urgent [OF _ a(4,1-3)] by simp
    next
      case (ordinary m ms)
      then show ?thesis using a by (intro overtakenI [where before = "[m]" and k = 0 and new = new]) (auto simp: sendMsg_def)
    next
      case ended
      then show ?thesis using a by (intro overtakenI) auto
    next
      case (send_failed m ms)
      then show ?thesis using a by (intro overtakenI) auto
    next
      case (out_failed m ms)
      then show ?thesis using a by (intro overtakenI) auto
    qed (use ne in simp)
  next
    assume "queue_step s t"
    then show ?thesis
    proof cases
      case (queued_urgent m)
      then show ?thesis using a by (intro overtakenI [where k = k and before = before and new = "new @ [m]"]) auto
    next
      case (queued_out m)
      then show ?thesis using a by (intro overtakenI [where k = k and before = before and new = new]) auto
    qed
  qed
qed

text \<open>
  C21. What stands in the urgent channel is not held up by work. Whatever is queued and sent from then on,
  the urgent messages go out in their order with at most one message in front of them, and nothing else
  is sent before the last of them.
\<close>

theorem urgent_overtakes:
  assumes "stream_step\<^sup>*\<^sup>* s t"
  shows "\<exists>before k rest. onWire t = onWire s @ before @ take k (urgentQ s) @ rest \<and> length before \<le> 1
    \<and> (rest \<noteq> [] \<longrightarrow> take k (urgentQ s) = urgentQ s)"
proof -
  have "overtaken (urgentQ s) (onWire s) s"
  proof (cases "urgentQ s")
    case Nil
    then have "onWire s = onWire s @ [] @ urgentQ s @ []" by simp
    then show ?thesis unfolding overtaken_def by (metis le0 list.size(3))
  next
    case (Cons m ms)
    then show ?thesis by (intro overtakenI [where before = "[]" and k = 0 and new = "[]"]) auto
  qed
  with assms have o: "overtaken (urgentQ s) (onWire s) t" by (induction rule: rtranclp_induct) (auto intro: overtaken_step)
  from o [unfolded overtaken_def] show ?thesis
  proof (elim disjE exE conjE)
    fix before rest
    assume "onWire t = onWire s @ before @ urgentQ s @ rest" "length before \<le> 1"
    then show ?thesis by (intro exI [of _ before] exI [of _ "length (urgentQ s)"] exI [of _ rest]) simp
  next
    fix before k
    assume "onWire t = onWire s @ before @ take k (urgentQ s)" "length before \<le> 1"
    then show ?thesis by (intro exI [of _ before] exI [of _ k] exI [of _ "[]"]) simp
  next
    fix before k
    assume "onWire t = onWire s @ before @ take k (urgentQ s)" "length before \<le> 1"
    then show ?thesis by (intro exI [of _ before] exI [of _ k] exI [of _ "[]"]) simp
  qed
qed

section \<open>Where the code falls short\<close>

text \<open>
  The acknowledgement of a cancellation is lost for a failed scan: Core asks the scan point to cancel the
  jobs of such a scan as of any other stopped one, but does not accept that it did.
\<close>

theorem failed_scan_ack_refused:
  assumes "distinct (map fst (jobs d))" "(i, e, scan, ScanFailed) \<in> set (CancellableFor now sp d)" "\<not> acked i sp d" "e > 0"
  shows "CancelAcks_Record later i sp e halted d = Inl ErrNotFound"
proof -
  obtain j s where "(i, j) \<in> set (jobs d)" "map_of (scans d) (ScanID j) = Some s" "scStatus s = ScanFailed"
    using assms(2) by (auto simp: CancellableFor_def List.map_filter_def split: option.splits if_splits)
  then have "\<not> ackOwed i sp e d" using assms(1) by (auto simp: ackOwed_def)
  then show ?thesis using assms(3,4) by (simp add: CancelAcks_Record_def)
qed

text \<open>
  How long a cancellation took is never known: in no reachable state does an acknowledgement under a
  cancelled scan have a latency, because cancelling a scan does not record when it was asked for.
\<close>

theorem cancel_latency_unknown:
  assumes "db_reach E d" "map_of (scans d) i = Some s" "scStatus s = ScanCancelled"
  shows "list_all (\<lambda>(a, latency). latency = None) (CancelAcks_ForScan i d)"
  using wf_scan [OF db_reach_wf [OF assms(1)] assms(2)] assms(2,3)
  by (auto simp: scan_ok_def CancelAcks_ForScan_def Let_def list_all_iff)

text \<open>
  The engines a policy allows are not enforced: with a policy whose list names one engine, a job of
  another engine is put on the stream.
\<close>

theorem allowed_engines_ignored:
  "\<exists>d' a p. Core_Dispatch.offerWork ex_env ex_session ex_offerPass 5 ex_rows = (d', [MsgJob a], [])
     \<and> map_of (policies ex_rows) 4 = Some p \<and> plEngines p = [''discovery''] \<and> waEngine a = ''rules''"
proof -
  obtain d' a where o: "Core_Dispatch.offerWork ex_env ex_session ex_offerPass 5 ex_rows = (d', [MsgJob a], [])" "waJob a = 1"
    using ex_offer by blast
  have "distinct (map fst (jobs ex_rows))" "map_of (policies ex_rows) 4 = Some ex_policyRow" "plEngines ex_policyRow = [''discovery'']"
    by (simp_all add: ex_rows_def ex_policyRow_def)
  moreover have "waEngine a = ''rules''"
    using offerWork_assigned [OF calculation(1) o(1), of a] o(2) by (auto simp: cleared_def ex_rows_def newJob_def)
  ultimately show ?thesis using o(1) by blast
qed

text \<open>The rows of the example with a policy whose windows cannot be decoded.\<close>

definition ex_unreadable :: tenantDB where
  "ex_unreadable = ex_rows\<lparr>policies := [(4, ex_policyRow\<lparr>plWindows := ''x''\<rparr>)]\<rparr>"

definition ex_blind :: coreEnv where
  "ex_blind = ex_env\<lparr>ceDecode := (\<lambda>_. None)\<rparr>"

lemma ex_refusal:
  "\<exists>d' j. Core_Dispatch.offerWork ex_blind ex_session ex_offerPass 5 ex_unreadable = (d', [], [])
     \<and> scans d' = scans ex_unreadable \<and> jobs d' = [(1, j)] \<and> ScanID j = 2 \<and> Status j = JobFailed"
proof -
  let ?p = "ex_policyRow\<lparr>plWindows := ''x''\<rparr>" and ?j = "claimed 7 (newJob 2 ''rules'' False 0 [ex_nameTask])"
  have e: "enabledEngines 7 ex_unreadable = [''rules'']"
    by (simp add: enabledEngines_def Points_Capabilities_def ex_unreadable_def ex_rows_def ex_point_def)
  have w: "windowClosedPolicies ex_blind 100 ex_unreadable = Inr []"
    by (simp add: windowClosedPolicies_def WithTimeWindows_def ex_blind_def ex_env_def ex_unreadable_def)
  have c: "Claim (claimDB (ceUuid ex_blind) ex_unreadable) (\<lambda>_. False) 7 [''rules''] 5 [] (jobs ex_unreadable) = ([1], [(1, ?j)])"
    by (simp add: Claim_def ex_unreadable_def ex_rows_def claimable_def claimDB_def newJob_def ex_running_def ex_scan_def ex_policyRow_def
        ex_nameTask_def ex_target_def ex_point_def MaxAttempts_def zoneForbids_def claimLimit_def)
  define d where "d = ex_unreadable\<lparr>jobs := [(1, ?j)]\<rparr>"
  have m: "map_of (jobs d) 1 = Some ?j" "opNow ex_offerPass = 100" "opDBNow ex_offerPass = 100" "ssPoint ex_session = 7"
    by (simp_all add: d_def ex_offerPass_def ex_session_def)
  obtain j1 l where g: "Grant 100 7 LeaseTTL ?j = (j1, l)" by (cases "Grant 100 7 LeaseTTL ?j")
  define d1 where "d1 = d\<lparr>jobs := updateRow 1 (\<lambda>_. Some j1) (jobs d)\<rparr>"
  have j1: "jobTasks j1 = [ex_nameTask]" "ScanID j1 = 2" "Status j1 = JobAssigned" "ScanPointID j1 = Some 7"
    using g by (auto simp: Grant_def claimed_def newJob_def Let_def)
  have t: "Jobs_Tasks 1 d1 = Inr [ex_nameTask]"
    by (simp add: Jobs_Tasks_def d1_def d_def updateRow_def j1 MaxTasksPerAssignment_def)
  have f: "ForJob 1 d1 = Some (4, ?p, SafetySafeMode)"
    by (simp add: ForJob_def d1_def d_def ex_unreadable_def ex_rows_def updateRow_def j1 ex_running_def ex_scan_def)
  have r: "ScopeRules (ceCollate ex_blind) 4 d1 = Inr [\<lparr>Effect = ScopeAllow, MatchType = MatchHostname, MatchValue = ''ab''\<rparr>]"
    by (simp add: ScopeRules_def d1_def d_def ex_unreadable_def ex_policyRow_def MaxScopeRulesPerAssignment_def)
  have k: "constraintsFor (ceDecode ex_blind) (ceZone ex_blind) (Some (jobPolicy ?p SafetySafeMode))
      [\<lparr>Effect = ScopeAllow, MatchType = MatchHostname, MatchValue = ''ab''\<rparr>] 100 = Inl (WindowError NotWindows)"
    by (simp add: constraintsFor_def scopePlan_def ex_trim jobPolicy_def ex_policyRow_def parseWindows_def ex_blind_def Let_def)
  have "\<exists>st j. offer_one ex_blind ex_session ex_offerPass 1 \<lparr>osDB = d, osOffers = [], osRefusals = []\<rparr> = Inr st \<and> osOffers st = []
      \<and> scans (osDB st) = scans ex_unreadable \<and> jobs (osDB st) = [(1, j)] \<and> ScanID j = 2 \<and> Status j = JobFailed"
    unfolding offer_one_def offerState.select_convs m option.case g prod.case Let_def d1_def [symmetric] t sum.case f r k
    by (simp add: d1_def d_def updateRow_def Terminate_def endTasks_def statusFor_def j1 Let_def)
  then show ?thesis
    using e w c by (auto simp: Core_Dispatch.offerWork_def offer_txn_def ex_session_def ex_offerPass_def Let_def d_def)
qed

text \<open>
  C39. A scan whose last job Core itself refuses never ends: the refusal fails the job without settling the
  scan, no assignment is sent, so no terminal message comes back, and neither later offers nor the sweeper
  settle it. It stays running with no job left to run.
\<close>

theorem refused_scan_stays_running:
  "\<exists>d' s. Core_Dispatch.offerWork ex_blind ex_session ex_offerPass 5 ex_unreadable = (d', [], [])
     \<and> map_of (scans d') 2 = Some s \<and> scStatus s = ScanRunning \<and> scanJobs 2 d' \<noteq> [] \<and> \<not> list_ex activeJob (scanJobs 2 d')
     \<and> scans (sweepTenant now dbNow locked limit fails d') = scans d' \<and> scans (fst (Core_Dispatch.offerWork E ss op n d')) = scans d'"
proof -
  obtain d' j where o: "Core_Dispatch.offerWork ex_blind ex_session ex_offerPass 5 ex_unreadable = (d', [], [])"
    "scans d' = scans ex_unreadable" "jobs d' = [(1, j)]" "ScanID j = 2" "Status j = JobFailed"
    using ex_refusal by blast
  have "distinct (map fst (jobs d'))" using o(3) by simp
  then show ?thesis
    using o offerWork_refines(1) [of d'] sweepTenant_rows(1) [of now dbNow locked limit fails d']
    by (intro exI [of _ d'] exI [of _ ex_running]) (simp add: scanJobs_def activeJob_def ex_unreadable_def ex_rows_def ex_running_def)
qed

section \<open>Witnesses\<close>

definition ex_leased :: tenantDB where
  "ex_leased = ex_rows\<lparr>jobs := ex_first True\<rparr>"

definition ex_renewPass :: renewPass where
  "ex_renewPass = \<lparr>rnNow = 200, rnDBNow = 200, rnPolicyError = None, rnScopeError = None, rnRenewError = None, rnCurrentFails = False\<rparr>"

lemma ex_leased_wf: "db_wf ex_leased"
  by (simp add: db_wf_def ex_leased_def ex_rows_def ex_first_row newJob_def scan_ok_def ex_running_def ex_scan_def)

lemma ex_renewal: "\<exists>d' x. onLeaseRenewal ex_env ex_session ex_renewPass 1 1 ex_leased = (d', Some (MsgLease 1 1 x LEASE_GRANTED NoDetail))"
proof -
  obtain j where j: "map_of (jobs ex_leased) 1 = Some j" "ScanID j = 2" "jobTasks j = [ex_task]"
    and r: "\<exists>j' l. Renew 200 1 7 LeaseTTL j = Some (j', l) \<and> Epoch l = 1"
    by (auto simp: ex_leased_def ex_first_row newJob_def Renew_def renewable_def renewed_def)
  have f: "ForJob 1 ex_leased = Some (4, ex_policyRow, SafetySafeMode)"
    using j by (simp add: ForJob_def) (simp add: ex_leased_def ex_rows_def ex_running_def ex_scan_def)
  have w: "\<not> windowClosedForJob ex_env ex_renewPass 1 ex_leased"
    by (simp add: windowClosedForJob_def f ex_renewPass_def) (simp add: ex_policyRow_def)
  have t: "Jobs_Tasks 1 ex_leased = Inr [ex_task]" using j by (simp add: Jobs_Tasks_def MaxTasksPerAssignment_def)
  have s: "ScopeRules (ceCollate ex_env) 4 ex_leased = Inr [\<lparr>Effect = ScopeAllow, MatchType = MatchHostname, MatchValue = ''ab''\<rparr>]"
    by (simp add: ScopeRules_def ex_leased_def ex_rows_def ex_policyRow_def MaxScopeRulesPerAssignment_def)
  have p: "scopePlan [\<lparr>Effect = ScopeAllow, MatchType = MatchHostname, MatchValue = ''ab''\<rparr>] = Inr ([''ab''], [])"
    by (simp add: scopePlan_def ex_trim)
  have "liveScope ex_env ex_renewPass 1 ex_leased = Inr (Some ([''ab''], [], [''ab'']))"
    by (simp add: liveScope_def ex_renewPass_def f s p t ex_task_def)
  moreover have "narrowed_loop ex_env [''ab''] [] [''ab''] = None"
    unfolding narrowed_None using ex_Matches ex_Permits by (simp add: ex_env_def)
  ultimately have n: "scopeNarrowedForJob ex_env ex_renewPass 1 ex_leased = None" by (simp add: scopeNarrowedForJob_def)
  show ?thesis using w n j(1) r by (auto simp: onLeaseRenewal_def ex_renewPass_def ex_session_def)
qed


definition ex_stopped :: "ScanStatus \<Rightarrow> tenantDB" where
  "ex_stopped st = ex_leased\<lparr>scans := [(2, ex_running\<lparr>scStatus := st, scCompleted := Some 150\<rparr>)],
     kills := [(9, \<lparr>kScope = KillScan 2, kIssuedBy = None, kIssuedAt = 150, kReason = [], kResolvedAt = None, kAcks = []\<rparr>)]\<rparr>"

lemma ex_holds: "\<exists>j. map_of (jobs (ex_stopped st)) 1 = Some j \<and> (1, j) \<in> set (jobs (ex_stopped st)) \<and> ScanID j = 2 \<and> list_ex (stillHolds 200 7) (leases j)
    \<and> jobs (ex_stopped st) = [(1, j)]"
  by (simp add: ex_stopped_def ex_leased_def ex_first_row newJob_def stillHolds_def StillHoldingGrace_def)


definition ex_channels :: sendState where
  "ex_channels = \<lparr>urgentQ = [MsgKill 9 KILL_SCAN], outQueue = [MsgLease 1 1 0 LEASE_LOST NoRecord], sendPC = Waiting, onWire = [], remains = []\<rparr>"

theorem urgent_overtakes_witness:
  "\<exists>t. stream_step ex_channels t \<and> (\<exists>before k rest. onWire t = before @ take k [MsgKill 9 KILL_SCAN] @ rest \<and> length before \<le> 1)"
proof -
  have "stream_step ex_channels (sendMsg (MsgLease 1 1 0 LEASE_LOST NoRecord) (ex_channels\<lparr>outQueue := []\<rparr>))"
    unfolding stream_step_def using sendLoop_step.ordinary [of ex_channels "MsgLease 1 1 0 LEASE_LOST NoRecord" "[]"] by (simp add: ex_channels_def)
  then show ?thesis using urgent_overtakes [OF r_into_rtranclp [of stream_step ex_channels]] by (fastforce simp: ex_channels_def)
qed

theorem failed_scan_ack_refused_witness:
  "(1, 1, 2, ScanFailed) \<in> set (CancellableFor 200 7 (ex_stopped ScanFailed))
   \<and> CancelAcks_Record 300 1 7 1 4 (ex_stopped ScanFailed) = Inl ErrNotFound"
proof -
  let ?d = "ex_stopped ScanFailed"
  have c: "(1, 1, 2, ScanFailed) \<in> set (CancellableFor 200 7 ?d)"
    by (simp add: CancellableFor_def List.map_filter_simps ex_stopped_def ex_leased_def ex_first_row newJob_def stoppedScan_def heldEpoch_def
        stillHolds_def StillHoldingGrace_def)
  have "distinct (map fst (jobs ?d))" "\<not> acked 1 7 ?d"
    using ex_holds [of ScanFailed] by (auto simp: acked_def) (simp add: ex_stopped_def ex_leased_def ex_rows_def)
  then show ?thesis using failed_scan_ack_refused [OF _ c] c by simp
qed

theorem cancel_latency_unknown_witness: "list_all (\<lambda>(a, latency). latency = None) (CancelAcks_ForScan 2 ex_cancelled)"
  using cancel_latency_unknown [OF ex_cancelled_reach [of ex_env]] ex_cancelled_scan by blast

end
