(* ===== verification/Core_Ingest.thy ===== *)
theory Core_Ingest
  imports Go_Json Result_Buffer Core_Wellformed
begin

text \<open>
  How Core takes results in (\<open>internal/dispatch/ingest.go\<close>): one chunk, one transaction, one
  acknowledgement, on the ledger of submissions and the observations (\<open>internal/store/submissions.go\<close>,
  \<open>observations.go\<close>).

  A chunk is handled in transactions between which other transactions may commit, so a connection has a
  program counter: it waits for a chunk, runs the transaction of a chunk, reads the ledger after a
  conflict (\<open>resume\<close>), rewrites a lost quarantine, or has an answer. The state that \<open>handleChunk\<close> keeps
  in memory is changed inside the callback of the transaction, so it is not rolled back with it.
  Which statements fail for reasons the rows do not show is an argument, as are the clock
  readings, the parser and printer of uuids, and what \<open>jsonb\<close> accepts. Other rows of the tenant are those
  of \<open>Core_Scans\<close>. Text that only informs a reader (quarantine reasons, details) is data of a type.
\<close>

section \<open>Rows\<close>

datatype StoredSubmit = SubmitAccepted | SubmitAcceptedQuarantined | SubmitRejectedDuplicate | SubmitRejectedMalformed | SubmitRetryLater

datatype quarantineReason =
    NoLeaseIssued
  | SupersededEpoch int int
  | EpochNeverIssued int int
  | HeldByAnother
  | ZoneNotEnrolled
  | TaskOutsideJob
  | PackageNotCredentialed
  | PackageNoAddress
  | PackageOtherAddress

record SubmissionRow =
  srJob :: uuid
  srEpoch :: int
  srStatus :: StoredSubmit
  srChunks :: int
  srLast :: "int option"
  srIncomplete :: bool
  srTermination :: "StoredReason option"
  srReason :: "quarantineReason option"
  srReceived :: time
  srCompleted :: "time option"

datatype IngestState = IngestPending | IngestAccepted | IngestQuarantined

record ObservationRow =
  obID :: uuid
  obSubmission :: string
  obTask :: uuid
  obPoint :: uuid
  obZone :: uuid
  obAsset :: "uuid option"
  obType :: string
  obPayload :: string
  obConfidence :: rat
  obAt :: time
  obState :: IngestState

record ingestDB =
  core :: tenantDB
  zones :: "uuid list"
  subs :: "(string \<times> SubmissionRow) list"
  obs :: "ObservationRow list"

text \<open>The code outside the repository: the printer and parser of uuids, and what PostgreSQL stores as \<open>jsonb\<close>.\<close>

record ingestEnv =
  ieParse :: "string \<Rightarrow> uuid option"
  ieText :: "uuid \<Rightarrow> string"
  ieJsonb :: "string \<Rightarrow> bool"

section \<open>Submissions\<close>

definition maxInt4 :: int where "maxInt4 = 2147483647"

text \<open>A reason goes with the status \<open>accepted_quarantined\<close> and with no other (a check of the table).\<close>

definition reasonPaired :: "StoredSubmit \<Rightarrow> quarantineReason option \<Rightarrow> bool" where
  "reasonPaired st r \<longleftrightarrow> (st = SubmitAcceptedQuarantined) = (r \<noteq> None)"

definition Submissions_Begin :: "string \<Rightarrow> uuid \<Rightarrow> int \<Rightarrow> StoredSubmit \<Rightarrow> bool \<Rightarrow> quarantineReason option \<Rightarrow> time \<Rightarrow>
    ingestDB \<Rightarrow> storeError + ingestDB" where
  "Submissions_Begin i job e st inc reason now d =
     (if st = SubmitAcceptedQuarantined \<and> reason = None then Inl ErrOther
      else if \<not> reasonPaired st reason then Inl ErrCheckViolation
      else if map_of (subs d) i \<noteq> None then Inl ErrConflict
      else if map_of (jobs (core d)) job = None then Inl ErrForeignKey
      else Inr (d\<lparr>subs := subs d @
        [(i, \<lparr>srJob = job, srEpoch = e, srStatus = st, srChunks = 0, srLast = None, srIncomplete = inc, srTermination = None,
              srReason = reason, srReceived = now, srCompleted = None\<rparr>)]\<rparr>))"

definition updSub :: "string \<Rightarrow> (SubmissionRow \<Rightarrow> SubmissionRow) \<Rightarrow> ingestDB \<Rightarrow> ingestDB" where
  "updSub i f d = d\<lparr>subs := map (\<lambda>(k, r). (k, if k = i then f r else r)) (subs d)\<rparr>"

definition recorded :: "int \<Rightarrow> bool \<Rightarrow> SubmissionRow \<Rightarrow> SubmissionRow" where
  "recorded n inc r = r\<lparr>srChunks := srChunks r + 1,
     srLast := Some (max (case srLast r of None \<Rightarrow> -1 | Some l \<Rightarrow> l) n), srIncomplete := srIncomplete r \<or> inc\<rparr>"

definition Submissions_RecordChunk :: "string \<Rightarrow> int \<Rightarrow> bool \<Rightarrow> ingestDB \<Rightarrow> storeError + ingestDB" where
  "Submissions_RecordChunk i n inc d =
     (case map_of (subs d) i of
        None \<Rightarrow> Inl ErrNotFound
      | Some r \<Rightarrow> if n > maxInt4 \<or> srChunks r \<ge> maxInt4 then Inl ErrOther else Inr (updSub i (recorded n inc) d))"

definition markQuarantined :: "quarantineReason \<Rightarrow> SubmissionRow \<Rightarrow> SubmissionRow" where
  "markQuarantined reason r =
     (if srStatus r = SubmitAccepted \<and> srCompleted r = None
      then r\<lparr>srStatus := SubmitAcceptedQuarantined, srReason := Some reason\<rparr> else r)"

definition Submissions_Quarantine :: "string \<Rightarrow> quarantineReason \<Rightarrow> ingestDB \<Rightarrow> ingestDB" where
  "Submissions_Quarantine i reason d = updSub i (markQuarantined reason) d"

definition completed :: "StoredSubmit \<Rightarrow> StoredReason \<Rightarrow> quarantineReason option \<Rightarrow> time \<Rightarrow> SubmissionRow \<Rightarrow> SubmissionRow" where
  "completed st why reason now r =
     r\<lparr>srStatus := st, srTermination := Some why,
       srReason := (case reason of None \<Rightarrow> srReason r | Some q \<Rightarrow> Some q), srCompleted := Some now\<rparr>"

definition Submissions_Complete :: "string \<Rightarrow> StoredSubmit \<Rightarrow> StoredReason \<Rightarrow> quarantineReason option \<Rightarrow> time \<Rightarrow>
    ingestDB \<Rightarrow> storeError + ingestDB" where
  "Submissions_Complete i st why reason now d =
     (if st = SubmitAcceptedQuarantined \<and> reason = None then Inl ErrOther
      else case map_of (subs d) i of
             None \<Rightarrow> Inl ErrNotFound
           | Some r \<Rightarrow>
               let r' = completed st why reason now r
               in if \<not> reasonPaired (srStatus r') (srReason r') then Inl ErrCheckViolation
                  else Inr (updSub i (completed st why reason now) d))"

section \<open>Observations\<close>

definition validObservationTypes :: "string list" where
  "validObservationTypes = [''host'', ''port'', ''service'', ''banner'', ''package'', ''config'', ''verdict'']"

definition ValidObservationType :: "string \<Rightarrow> bool" where
  "ValidObservationType s \<longleftrightarrow> s \<in> set validObservationTypes"

text \<open>The foreign keys, the primary key and the type of the payload.\<close>

definition insertable :: "ingestEnv \<Rightarrow> ingestDB \<Rightarrow> ObservationRow \<Rightarrow> storeError option" where
  "insertable E d r =
     (if \<not> ieJsonb E (obPayload r) then Some ErrOther
      else if list_ex (\<lambda>x. obID x = obID r \<and> obAt x = obAt r) (obs d) then Some ErrConflict
      else if map_of (subs d) (obSubmission r) = None then Some ErrForeignKey
      else if \<not> list_ex (\<lambda>(i, j). list_ex (\<lambda>t. taskID t = obTask r) (jobTasks j)) (jobs (core d)) then Some ErrForeignKey
      else if map_of (points (core d)) (obPoint r) = None then Some ErrForeignKey
      else if obZone r \<notin> set (zones d) then Some ErrForeignKey
      else None)"

fun insert_loop :: "ingestEnv \<Rightarrow> ObservationRow list \<Rightarrow> ingestDB \<Rightarrow> storeError + ingestDB" where
  "insert_loop E [] d = Inr d"
| "insert_loop E (r # rs) d =
     (case insertable E d r of Some e \<Rightarrow> Inl e | None \<Rightarrow> insert_loop E rs (d\<lparr>obs := obs d @ [r]\<rparr>))"

definition InsertBatch :: "ingestEnv \<Rightarrow> ObservationRow list \<Rightarrow> IngestState \<Rightarrow> ingestDB \<Rightarrow> storeError + ingestDB" where
  "InsertBatch E rs st d =
     (if \<not> list_all (\<lambda>r. ValidObservationType (obType r)) rs then Inl ErrOther
      else insert_loop E (map (\<lambda>r. r\<lparr>obState := st\<rparr>) rs) d)"

definition promoted :: "string \<Rightarrow> IngestState \<Rightarrow> ObservationRow \<Rightarrow> ObservationRow" where
  "promoted i to1 r = (if obSubmission r = i \<and> obState r = IngestPending then r\<lparr>obState := to1\<rparr> else r)"

text \<open>
  Whether an accepted observation names a task, no earlier than an hour before the job; the rows of the
  tasks keep it as a column.
\<close>

definition named_by :: "ObservationRow list \<Rightarrow> uuid \<Rightarrow> time \<Rightarrow> bool" where
  "named_by os t created \<longleftrightarrow> list_ex (\<lambda>r. obTask r = t \<and> obState r = IngestAccepted \<and> obAt r \<ge> created - 3600 * 1000000000) os"

definition Promote :: "string \<Rightarrow> IngestState \<Rightarrow> ingestDB \<Rightarrow> storeError + ingestDB" where
  "Promote i to1 d =
     (if to1 = IngestPending then Inl ErrOther
      else let os = map (promoted i to1) (obs d)
           in Inr (d\<lparr>obs := os, core := (core d)\<lparr>jobs := markRows (named_by os) (jobs (core d))\<rparr>\<rparr>))"

definition Observations_Resolve :: "uuid \<Rightarrow> time \<Rightarrow> uuid \<Rightarrow> ingestDB \<Rightarrow> storeError + ingestDB" where
  "Observations_Resolve i at1 asset d =
     (if list_ex (\<lambda>r. obID r = i \<and> obAt r = at1) (obs d)
      then Inr (d\<lparr>obs := map (\<lambda>r. if obID r = i \<and> obAt r = at1 then r\<lparr>obAsset := Some asset\<rparr> else r) (obs d)\<rparr>)
      else Inl ErrNotFound)"

definition PendingOlderThan :: "time \<Rightarrow> time \<Rightarrow> ingestDB \<Rightarrow> nat" where
  "PendingOlderThan since cutoff d =
     length (filter (\<lambda>r. since \<le> obAt r \<and> obAt r < cutoff \<and> obState r = IngestPending) (obs d))"

section \<open>The message and the answer\<close>

record IngestChunk = ResultChunk +
  icSubmission :: string
  icJob :: string
  icEpoch :: int
  icIncomplete :: bool
  icTermination :: wireReason

datatype malformedWhy =
    MSubmissionId
  | MTooMany
  | MJobId
  | MOneSubmission
  | MAfterFinal
  | MJobChanged
  | MObservationType nat
  | MObservationId nat
  | MTaskId nat
  | MZoneId nat
  | MConfidence nat
  | MPayload nat
  | MNULEscape nat
  | MObservedAt nat

datatype ackDetail = DNone | DQuarantined "quarantineReason option" | DMalformed malformedWhy | DCompleted | DAlready | DRetry

record SubmitAck =
  saSubmission :: string
  saLast :: nat
  saStatus :: SubmitStatus
  saRetryMs :: nat
  saDetail :: ackDetail

definition malformed :: "string \<Rightarrow> malformedWhy \<Rightarrow> SubmitAck" where
  "malformed i why = \<lparr>saSubmission = i, saLast = 0, saStatus = REJECTED_MALFORMED, saRetryMs = 0, saDetail = DMalformed why\<rparr>"

text \<open>The state of one upload on one stream.\<close>

record submission =
  sbID :: string
  sbJob :: uuid
  sbEpoch :: int
  sbChunks :: int
  sbLast :: nat
  sbHas :: bool
  sbQuarantined :: bool
  sbReason :: "quarantineReason option"
  sbFinished :: bool
  sbIncomplete :: bool

definition newSubmission :: "string \<Rightarrow> uuid \<Rightarrow> int \<Rightarrow> submission" where
  "newSubmission i job e = \<lparr>sbID = i, sbJob = job, sbEpoch = e, sbChunks = 0, sbLast = 0, sbHas = False, sbQuarantined = False,
     sbReason = None, sbFinished = False, sbIncomplete = False\<rparr>"

section \<open>The checks\<close>

definition maxObservationsPerChunk :: nat where "maxObservationsPerChunk = 5000"
definition maxObservationAge :: duration where "maxObservationAge = 90 * 24 * 3600 * 1000000000"
definition maxObservationSkew :: duration where "maxObservationSkew = 3600 * 1000000000"

definition checkEpoch :: "uuid \<Rightarrow> uuid \<Rightarrow> int \<Rightarrow> tenantDB \<Rightarrow> quarantineReason option" where
  "checkEpoch sp job e d =
     (case Option.bind (map_of (jobs d) job) Current of
        None \<Rightarrow> Some NoLeaseIssued
      | Some l \<Rightarrow>
          if e < Epoch l then Some (SupersededEpoch e (Epoch l))
          else if e > Epoch l then Some (EpochNeverIssued e (Epoch l))
          else if HolderID l \<noteq> sp then Some HeldByAnother
          else None)"

definition zoneCheck :: "ingestEnv \<Rightarrow> uuid \<Rightarrow> Observation list \<Rightarrow> quarantineReason option" where
  "zoneCheck E zone os =
     (if list_ex (\<lambda>x. ZoneId x \<noteq> [] \<and> ZoneId x \<noteq> ieText E zone) os then Some ZoneNotEnrolled else None)"

definition tasksBelongToJob :: "ingestEnv \<Rightarrow> uuid \<Rightarrow> Observation list \<Rightarrow> tenantDB \<Rightarrow> storeError + bool" where
  "tasksBelongToJob E job os d =
     (if os = [] then Inr True
      else case Jobs_Tasks job d of
             Inl e \<Rightarrow> Inl e
           | Inr ts \<Rightarrow> Inr (list_all (\<lambda>x. TaskId x \<in> set (map (ieText E \<circ> taskID) ts)) os))"

fun package_loop :: "(string \<times> string) list \<Rightarrow> Observation list \<Rightarrow> quarantineReason option" where
  "package_loop targets [] = None"
| "package_loop targets (x # os) =
     (case decodeString ''address'' (Payload x) of
        None \<Rightarrow> Some PackageNoAddress
      | Some a \<Rightarrow>
          if a = [] then Some PackageNoAddress
          else if map_of targets (TaskId x) \<noteq> Some a then Some PackageOtherAddress
          else package_loop targets os)"

definition packageObservationsAreCredentialed :: "ingestEnv \<Rightarrow> uuid \<Rightarrow> Observation list \<Rightarrow> tenantDB \<Rightarrow>
    storeError + quarantineReason option" where
  "packageObservationsAreCredentialed E job os d =
     (let pkgs = filter (\<lambda>x. ObservationType x = ''package'') os
      in if pkgs = [] then Inr None
         else case map_of (jobs d) job of
                None \<Rightarrow> Inl ErrNotFound
              | Some j \<Rightarrow>
                  if Engine j \<noteq> ''host'' then Inr (Some PackageNotCredentialed)
                  else case Jobs_Tasks job d of
                         Inl e \<Rightarrow> Inl e
                       | Inr ts \<Rightarrow> Inr (package_loop (rev (map (\<lambda>t. (ieText E (taskID t), taskTarget t)) ts)) pkgs))"

lemma dropWhile_shorter: "\<not> length b < 6 \<Longrightarrow> P (hd b) \<Longrightarrow> length (dropWhile P b) < length b"
  by (cases b) (auto simp: less_Suc_eq_le length_dropWhile_le)

text \<open>
  The loop of \<open>hasNULEscape\<close> on the suffix from \<open>i\<close>: after a run of backslashes it goes on at the byte
  that follows the run.
\<close>

function hasNULEscape :: "string \<Rightarrow> bool" where
  "hasNULEscape b =
     (if length b < 6 then False
      else if hd b \<noteq> CHR 0x5C then hasNULEscape (tl b)
      else let run = length (takeWhile (\<lambda>c. c = CHR 0x5C) b); rest = dropWhile (\<lambda>c. c = CHR 0x5C) b
           in if odd run \<and> prefix ''u0000'' rest then True else hasNULEscape rest)"
  by pat_completeness auto
termination
  by (relation "measure length") (auto intro!: dropWhile_shorter)

declare hasNULEscape.simps [simp del]

text \<open>
  One observation of a chunk, with the reading of the clock for it. Instants count from year 1, the wire
  counts seconds from 1970.
\<close>

definition unixTime :: "int \<Rightarrow> time" where
  "unixTime s = (s + 62135596800) * 1000000000"

definition toObservation :: "ingestEnv \<Rightarrow> uuid \<Rightarrow> uuid \<Rightarrow> string \<Rightarrow> time \<Rightarrow> nat \<Rightarrow> Observation \<Rightarrow> malformedWhy + ObservationRow" where
  "toObservation E sp zone i now n x =
     (if \<not> ValidObservationType (ObservationType x) then Inl (MObservationType n)
      else case ieParse E (ObservationId x) of None \<Rightarrow> Inl (MObservationId n) | Some oid \<Rightarrow>
           case ieParse E (TaskId x) of None \<Rightarrow> Inl (MTaskId n) | Some tid \<Rightarrow>
           case (if ZoneId x = [] then Some zone else ieParse E (ZoneId x)) of None \<Rightarrow> Inl (MZoneId n) | Some z \<Rightarrow>
           case Confidence x of NaN \<Rightarrow> Inl (MConfidence n) | Inf \<Rightarrow> Inl (MConfidence n) | Finite c \<Rightarrow>
             if c < 0 \<or> c > 1 then Inl (MConfidence n)
             else if length (Payload x) = 0 \<or> \<not> jsonValid (Payload x) then Inl (MPayload n)
             else if hasNULEscape (Payload x) then Inl (MNULEscape n)
             else let at1 = (if ObservedAtUnix x = 0 then now else unixTime (ObservedAtUnix x))
                  in if ObservedAtUnix x \<noteq> 0 \<and> (at1 < now - maxObservationAge \<or> at1 > now + maxObservationSkew)
                     then Inl (MObservedAt n)
                     else Inr \<lparr>obID = oid, obSubmission = i, obTask = tid, obPoint = sp, obZone = z, obAsset = None,
                               obType = ObservationType x, obPayload = Payload x, obConfidence = c, obAt = at1,
                               obState = IngestPending\<rparr>)"

fun toObservations :: "ingestEnv \<Rightarrow> uuid \<Rightarrow> uuid \<Rightarrow> string \<Rightarrow> (nat \<Rightarrow> time) \<Rightarrow> nat \<Rightarrow> Observation list \<Rightarrow>
    malformedWhy + ObservationRow list" where
  "toObservations E sp zone i now n [] = Inr []"
| "toObservations E sp zone i now n (x # os) =
     (case toObservation E sp zone i (now n) n x of
        Inl e \<Rightarrow> Inl e
      | Inr r \<Rightarrow> (case toObservations E sp zone i now (Suc n) os of Inl e \<Rightarrow> Inl e | Inr rs \<Rightarrow> Inr (r # rs)))"

section \<open>The transaction of a chunk\<close>

text \<open>The statements of the transaction, to say which of them fails.\<close>

datatype stmt =
    SCurrent | SBegin | STasks | SPackageJob | SQuarantine | SInsert | SRecord | SPromote | SComplete | SReconcile | SAudit | SCommit

datatype ingestError = EMalformed malformedWhy | EConflictResume | EStore storeError

text \<open>The upload, the rows as the transaction sees them, and \<open>quarantineRaised\<close>.\<close>

record txState =
  tsSub :: submission
  tsDB :: ingestDB
  tsRaised :: "quarantineReason option"

type_synonym 'a txResult = "(ingestError \<times> txState) + 'a"

definition andThen :: "'e + 'a \<Rightarrow> ('a \<Rightarrow> 'e + 'b) \<Rightarrow> 'e + 'b" where
  "andThen r f = (case r of Inl e \<Rightarrow> Inl e | Inr x \<Rightarrow> f x)"

definition raiseQ :: "quarantineReason option \<Rightarrow> txState \<Rightarrow> txState" where
  "raiseQ q s = (case q of None \<Rightarrow> s | Some r \<Rightarrow> s\<lparr>tsSub := (tsSub s)\<lparr>sbQuarantined := True, sbReason := Some r\<rparr>\<rparr>)"

definition run_stmt :: "(stmt \<Rightarrow> bool) \<Rightarrow> stmt \<Rightarrow> (ingestDB \<Rightarrow> storeError + ingestDB) \<Rightarrow> txState \<Rightarrow> txState txResult" where
  "run_stmt fault st f s =
     (if fault st then Inl (EStore ErrOther, s)
      else case f (tsDB s) of Inl e \<Rightarrow> Inl (EStore e, s) | Inr d \<Rightarrow> Inr (s\<lparr>tsDB := d\<rparr>))"

text \<open>What one transaction draws from outside: failing statements, the clock of the database and the clock of Core.\<close>

record turn =
  tnFault :: "stmt \<Rightarrow> bool"
  tnDBNow :: time
  tnNow :: "nat \<Rightarrow> time"

text \<open>The connection: the authenticated scan point and the zone it was enrolled into.\<close>

record peer =
  prPoint :: uuid
  prZone :: uuid

definition epochGate :: "peer \<Rightarrow> turn \<Rightarrow> uuid \<Rightarrow> IngestChunk \<Rightarrow> txState \<Rightarrow> txState txResult" where
  "epochGate p t job c s =
     (if sbQuarantined (tsSub s) then Inr s
      else if tnFault t SCurrent then Inl (EStore ErrOther, s)
      else Inr (raiseQ (checkEpoch (prPoint p) job (icEpoch c) (core (tsDB s))) s))"

definition zoneGate :: "ingestEnv \<Rightarrow> peer \<Rightarrow> IngestChunk \<Rightarrow> txState \<Rightarrow> txState txResult" where
  "zoneGate E p c s =
     (if sbQuarantined (tsSub s) then Inr s else Inr (raiseQ (zoneCheck E (prZone p) (chObservations c)) s))"

definition beginStage :: "turn \<Rightarrow> uuid \<Rightarrow> IngestChunk \<Rightarrow> txState \<Rightarrow> txState txResult" where
  "beginStage t job c s =
     (if sbChunks (tsSub s) \<noteq> 0 then Inr s
      else let (st, reason) = (if sbQuarantined (tsSub s) then (SubmitAcceptedQuarantined, sbReason (tsSub s)) else (SubmitAccepted, None))
           in if tnFault t SBegin then Inl (EStore ErrOther, s)
              else case Submissions_Begin (icSubmission c) job (icEpoch c) st (sbIncomplete (tsSub s)) reason (tnDBNow t) (tsDB s) of
                     Inl e \<Rightarrow> Inl (if e = ErrConflict then EConflictResume else EStore e, s)
                   | Inr d \<Rightarrow> Inr (s\<lparr>tsDB := d\<rparr>))"

definition taskGate :: "ingestEnv \<Rightarrow> turn \<Rightarrow> uuid \<Rightarrow> IngestChunk \<Rightarrow> txState \<Rightarrow> txState txResult" where
  "taskGate E t job c s =
     (if sbQuarantined (tsSub s) then Inr s
      else if tnFault t STasks then Inl (EStore ErrOther, s)
      else case tasksBelongToJob E job (chObservations c) (core (tsDB s)) of
             Inl e \<Rightarrow> Inl (EStore e, s)
           | Inr ok \<Rightarrow> Inr (raiseQ (if ok then None else Some TaskOutsideJob) s))"

definition packageGate :: "ingestEnv \<Rightarrow> turn \<Rightarrow> uuid \<Rightarrow> IngestChunk \<Rightarrow> txState \<Rightarrow> txState txResult" where
  "packageGate E t job c s =
     (if sbQuarantined (tsSub s) then Inr s
      else if tnFault t SPackageJob then Inl (EStore ErrOther, s)
      else case packageObservationsAreCredentialed E job (chObservations c) (core (tsDB s)) of
             Inl e \<Rightarrow> Inl (EStore e, s)
           | Inr q \<Rightarrow> Inr (raiseQ q s))"

definition quarantineStage :: "turn \<Rightarrow> IngestChunk \<Rightarrow> txState \<Rightarrow> txState txResult" where
  "quarantineStage t c s =
     (if sbQuarantined (tsSub s) \<and> sbChunks (tsSub s) > 0 then
        (case sbReason (tsSub s) of
           None \<Rightarrow> Inl (EStore ErrOther, s)
         | Some q \<Rightarrow>
             if tnFault t SQuarantine then Inl (EStore ErrOther, s)
             else Inr (s\<lparr>tsDB := Submissions_Quarantine (icSubmission c) q (tsDB s), tsRaised := Some q\<rparr>))
      else Inr s)"

definition insertStage :: "ingestEnv \<Rightarrow> peer \<Rightarrow> turn \<Rightarrow> IngestChunk \<Rightarrow> txState \<Rightarrow> txState txResult" where
  "insertStage E p t c s =
     (case toObservations E (prPoint p) (prZone p) (icSubmission c) (tnNow t) 0 (chObservations c) of
        Inl why \<Rightarrow> Inl (EMalformed why, s)
      | Inr rs \<Rightarrow> run_stmt (tnFault t) SInsert (InsertBatch E rs IngestPending) s)"

definition counted :: "IngestChunk \<Rightarrow> submission \<Rightarrow> submission" where
  "counted c b = b\<lparr>sbChunks := sbChunks b + 1, sbLast := ChunkIndex c, sbHas := True\<rparr>"

definition recordStage :: "turn \<Rightarrow> IngestChunk \<Rightarrow> txState \<Rightarrow> txState txResult" where
  "recordStage t c s =
     andThen (run_stmt (tnFault t) SRecord (Submissions_RecordChunk (icSubmission c) (int (ChunkIndex c)) (sbIncomplete (tsSub s))) s)
       (\<lambda>s. Inr (s\<lparr>tsSub := counted c (tsSub s)\<rparr>))"

definition quarantinedEvent :: "peer \<Rightarrow> uuid \<Rightarrow> IngestChunk \<Rightarrow> AuditEvent" where
  "quarantinedEvent p job c =
     \<lparr>evActor = Some (prPoint p), evActorType = ActorScanPoint, evAction = ''submission.quarantined'', evResource = Some job,
      evDetail = [(''submission_id'', AText (icSubmission c)), (''lease_epoch'', ANum (icEpoch c))]\<rparr>"

definition finalStage :: "peer \<Rightarrow> turn \<Rightarrow> uuid \<Rightarrow> IngestChunk \<Rightarrow> txState \<Rightarrow> txState txResult" where
  "finalStage p t job c s =
     (let q = sbQuarantined (tsSub s);
          to1 = (if q then IngestQuarantined else IngestAccepted);
          st = (if q then SubmitAcceptedQuarantined else SubmitAccepted)
      in andThen (run_stmt (tnFault t) SPromote (Promote (icSubmission c) to1) s) (\<lambda>s.
         andThen (run_stmt (tnFault t) SComplete
           (Submissions_Complete (icSubmission c) st (terminationReason (icTermination c)) (sbReason (tsSub s)) (tnDBNow t)) s) (\<lambda>s.
         andThen (if q then Inr s
                  else run_stmt (tnFault t) SReconcile (\<lambda>d. Inr (d\<lparr>core := (core d)\<lparr>jobs :=
                         updateRow (sbJob (tsSub s)) (\<lambda>j. Some (ReconcileTasksWithResults j)) (jobs (core d))\<rparr>\<rparr>)) s) (\<lambda>s.
         andThen (if q then run_stmt (tnFault t) SAudit (\<lambda>d. Inr (d\<lparr>core := Audit_Record (quarantinedEvent p job c) (core d)\<rparr>)) s
                  else Inr s) (\<lambda>s.
         Inr (s\<lparr>tsSub := (tsSub s)\<lparr>sbFinished := True\<rparr>\<rparr>))))))"

definition ackOf :: "IngestChunk \<Rightarrow> submission \<Rightarrow> SubmitAck" where
  "ackOf c b =
     (if \<not> Final c
      then \<lparr>saSubmission = icSubmission c, saLast = ChunkIndex c, saStatus = ACCEPTED, saRetryMs = 0, saDetail = DNone\<rparr>
      else \<lparr>saSubmission = icSubmission c, saLast = ChunkIndex c,
            saStatus = (if sbQuarantined b then ACCEPTED_QUARANTINED else ACCEPTED), saRetryMs = 0,
            saDetail = DQuarantined (sbReason b)\<rparr>)"

definition chunkTx :: "ingestEnv \<Rightarrow> peer \<Rightarrow> turn \<Rightarrow> uuid \<Rightarrow> IngestChunk \<Rightarrow> submission \<Rightarrow> ingestDB \<Rightarrow> txState txResult" where
  "chunkTx E p t job c b d =
     andThen (epochGate p t job c \<lparr>tsSub = b, tsDB = d, tsRaised = None\<rparr>) (\<lambda>s.
     andThen (zoneGate E p c s) (\<lambda>s.
     andThen (beginStage t job c s) (\<lambda>s.
     andThen (taskGate E t job c s) (\<lambda>s.
     andThen (packageGate E t job c s) (\<lambda>s.
     andThen (quarantineStage t c s) (\<lambda>s.
     andThen (insertStage E p t c s) (\<lambda>s.
     andThen (recordStage t c s) (\<lambda>s.
     andThen (if Final c then finalStage p t job c s else Inr s) (\<lambda>s.
     if tnFault t SCommit then Inl (EStore ErrOther, s) else Inr s)))))))))"

section \<open>A connection\<close>

text \<open>What a connection does next. An answer leaves the stream open; an error ends it.\<close>

datatype pc =
    AtReceive
  | AtTx uuid IngestChunk
  | AtResume uuid IngestChunk
  | AtRecord IngestChunk quarantineReason malformedWhy
  | AtAck SubmitAck
  | AtEnd

record conn =
  cnPeer :: peer
  cnSub :: "submission option"
  cnPC :: pc

definition openStream :: "string \<Rightarrow> ingestDB \<Rightarrow> conn option" where
  "openStream fp d =
     map_option (\<lambda>(i, x). \<lparr>cnPeer = \<lparr>prPoint = i, prZone = spZone x\<rparr>, cnSub = None, cnPC = AtReceive\<rparr>) (GetByFingerprint fp (core d))"

text \<open>\<open>handleChunk\<close> up to its transaction.\<close>

definition enterChunk :: "ingestEnv \<Rightarrow> IngestChunk \<Rightarrow> submission option \<Rightarrow> submission option \<times> (SubmitAck + uuid)" where
  "enterChunk E c sb =
     (let i = icSubmission c
      in if i = [] \<or> length i > 200 then (sb, Inl (malformed i MSubmissionId))
         else if length (chObservations c) > maxObservationsPerChunk then (sb, Inl (malformed i MTooMany))
         else case ieParse E (icJob c) of
                None \<Rightarrow> (sb, Inl (malformed i MJobId))
              | Some job \<Rightarrow>
                  let b = (case sb of None \<Rightarrow> newSubmission i job (icEpoch c) | Some b \<Rightarrow> b)
                  in if sbID b \<noteq> i then (Some b, Inl (malformed i MOneSubmission))
                     else if sbFinished b then (Some b, Inl (malformed i MAfterFinal))
                     else let b' = b\<lparr>sbIncomplete := sbIncomplete b \<or> icIncomplete c\<rparr>
                          in if job \<noteq> sbJob b' \<or> icEpoch c \<noteq> sbEpoch b' then (Some b', Inl (malformed i MJobChanged))
                             else (Some b', Inr job))"

definition retryLater :: "IngestChunk \<Rightarrow> submission \<Rightarrow> SubmitAck" where
  "retryLater c b =
     \<lparr>saSubmission = icSubmission c, saLast = (if sbHas b then sbLast b else 0), saStatus = RETRY_LATER, saRetryMs = 2000, saDetail = DRetry\<rparr>"

text \<open>The rest of \<open>handleChunk\<close>, after its transaction; a transaction that failed leaves the rows.\<close>

definition txStep :: "ingestEnv \<Rightarrow> turn \<Rightarrow> uuid \<Rightarrow> IngestChunk \<Rightarrow> submission \<Rightarrow> conn \<Rightarrow> ingestDB \<Rightarrow> conn \<times> ingestDB" where
  "txStep E t job c b n d =
     (case chunkTx E (cnPeer n) t job c b d of
        Inr s \<Rightarrow> (n\<lparr>cnSub := Some (tsSub s), cnPC := AtAck (ackOf c (tsSub s))\<rparr>, tsDB s)
      | Inl (e, s) \<Rightarrow>
          (n\<lparr>cnSub := Some (tsSub s),
             cnPC := (case e of
                        EConflictResume \<Rightarrow> AtResume job c
                      | EMalformed why \<Rightarrow>
                          (case tsRaised s of
                             Some q \<Rightarrow> AtRecord c q why
                           | None \<Rightarrow> AtAck (malformed (icSubmission c) why))
                      | EStore _ \<Rightarrow> AtAck (retryLater c (tsSub s)))\<rparr>, d))"

definition rehydrate :: "SubmissionRow \<Rightarrow> submission \<Rightarrow> submission" where
  "rehydrate r b =
     (let b = b\<lparr>sbChunks := srChunks r, sbIncomplete := srIncomplete r\<rparr>
      in if srStatus r = SubmitAcceptedQuarantined
         then b\<lparr>sbQuarantined := True, sbReason := (case srReason r of None \<Rightarrow> sbReason b | Some q \<Rightarrow> Some q)\<rparr> else b)"

text \<open>\<open>resume\<close>: it calls \<open>handleChunk\<close> again, whose checks before the transaction run again.\<close>

definition reenter :: "ingestEnv \<Rightarrow> IngestChunk \<Rightarrow> submission \<Rightarrow> conn \<Rightarrow> conn" where
  "reenter E c b n =
     (case enterChunk E c (Some b) of
        (sb, Inl a) \<Rightarrow> n\<lparr>cnSub := sb, cnPC := AtAck a\<rparr>
      | (sb, Inr job) \<Rightarrow> n\<lparr>cnSub := sb, cnPC := AtTx job c\<rparr>)"

definition resumeStep :: "ingestEnv \<Rightarrow> bool \<Rightarrow> IngestChunk \<Rightarrow> submission \<Rightarrow> conn \<Rightarrow> ingestDB \<Rightarrow> conn" where
  "resumeStep E fails c b n d =
     (case (if fails then None else map_of (subs d) (sbID b)) of
        None \<Rightarrow> n\<lparr>cnPC := AtAck \<lparr>saSubmission = sbID b, saLast = 0, saStatus = RETRY_LATER, saRetryMs = 2000, saDetail = DNone\<rparr>\<rparr>
      | Some r \<Rightarrow>
          if srCompleted r \<noteq> None
          then n\<lparr>cnPC := AtAck \<lparr>saSubmission = sbID b, saLast = ChunkIndex c, saStatus = REJECTED_DUPLICATE, saRetryMs = 0,
                  saDetail = DCompleted\<rparr>\<rparr>
          else let b' = rehydrate r b
               in case srLast r of
                    None \<Rightarrow> reenter E c b' n
                  | Some v \<Rightarrow>
                      if v < 0 \<or> v > 4294967295 then n\<lparr>cnSub := Some b', cnPC := AtEnd\<rparr>
                      else let b'' = b'\<lparr>sbLast := nat v, sbHas := True\<rparr>
                           in if ChunkIndex c \<le> sbLast b''
                              then n\<lparr>cnSub := Some b'',
                                     cnPC := AtAck \<lparr>saSubmission = sbID b'', saLast = sbLast b'', saStatus = ACCEPTED, saRetryMs = 0,
                                                    saDetail = DAlready\<rparr>\<rparr>
                              else reenter E c b'' n)"

definition recordStep :: "turn \<Rightarrow> IngestChunk \<Rightarrow> quarantineReason \<Rightarrow> malformedWhy \<Rightarrow> conn \<Rightarrow> ingestDB \<Rightarrow> conn \<times> ingestDB" where
  "recordStep t c q why n d =
     (n\<lparr>cnPC := AtAck (malformed (icSubmission c) why)\<rparr>,
      if tnFault t SQuarantine \<or> tnFault t SCommit then d else Submissions_Quarantine (icSubmission c) q d)"

text \<open>A chunk arrives; one transaction of a connection.\<close>

definition receive :: "ingestEnv \<Rightarrow> IngestChunk \<Rightarrow> conn \<Rightarrow> conn" where
  "receive E c n =
     (case enterChunk E c (cnSub n) of
        (sb, Inl a) \<Rightarrow> n\<lparr>cnSub := sb, cnPC := AtAck a\<rparr>
      | (sb, Inr job) \<Rightarrow> n\<lparr>cnSub := sb, cnPC := AtTx job c\<rparr>)"

definition transact :: "ingestEnv \<Rightarrow> turn \<Rightarrow> conn \<times> ingestDB \<Rightarrow> conn \<times> ingestDB" where
  "transact E t nd =
     (case nd of (n, d) \<Rightarrow>
        (case (cnPC n, cnSub n) of
           (AtTx job c, Some b) \<Rightarrow> txStep E t job c b n d
         | (AtResume job c, Some b) \<Rightarrow> (resumeStep E (tnFault t SCurrent) c b n d, d)
         | (AtRecord c q why, _) \<Rightarrow> recordStep t c q why n d
         | _ \<Rightarrow> (n, d)))"

end
