(* ===== verification/Core_Ledger.thy ===== *)
theory Core_Ledger
  imports Core_Ingest
begin

text \<open>
  What the ledger of submissions and the observations look like in every reachable state, over all
  interleavings of connections and of the other transactions of the tenant, and what a chunk must have
  passed before its submission is released to the finding pipeline.
\<close>

section \<open>Steps\<close>

record ingestSys =
  isDB :: ingestDB
  isConns :: "nat \<Rightarrow> conn option"

inductive ingest_step :: "ingestEnv \<Rightarrow> coreEnv \<Rightarrow> ingestSys \<Rightarrow> ingestSys \<Rightarrow> bool" for E C where
  opened: "openStream fp (isDB s) = Some n \<Longrightarrow> isConns s k = None \<Longrightarrow>
    ingest_step E C s (s\<lparr>isConns := (isConns s)(k \<mapsto> n)\<rparr>)"
| received: "isConns s k = Some n \<Longrightarrow> cnPC n = AtReceive \<Longrightarrow>
    ingest_step E C s (s\<lparr>isConns := (isConns s)(k \<mapsto> receive E c n)\<rparr>)"
| transacted: "isConns s k = Some n \<Longrightarrow> transact E t (n, isDB s) = (n', d') \<Longrightarrow>
    ingest_step E C s \<lparr>isDB = d', isConns = (isConns s)(k \<mapsto> n')\<rparr>"
| answered: "isConns s k = Some n \<Longrightarrow> cnPC n = AtAck a \<Longrightarrow>
    ingest_step E C s (s\<lparr>isConns := (isConns s)(k \<mapsto> n\<lparr>cnPC := AtReceive\<rparr>)\<rparr>)"
| ended: "ingest_step E C s (s\<lparr>isConns := (isConns s)(k := None)\<rparr>)"
| resolved: "Observations_Resolve i at1 asset (isDB s) = Inr d' \<Longrightarrow> ingest_step E C s (s\<lparr>isDB := d'\<rparr>)"
| other: "db_step C (core (isDB s)) d' \<Longrightarrow> ingest_step E C s (s\<lparr>isDB := (isDB s)\<lparr>core := d'\<rparr>\<rparr>)"
| zone_added: "ingest_step E C s (s\<lparr>isDB := (isDB s)\<lparr>zones := zones (isDB s) @ [z]\<rparr>\<rparr>)"

text \<open>From any other rows of the tenant, with no submission yet.\<close>

inductive ingest_reach :: "ingestEnv \<Rightarrow> coreEnv \<Rightarrow> ingestSys \<Rightarrow> bool" for E C where
  start: "ingest_reach E C \<lparr>isDB = \<lparr>core = d, zones = zs, subs = [], obs = []\<rparr>, isConns = (\<lambda>k. None)\<rparr>"
| stepped: "ingest_reach E C s \<Longrightarrow> ingest_step E C s s' \<Longrightarrow> ingest_reach E C s'"

section \<open>The stages of a transaction\<close>

lemma andThen_Inr: "andThen r f = Inr y \<longleftrightarrow> (\<exists>x. r = Inr x \<and> f x = Inr y)"
  by (auto simp: andThen_def split: sum.splits)

lemma andThen_Inl: "andThen r f = Inl e \<longleftrightarrow> r = Inl e \<or> (\<exists>x. r = Inr x \<and> f x = Inl e)"
  by (auto simp: andThen_def split: sum.splits)

lemma run_stmt_Inr: "run_stmt fault st f s = Inr s' \<longleftrightarrow> \<not> fault st \<and> (\<exists>d. f (tsDB s) = Inr d \<and> s' = s\<lparr>tsDB := d\<rparr>)"
  by (auto simp: run_stmt_def split: sum.splits)

lemma run_stmt_Inl: "run_stmt fault st f s = Inl (e, s') \<Longrightarrow> s' = s \<and> (\<exists>x. e = EStore x)"
  by (auto simp: run_stmt_def split: sum.splits if_splits)

text \<open>A gate changes nothing but the verdict, and only from clear to quarantined with a reason.\<close>

definition gated :: "submission \<Rightarrow> submission \<Rightarrow> bool" where
  "gated b b' \<longleftrightarrow> b' = b \<or> (\<not> sbQuarantined b \<and> (\<exists>r. b' = b\<lparr>sbQuarantined := True, sbReason := Some r\<rparr>))"

lemma gated_trans: "gated a b \<Longrightarrow> gated b c \<Longrightarrow> gated a c"
  by (auto simp: gated_def)

lemma gated_keeps: "gated b b' \<Longrightarrow> sbID b' = sbID b \<and> sbJob b' = sbJob b \<and> sbEpoch b' = sbEpoch b \<and> sbChunks b' = sbChunks b \<and>
    sbIncomplete b' = sbIncomplete b \<and> sbFinished b' = sbFinished b \<and> sbLast b' = sbLast b \<and> sbHas b' = sbHas b
    \<and> (sbQuarantined b \<longrightarrow> sbQuarantined b' \<and> sbReason b' = sbReason b)"
  by (auto simp: gated_def)

lemma gated_reason: "gated b b' \<Longrightarrow> (sbQuarantined b \<longrightarrow> sbReason b \<noteq> None) \<Longrightarrow> sbQuarantined b' \<longrightarrow> sbReason b' \<noteq> None"
  by (auto simp: gated_def)

lemma raiseQ_gated: "\<not> sbQuarantined (tsSub s) \<Longrightarrow> gated (tsSub s) (tsSub (raiseQ q s))"
  by (auto simp: raiseQ_def gated_def split: option.splits)

lemma raiseQ_frame [simp]: "tsDB (raiseQ q s) = tsDB s" "tsRaised (raiseQ q s) = tsRaised s"
  by (simp_all add: raiseQ_def split: option.splits)

lemma raiseQ_clear: "\<not> sbQuarantined (tsSub (raiseQ q s)) \<Longrightarrow> q = None \<and> \<not> sbQuarantined (tsSub s)"
  by (auto simp: raiseQ_def split: option.splits)

lemma gates_Inr:
  "epochGate p t job c s = Inr s' \<Longrightarrow> tsDB s' = tsDB s \<and> tsRaised s' = tsRaised s \<and> gated (tsSub s) (tsSub s') \<and>
    (sbQuarantined (tsSub s') \<or> checkEpoch (prPoint p) job (icEpoch c) (core (tsDB s)) = None)"
  "zoneGate E p c s = Inr s' \<Longrightarrow> tsDB s' = tsDB s \<and> tsRaised s' = tsRaised s \<and> gated (tsSub s) (tsSub s') \<and>
    (sbQuarantined (tsSub s') \<or> zoneCheck E (prZone p) (chObservations c) = None)"
  "taskGate E t job c s = Inr s' \<Longrightarrow> tsDB s' = tsDB s \<and> tsRaised s' = tsRaised s \<and> gated (tsSub s) (tsSub s') \<and>
    (sbQuarantined (tsSub s') \<or> tasksBelongToJob E job (chObservations c) (core (tsDB s)) = Inr True)"
  "packageGate E t job c s = Inr s' \<Longrightarrow> tsDB s' = tsDB s \<and> tsRaised s' = tsRaised s \<and> gated (tsSub s) (tsSub s') \<and>
    (sbQuarantined (tsSub s') \<or> packageObservationsAreCredentialed E job (chObservations c) (core (tsDB s)) = Inr None)"
  by (auto simp: epochGate_def zoneGate_def taskGate_def packageGate_def gated_def raiseQ_def
      split: if_splits option.splits sum.splits)

lemma gates_Inl:
  "epochGate p t job c s = Inl (e, s') \<Longrightarrow> s' = s \<and> (\<exists>x. e = EStore x)"
  "zoneGate E p c s = Inl (e, s') \<Longrightarrow> False"
  "taskGate E t job c s = Inl (e, s') \<Longrightarrow> s' = s \<and> (\<exists>x. e = EStore x)"
  "packageGate E t job c s = Inl (e, s') \<Longrightarrow> s' = s \<and> (\<exists>x. e = EStore x)"
  by (auto simp: epochGate_def zoneGate_def taskGate_def packageGate_def split: if_splits sum.splits)

text \<open>The row a first chunk starts with, and what the later stages make of it.\<close>

definition begun :: "uuid \<Rightarrow> IngestChunk \<Rightarrow> submission \<Rightarrow> time \<Rightarrow> SubmissionRow" where
  "begun job c b now =
     \<lparr>srJob = job, srEpoch = icEpoch c, srStatus = (if sbQuarantined b then SubmitAcceptedQuarantined else SubmitAccepted),
      srChunks = 0, srLast = None, srIncomplete = sbIncomplete b, srTermination = None,
      srReason = (if sbQuarantined b then sbReason b else None), srReceived = now, srCompleted = None\<rparr>"

lemma beginStage_Inr:
  assumes "beginStage t job c s = Inr s'"
  shows "s' = s\<lparr>tsDB := (if sbChunks (tsSub s) \<noteq> 0 then tsDB s
            else (tsDB s)\<lparr>subs := subs (tsDB s) @ [(icSubmission c, begun job c (tsSub s) (tnDBNow t))]\<rparr>)\<rparr>
    \<and> (sbChunks (tsSub s) = 0 \<longrightarrow> map_of (subs (tsDB s)) (icSubmission c) = None \<and> map_of (jobs (core (tsDB s))) job \<noteq> None
        \<and> (sbQuarantined (tsSub s) \<longrightarrow> sbReason (tsSub s) \<noteq> None))"
  using assms by (auto simp: beginStage_def Submissions_Begin_def begun_def split: if_splits)

lemma quarantineStage_Inr:
  assumes "quarantineStage t c s = Inr s'"
  shows "tsSub s' = tsSub s \<and>
    (if sbQuarantined (tsSub s) \<and> sbChunks (tsSub s) > 0
     then \<exists>q. sbReason (tsSub s) = Some q \<and> tsDB s' = Submissions_Quarantine (icSubmission c) q (tsDB s) \<and> tsRaised s' = Some q
     else s' = s)"
  using assms by (auto simp: quarantineStage_def split: if_splits option.splits)

lemma insertStage_Inr:
  assumes "insertStage E p t c s = Inr s'"
  obtains rs d where "toObservations E (prPoint p) (prZone p) (icSubmission c) (tnNow t) 0 (chObservations c) = Inr rs"
    "InsertBatch E rs IngestPending (tsDB s) = Inr d" "s' = s\<lparr>tsDB := d\<rparr>"
  using assms by (auto simp: insertStage_def run_stmt_Inr split: sum.splits)

lemma recordStage_Inr:
  assumes "recordStage t c s = Inr s'"
  obtains r where "map_of (subs (tsDB s)) (icSubmission c) = Some r" "int (ChunkIndex c) \<le> maxInt4" "srChunks r < maxInt4"
    "s' = s\<lparr>tsSub := counted c (tsSub s),
       tsDB := updSub (icSubmission c) (recorded (int (ChunkIndex c)) (sbIncomplete (tsSub s))) (tsDB s)\<rparr>"
  using assms by (auto simp: recordStage_def andThen_Inr run_stmt_Inr Submissions_RecordChunk_def split: option.splits if_splits)

text \<open>The rows after a terminal chunk.\<close>

lemma finalStage_Inr:
  assumes "finalStage p t job c s = Inr s'"
  obtains d2 where
    "Submissions_Complete (icSubmission c) (if sbQuarantined (tsSub s) then SubmitAcceptedQuarantined else SubmitAccepted)
       (terminationReason (icTermination c)) (sbReason (tsSub s)) (tnDBNow t)
       ((tsDB s)\<lparr>obs := map (promoted (icSubmission c) (if sbQuarantined (tsSub s) then IngestQuarantined else IngestAccepted)) (obs (tsDB s)),
          core := (core (tsDB s))\<lparr>jobs := markRows (named_by (map (promoted (icSubmission c)
            (if sbQuarantined (tsSub s) then IngestQuarantined else IngestAccepted)) (obs (tsDB s)))) (jobs (core (tsDB s)))\<rparr>\<rparr>) = Inr d2"
    "subs (tsDB s') = subs d2" "obs (tsDB s') = obs d2" "zones (tsDB s') = zones d2"
    "tsSub s' = (tsSub s)\<lparr>sbFinished := True\<rparr>" "tsRaised s' = tsRaised s"
  using assms
  by (cases "sbQuarantined (tsSub s)") (auto simp: finalStage_def andThen_Inr run_stmt_Inr Promote_def Let_def)

subsection \<open>Observations\<close>

text \<open>The row of an observation says what the observation says.\<close>

definition rowOf :: "ingestEnv \<Rightarrow> peer \<Rightarrow> string \<Rightarrow> Observation \<Rightarrow> ObservationRow \<Rightarrow> bool" where
  "rowOf E p i x r \<longleftrightarrow> ieParse E (ObservationId x) = Some (obID r) \<and> ieParse E (TaskId x) = Some (obTask r) \<and> obSubmission r = i
     \<and> obPoint r = prPoint p \<and> obType r = ObservationType x \<and> obPayload r = Payload x \<and> Confidence x = Finite (obConfidence r)
     \<and> (ObservedAtUnix x \<noteq> 0 \<longrightarrow> obAt r = unixTime (ObservedAtUnix x))
     \<and> (if ZoneId x = [] then obZone r = prZone p else ieParse E (ZoneId x) = Some (obZone r))"

lemma toObservation_rowOf:
  assumes "toObservation E (prPoint p) (prZone p) i now n x = Inr r"
  shows "rowOf E p i x r \<and> obState r = IngestPending \<and> obAsset r = None"
  using assms unfolding toObservation_def rowOf_def
  by (auto simp: Let_def split: if_splits option.splits float32.splits)

lemma toObservations_rows:
  assumes "toObservations E (prPoint p) (prZone p) i now n os = Inr rs"
  shows "list_all2 (\<lambda>x r. rowOf E p i x r \<and> obState r = IngestPending \<and> obAsset r = None) os rs"
  using assms
  by (induction os arbitrary: n rs) (auto split: sum.splits dest: toObservation_rowOf)

lemma insert_loop_Inr:
  "insert_loop E rs d = Inr d' \<Longrightarrow> d' = d\<lparr>obs := obs d @ rs\<rparr> \<and> (\<forall>r \<in> set rs. map_of (subs d) (obSubmission r) \<noteq> None \<and> obZone r \<in> set (zones d))"
proof (induction rs arbitrary: d)
  case (Cons r rs)
  then have "insertable E d r = None" "insert_loop E rs (d\<lparr>obs := obs d @ [r]\<rparr>) = Inr d'"
    by (auto split: option.splits)
  moreover from this(1) have "map_of (subs d) (obSubmission r) \<noteq> None" "obZone r \<in> set (zones d)"
    by (auto simp: insertable_def split: if_splits)
  ultimately show ?case using Cons.IH [of "d\<lparr>obs := obs d @ [r]\<rparr>"] by simp
qed simp

definition obKeys :: "ObservationRow list \<Rightarrow> (uuid \<times> time) list" where
  "obKeys os = map (\<lambda>r. (obID r, obAt r)) os"

lemma insert_loop_keys: "insert_loop E rs d = Inr d' \<Longrightarrow> distinct (obKeys (obs d)) \<Longrightarrow> distinct (obKeys (obs d'))"
proof (induction rs arbitrary: d)
  case (Cons r rs)
  then have "insertable E d r = None" "insert_loop E rs (d\<lparr>obs := obs d @ [r]\<rparr>) = Inr d'"
    by (auto split: option.splits)
  moreover from this(1) Cons.prems(2) have "distinct (obKeys (obs d @ [r]))"
    by (auto simp: insertable_def obKeys_def list_ex_iff split: if_splits)
  ultimately show ?case using Cons.IH [of "d\<lparr>obs := obs d @ [r]\<rparr>"] by simp
qed simp

lemma InsertBatch_Inr:
  assumes "InsertBatch E rs IngestPending d = Inr d'" "\<forall>r \<in> set rs. obState r = IngestPending"
  shows "insert_loop E rs d = Inr d'"
proof -
  have "map (\<lambda>r. r\<lparr>obState := IngestPending\<rparr>) rs = rs" using assms(2) by (intro map_idI) auto
  then show ?thesis using assms(1) by (simp add: InsertBatch_def split: if_splits)
qed

subsection \<open>A committed chunk\<close>

text \<open>How the ledger row of the submission moves when a chunk commits, with the verdict \<open>b\<close> of the checks.\<close>

definition quarantinedRow :: "submission \<Rightarrow> SubmissionRow \<Rightarrow> SubmissionRow" where
  "quarantinedRow b r =
     (if sbQuarantined b \<and> sbChunks b > 0 \<and> srStatus r = SubmitAccepted \<and> srCompleted r = None
      then r\<lparr>srStatus := SubmitAcceptedQuarantined, srReason := sbReason b\<rparr> else r)"

definition row_step :: "turn \<Rightarrow> IngestChunk \<Rightarrow> submission \<Rightarrow> SubmissionRow \<Rightarrow> SubmissionRow \<Rightarrow> bool" where
  "row_step t c b r r' \<longleftrightarrow>
     srChunks r < maxInt4 \<and> int (ChunkIndex c) \<le> maxInt4 \<and> (sbQuarantined b \<and> (Final c \<or> sbChunks b > 0) \<longrightarrow> sbReason b \<noteq> None) \<and>
     (let r1 = recorded (int (ChunkIndex c)) (sbIncomplete b) (quarantinedRow b r)
      in if Final c
         then r' = completed (if sbQuarantined b then SubmitAcceptedQuarantined else SubmitAccepted)
                (terminationReason (icTermination c)) (sbReason b) (tnDBNow t) r1 \<and> reasonPaired (srStatus r') (srReason r')
         else r' = r1)"

lemma updSub_fields [simp]: "obs (updSub i f d) = obs d" "core (updSub i f d) = core d" "zones (updSub i f d) = zones d"
  by (simp_all add: updSub_def)

lemma updSub_map: "map_of (subs (updSub i f d)) = (map_of (subs d))(i := map_option f (map_of (subs d) i))"
  by (rule ext) (simp add: updSub_def map_of_rows option.map_ident)

lemma updSub_keys: "map fst (subs (updSub i f d)) = map fst (subs d)"
  by (simp add: updSub_def keys_rows del: map_map)

lemma map_of_snoc: "map_of xs i = None \<Longrightarrow> [i \<mapsto> r] ++ map_of xs = (map_of xs)(i \<mapsto> r)"
  by (rule ext) (auto simp: map_add_def split: option.splits)

lemma Submissions_Quarantine_row:
  assumes "sbQuarantined b" "sbChunks b > 0" "sbReason b = Some q"
  shows "Submissions_Quarantine i q d = updSub i (quarantinedRow b) d"
proof -
  have "quarantinedRow b = markQuarantined q"
    using assms by (auto simp: quarantinedRow_def markQuarantined_def fun_eq_iff)
  then show ?thesis by (simp add: Submissions_Quarantine_def)
qed

lemma Submissions_Complete_Inr:
  assumes "Submissions_Complete i st why reason now d = Inr d'" "map_of (subs d) i = Some r"
  shows "d' = updSub i (completed st why reason now) d" "st = SubmitAcceptedQuarantined \<Longrightarrow> reason \<noteq> None"
    "reasonPaired st (srReason (completed st why reason now r))"
  using assms by (auto simp: Submissions_Complete_def Let_def completed_def split: if_splits)

lemma final_row:
  assumes "finalStage p t job c s8 = Inr s" "tsSub s8 = counted c b"
    "map_of (subs (tsDB s8)) (icSubmission c) = Some (recorded (int (ChunkIndex c)) (sbIncomplete b) (quarantinedRow b r))"
    "int (ChunkIndex c) \<le> maxInt4" "srChunks r < maxInt4" "Final c"
    "sbQuarantined b \<and> sbChunks b > 0 \<longrightarrow> sbReason b \<noteq> None"
  shows "\<exists>r'. row_step t c b r r' \<and> map_of (subs (tsDB s)) = (map_of (subs (tsDB s8)))(icSubmission c \<mapsto> r') \<and>
    map fst (subs (tsDB s)) = map fst (subs (tsDB s8)) \<and> zones (tsDB s) = zones (tsDB s8) \<and>
    obs (tsDB s) = map (promoted (icSubmission c) (if sbQuarantined b then IngestQuarantined else IngestAccepted)) (obs (tsDB s8)) \<and>
    tsSub s = (tsSub s8)\<lparr>sbFinished := True\<rparr>"
proof -
  let ?st = "if sbQuarantined b then SubmitAcceptedQuarantined else SubmitAccepted"
  let ?os = "map (promoted (icSubmission c) (if sbQuarantined b then IngestQuarantined else IngestAccepted)) (obs (tsDB s8))"
  let ?r = "recorded (int (ChunkIndex c)) (sbIncomplete b) (quarantinedRow b r)"
  let ?f = "completed ?st (terminationReason (icTermination c)) (sbReason b) (tnDBNow t)"
  have cq: "sbQuarantined (counted c x) = sbQuarantined x" "sbReason (counted c x) = sbReason x" for x by (simp_all add: counted_def)
  obtain d2 where cm: "Submissions_Complete (icSubmission c) ?st (terminationReason (icTermination c)) (sbReason b) (tnDBNow t)
       ((tsDB s8)\<lparr>obs := ?os, core := (core (tsDB s8))\<lparr>jobs := markRows (named_by ?os) (jobs (core (tsDB s8)))\<rparr>\<rparr>) = Inr d2"
    and d2: "subs (tsDB s) = subs d2" "obs (tsDB s) = obs d2" "zones (tsDB s) = zones d2" "tsSub s = (tsSub s8)\<lparr>sbFinished := True\<rparr>"
    by (rule finalStage_Inr [OF assms(1)]) (simp add: assms(2) cq)
  note sc = Submissions_Complete_Inr [OF cm, simplified, OF assms(3)]
  have "row_step t c b r (?f ?r)"
    using sc(2,3) assms(4-7) by (simp add: row_step_def Let_def completed_def split: if_splits)
  then show ?thesis
    using d2 sc(1) assms(3) by (intro exI [of _ "?f ?r"]) (simp add: updSub_map updSub_keys)
qed

lemma quarantineStage_row:
  assumes "quarantineStage t c s = Inr s'"
  shows "tsSub s' = tsSub s" "tsDB s' = updSub (icSubmission c) (quarantinedRow (tsSub s)) (tsDB s)"
    "sbQuarantined (tsSub s) \<and> sbChunks (tsSub s) > 0 \<longrightarrow> sbReason (tsSub s) \<noteq> None"
proof -
  have "updSub i (quarantinedRow (tsSub s)) x = x" if "\<not> (sbQuarantined (tsSub s) \<and> sbChunks (tsSub s) > 0)" for i x
  proof -
    have "quarantinedRow (tsSub s) = (\<lambda>r. r)" using that by (auto simp: quarantinedRow_def fun_eq_iff)
    then show ?thesis by (simp add: updSub_def cong: if_cong)
  qed
  then show "tsSub s' = tsSub s" "tsDB s' = updSub (icSubmission c) (quarantinedRow (tsSub s)) (tsDB s)"
    "sbQuarantined (tsSub s) \<and> sbChunks (tsSub s) > 0 \<longrightarrow> sbReason (tsSub s) \<noteq> None"
    using quarantineStage_Inr [OF assms] Submissions_Quarantine_row [of "tsSub s"] by (auto split: if_splits)
qed

text \<open>From the ledger row to the record of the chunk, with the verdict of all checks.\<close>

lemma stored_chunk:
  assumes "quarantineStage t c s = Inr s6" "insertStage E p t c s6 = Inr s7" "recordStage t c s7 = Inr s8"
  obtains rs r where
    "list_all2 (\<lambda>x r. rowOf E p (icSubmission c) x r \<and> obState r = IngestPending \<and> obAsset r = None) (chObservations c) rs"
    "map_of (subs (tsDB s)) (icSubmission c) = Some r" "int (ChunkIndex c) \<le> maxInt4" "srChunks r < maxInt4"
    "sbQuarantined (tsSub s) \<and> sbChunks (tsSub s) > 0 \<longrightarrow> sbReason (tsSub s) \<noteq> None"
    "map_of (subs (tsDB s8)) = (map_of (subs (tsDB s)))
       (icSubmission c \<mapsto> recorded (int (ChunkIndex c)) (sbIncomplete (tsSub s)) (quarantinedRow (tsSub s) r))"
    "map fst (subs (tsDB s8)) = map fst (subs (tsDB s))" "obs (tsDB s8) = obs (tsDB s) @ rs" "zones (tsDB s8) = zones (tsDB s)"
    "distinct (obKeys (obs (tsDB s))) \<longrightarrow> distinct (obKeys (obs (tsDB s) @ rs))" "\<forall>r \<in> set rs. obZone r \<in> set (zones (tsDB s))"
    "tsSub s8 = counted c (tsSub s)"
proof -
  let ?i = "icSubmission c"
  note s6 = quarantineStage_row [OF assms(1)]
  obtain rs d7 where rs: "toObservations E (prPoint p) (prZone p) ?i (tnNow t) 0 (chObservations c) = Inr rs"
    and ins: "InsertBatch E rs IngestPending (tsDB s6) = Inr d7" and s7: "s7 = s6\<lparr>tsDB := d7\<rparr>"
    by (rule insertStage_Inr [OF assms(2)])
  note rows = toObservations_rows [OF rs]
  have loop: "insert_loop E rs (tsDB s6) = Inr d7"
    by (rule InsertBatch_Inr [OF ins]) (use rows in \<open>auto simp: list_all2_conv_all_nth in_set_conv_nth\<close>)
  note il = insert_loop_Inr [OF loop]
  obtain r7 where r7: "map_of (subs (tsDB s7)) ?i = Some r7" "int (ChunkIndex c) \<le> maxInt4" "srChunks r7 < maxInt4"
    and s8: "s8 = s7\<lparr>tsSub := counted c (tsSub s7), tsDB := updSub ?i (recorded (int (ChunkIndex c)) (sbIncomplete (tsSub s7))) (tsDB s7)\<rparr>"
    by (rule recordStage_Inr [OF assms(3)])
  have m7: "map_of (subs (tsDB s7)) = (map_of (subs (tsDB s)))(?i := map_option (quarantinedRow (tsSub s)) (map_of (subs (tsDB s)) ?i))"
    using s7 il s6(2) by (simp add: updSub_map)
  obtain r where r: "map_of (subs (tsDB s)) ?i = Some r" "r7 = quarantinedRow (tsSub s) r" using r7(1) m7 by (auto split: if_splits)
  have lt: "srChunks r < maxInt4" using r7(3) r(2) by (simp add: quarantinedRow_def split: if_splits)
  have m8: "map_of (subs (tsDB s8)) = (map_of (subs (tsDB s)))(?i \<mapsto> recorded (int (ChunkIndex c)) (sbIncomplete (tsSub s)) (quarantinedRow (tsSub s) r))"
    using s8 s7 s6(1) m7 r by (simp add: updSub_map)
  have k8: "map fst (subs (tsDB s8)) = map fst (subs (tsDB s))" using s8 s7 il s6(2) by (simp add: updSub_keys)
  show ?thesis
    by (rule that [OF rows r(1) r7(2) lt s6(3) m8 k8])
       (use s8 s7 il s6 insert_loop_keys [OF loop] in auto)
qed

text \<open>The state after a chunk: the checks it passed, the row it wrote to and the observations it stored.\<close>

lemma chunkTx_committed:
  assumes tx: "chunkTx E p t job c b d = Inr s"
  obtains b2 b5 rs r r' where
    "gated b b2" "gated b2 b5"
    "sbQuarantined b2 \<or> checkEpoch (prPoint p) job (icEpoch c) (core d) = None \<and> zoneCheck E (prZone p) (chObservations c) = None"
    "sbQuarantined b5 \<or> tasksBelongToJob E job (chObservations c) (core d) = Inr True
       \<and> packageObservationsAreCredentialed E job (chObservations c) (core d) = Inr None"
    "list_all2 (\<lambda>x r. rowOf E p (icSubmission c) x r \<and> obState r = IngestPending \<and> obAsset r = None) (chObservations c) rs"
    "if sbChunks b = 0 then map_of (subs d) (icSubmission c) = None \<and> r = begun job c b2 (tnDBNow t) \<and> (sbQuarantined b2 \<longrightarrow> sbReason b2 \<noteq> None)
     else map_of (subs d) (icSubmission c) = Some r"
    "row_step t c b5 r r'"
    "map_of (subs (tsDB s)) = (map_of (subs d))(icSubmission c \<mapsto> r')"
    "map fst (subs (tsDB s)) = map fst (subs d) @ (if sbChunks b = 0 then [icSubmission c] else [])"
    "obs (tsDB s) = map (if Final c then promoted (icSubmission c) (if sbQuarantined b5 then IngestQuarantined else IngestAccepted) else id) (obs d @ rs)"
    "distinct (obKeys (obs d)) \<longrightarrow> distinct (obKeys (obs d @ rs))" "\<forall>r \<in> set rs. obZone r \<in> set (zones d)" "zones (tsDB s) = zones d"
    "tsSub s = (if Final c then (counted c b5)\<lparr>sbFinished := True\<rparr> else counted c b5)"
proof -
  let ?i = "icSubmission c"
  obtain s1 s2 s3 s4 s5 s6 s7 s8 where
    st: "epochGate p t job c \<lparr>tsSub = b, tsDB = d, tsRaised = None\<rparr> = Inr s1" "zoneGate E p c s1 = Inr s2" "beginStage t job c s2 = Inr s3"
    "taskGate E t job c s3 = Inr s4" "packageGate E t job c s4 = Inr s5" "quarantineStage t c s5 = Inr s6"
    "insertStage E p t c s6 = Inr s7" "recordStage t c s7 = Inr s8"
    and fin: "if Final c then finalStage p t job c s8 = Inr s else s = s8"
    using tx by (auto simp: chunkTx_def andThen_Inr split: if_splits)
  note g1 = gates_Inr(1) [OF st(1)] and g2 = gates_Inr(2) [OF st(2)] and g4 = gates_Inr(3) [OF st(4)] and g5 = gates_Inr(4) [OF st(5)]
  note s3 = beginStage_Inr [OF st(3)]
  let ?b2 = "tsSub s2" and ?b5 = "tsSub s5"
  have gb: "gated b ?b2" using g1 g2 gated_trans by auto
  have "tsSub s3 = ?b2" using conjunct1 [OF s3] by simp
  then have g25: "gated ?b2 ?b5" using g4 g5 gated_trans [of "tsSub s3" "tsSub s4" "tsSub s5"] by simp
  have d5: "tsDB s5 = tsDB s3" and co: "core (tsDB s3) = core d" "obs (tsDB s3) = obs d" "zones (tsDB s3) = zones d"
    using conjunct1 [OF g1] conjunct1 [OF g2] conjunct1 [OF g4] conjunct1 [OF g5] conjunct1 [OF s3] by simp_all
  have ch: "sbChunks ?b2 = sbChunks b" using gated_keeps [OF gb] by simp
  obtain rs r where
    rows: "list_all2 (\<lambda>x r. rowOf E p ?i x r \<and> obState r = IngestPending \<and> obAsset r = None) (chObservations c) rs"
    and r: "map_of (subs (tsDB s5)) ?i = Some r"
    and ok: "int (ChunkIndex c) \<le> maxInt4" "srChunks r < maxInt4" "sbQuarantined ?b5 \<and> sbChunks ?b5 > 0 \<longrightarrow> sbReason ?b5 \<noteq> None"
    and m8: "map_of (subs (tsDB s8)) = (map_of (subs (tsDB s5)))
       (?i \<mapsto> recorded (int (ChunkIndex c)) (sbIncomplete ?b5) (quarantinedRow ?b5 r))"
    and o8: "map fst (subs (tsDB s8)) = map fst (subs (tsDB s5))" "obs (tsDB s8) = obs (tsDB s5) @ rs" "zones (tsDB s8) = zones (tsDB s5)"
    and ks: "distinct (obKeys (obs (tsDB s5))) \<longrightarrow> distinct (obKeys (obs (tsDB s5) @ rs))" "\<forall>r \<in> set rs. obZone r \<in> set (zones (tsDB s5))"
    and b8: "tsSub s8 = counted c ?b5"
    by (rule stored_chunk [OF st(6-8)])
  have base: "if sbChunks b = 0 then map_of (subs d) ?i = None \<and> r = begun job c ?b2 (tnDBNow t) \<and> (sbQuarantined ?b2 \<longrightarrow> sbReason ?b2 \<noteq> None)
      else map_of (subs d) ?i = Some r"
    and m5: "(map_of (subs (tsDB s5)))(?i \<mapsto> x) = (map_of (subs d))(?i \<mapsto> x)"
    and k5: "map fst (subs (tsDB s5)) = map fst (subs d) @ (if sbChunks b = 0 then [?i] else [])" for x
    using s3 r d5 ch g1 g2 by (auto simp: map_of_snoc)
  obtain r' where rw: "row_step t c ?b5 r r'" "map_of (subs (tsDB s)) = (map_of (subs d))(?i \<mapsto> r')"
    and kz: "map fst (subs (tsDB s)) = map fst (subs (tsDB s8))" "zones (tsDB s) = zones d"
    and os: "obs (tsDB s) = map (if Final c then promoted ?i (if sbQuarantined ?b5 then IngestQuarantined else IngestAccepted) else id) (obs d @ rs)"
    and sub: "tsSub s = (if Final c then (counted c ?b5)\<lparr>sbFinished := True\<rparr> else counted c ?b5)"
  proof (cases "Final c")
    case False
    then show ?thesis using that fin m8 m5 o8 d5 co b8 ok by (simp add: row_step_def Let_def)
  next
    case True
    then obtain r' where "row_step t c ?b5 r r' \<and> map_of (subs (tsDB s)) = (map_of (subs (tsDB s8)))(?i \<mapsto> r') \<and>
        map fst (subs (tsDB s)) = map fst (subs (tsDB s8)) \<and> zones (tsDB s) = zones (tsDB s8) \<and>
        obs (tsDB s) = map (promoted ?i (if sbQuarantined ?b5 then IngestQuarantined else IngestAccepted)) (obs (tsDB s8)) \<and>
        tsSub s = (tsSub s8)\<lparr>sbFinished := True\<rparr>"
      using final_row [of p t job c s8 s ?b5 r] fin m8 b8 ok by auto
    then show ?thesis using True m8 m5 o8 d5 co b8 by (intro that [of r']) simp_all
  qed
  have c1: "sbQuarantined ?b2 \<or> checkEpoch (prPoint p) job (icEpoch c) (core d) = None \<and> zoneCheck E (prZone p) (chObservations c) = None"
    using g1 g2 gated_keeps [of "tsSub s1" "tsSub s2"] by auto
  have c2: "sbQuarantined ?b5 \<or> tasksBelongToJob E job (chObservations c) (core d) = Inr True
       \<and> packageObservationsAreCredentialed E job (chObservations c) (core d) = Inr None"
    using g4 g5 co gated_keeps [of "tsSub s4" "tsSub s5"] by auto
  have k: "map fst (subs (tsDB s)) = map fst (subs d) @ (if sbChunks b = 0 then [?i] else [])" using kz(1) o8(1) k5 by simp
  have ks': "distinct (obKeys (obs d)) \<longrightarrow> distinct (obKeys (obs d @ rs))" "\<forall>r \<in> set rs. obZone r \<in> set (zones d)" using ks d5 co by simp_all
  show ?thesis by (rule that [OF gb g25 c1 c2 rows base rw k os ks' kz(2) sub])
qed

section \<open>Well-formed rows\<close>

text \<open>
  In a stored submission at least one chunk is recorded, its last index is one the wire can carry, and a
  reason is there exactly when it is quarantined.
\<close>

definition row_ok :: "SubmissionRow \<Rightarrow> bool" where
  "row_ok r \<longleftrightarrow> 1 \<le> srChunks r \<and> srChunks r \<le> maxInt4 \<and> (\<exists>v. srLast r = Some v \<and> 0 \<le> v \<and> v \<le> maxInt4)
     \<and> reasonPaired (srStatus r) (srReason r) \<and> (srStatus r = SubmitAccepted \<or> srStatus r = SubmitAcceptedQuarantined)
     \<and> (srCompleted r = None) = (srTermination r = None)"

definition ledger_ok :: "ingestDB \<Rightarrow> bool" where
  "ledger_ok d \<longleftrightarrow> distinct (map fst (subs d)) \<and> (\<forall>i r. map_of (subs d) i = Some r \<longrightarrow> row_ok r)
     \<and> distinct (obKeys (obs d))
     \<and> (\<forall>x \<in> set (obs d). (\<exists>r. map_of (subs d) (obSubmission x) = Some r \<and> (obState x \<noteq> IngestPending \<longrightarrow> srCompleted r \<noteq> None)))"

definition row_new :: "SubmissionRow \<Rightarrow> bool" where
  "row_new r \<longleftrightarrow> srChunks r = 0 \<and> srLast r = None \<and> reasonPaired (srStatus r) (srReason r)
     \<and> (srStatus r = SubmitAccepted \<or> srStatus r = SubmitAcceptedQuarantined) \<and> srCompleted r = None \<and> srTermination r = None"

lemma ledger_okD:
  assumes "ledger_ok d"
  shows "map_of (subs d) i = Some r \<Longrightarrow> row_ok r"
    "x \<in> set (obs d) \<Longrightarrow> \<exists>r. map_of (subs d) (obSubmission x) = Some r \<and> (obState x \<noteq> IngestPending \<longrightarrow> srCompleted r \<noteq> None)"
    "distinct (map fst (subs d))" "distinct (obKeys (obs d))"
  using assms unfolding ledger_ok_def by blast+

lemma begun_new: "(sbQuarantined b \<longrightarrow> sbReason b \<noteq> None) \<Longrightarrow> row_new (begun job c b now)"
  by (auto simp: row_new_def begun_def reasonPaired_def)

lemma row_step_ok:
  assumes "row_step t c b r r'" "row_ok r \<or> row_new r"
  shows "row_ok r'" "srCompleted r \<noteq> None \<longrightarrow> srCompleted r' \<noteq> None" "Final c \<longrightarrow> srCompleted r' \<noteq> None"
proof -
  have mm: "0 \<le> maxInt4" "1 \<le> maxInt4" by (simp_all add: maxInt4_def)
  have base: "0 \<le> srChunks r" "reasonPaired (srStatus r) (srReason r)" "srStatus r = SubmitAccepted \<or> srStatus r = SubmitAcceptedQuarantined"
    "(srCompleted r = None) = (srTermination r = None)" "(case srLast r of None \<Rightarrow> True | Some v \<Rightarrow> 0 \<le> v \<and> v \<le> maxInt4)"
    using assms(2) mm by (auto simp: row_ok_def row_new_def)
  let ?q = "quarantinedRow b r"
  let ?r1 = "recorded (int (ChunkIndex c)) (sbIncomplete b) ?q"
  have q: "reasonPaired (srStatus ?q) (srReason ?q)" "srStatus ?q = SubmitAccepted \<or> srStatus ?q = SubmitAcceptedQuarantined"
    "srCompleted ?q = srCompleted r" "srTermination ?q = srTermination r" "srChunks ?q = srChunks r" "srLast ?q = srLast r"
    using assms(1) base(2,3) by (auto simp: quarantinedRow_def row_step_def reasonPaired_def)
  have r1: "row_ok ?r1"
    using q base(1,4,5) assms(1) unfolding row_step_def
    by (cases "srLast r") (auto simp: row_ok_def recorded_def)
  show "row_ok r'"
    using assms(1) r1 by (cases "Final c") (auto simp: row_step_def Let_def row_ok_def completed_def)
  show "srCompleted r \<noteq> None \<longrightarrow> srCompleted r' \<noteq> None" "Final c \<longrightarrow> srCompleted r' \<noteq> None"
    using assms(1) q(3) by (auto simp: row_step_def Let_def recorded_def completed_def split: if_splits)
qed

lemma promoted_frame [simp]: "obID (promoted i st x) = obID x" "obSubmission (promoted i st x) = obSubmission x" "obAt (promoted i st x) = obAt x"
  by (simp_all add: promoted_def)

lemma obKeys_promoted [simp]: "obKeys (map (promoted i st) os) = obKeys os"
  by (simp add: obKeys_def)

lemma chunkTx_ledger:
  assumes "chunkTx E p t job c b d = Inr s" "ledger_ok d"
  shows "ledger_ok (tsDB s)"
proof -
  let ?i = "icSubmission c"
  obtain b2 b5 rs r r' where
    rows: "list_all2 (\<lambda>x r. rowOf E p ?i x r \<and> obState r = IngestPending \<and> obAsset r = None) (chObservations c) rs"
    and base: "if sbChunks b = 0 then map_of (subs d) ?i = None \<and> r = begun job c b2 (tnDBNow t) \<and> (sbQuarantined b2 \<longrightarrow> sbReason b2 \<noteq> None)
       else map_of (subs d) ?i = Some r"
    and rw: "row_step t c b5 r r'" and m: "map_of (subs (tsDB s)) = (map_of (subs d))(?i \<mapsto> r')"
    and k: "map fst (subs (tsDB s)) = map fst (subs d) @ (if sbChunks b = 0 then [?i] else [])"
    and o: "obs (tsDB s) = map (if Final c then promoted ?i (if sbQuarantined b5 then IngestQuarantined else IngestAccepted) else id) (obs d @ rs)"
    and ks: "distinct (obKeys (obs d)) \<longrightarrow> distinct (obKeys (obs d @ rs))"
    by (rule chunkTx_committed [OF assms(1)])
  have r: "row_ok r \<or> row_new r"
    using base assms(2) begun_new [of b2 job c] by (cases "sbChunks b = 0") (simp_all add: ledger_ok_def)
  note ok = row_step_ok [OF rw r]
  have new: "obSubmission x = ?i" "obState x = IngestPending" if "x \<in> set rs" for x
    using rows that by (auto simp: list_all2_conv_all_nth in_set_conv_nth rowOf_def)
  have old: "\<exists>q. map_of (subs (tsDB s)) (obSubmission x) = Some q \<and> (obState x \<noteq> IngestPending \<longrightarrow> srCompleted q \<noteq> None)"
    if x: "x \<in> set (obs d @ rs)" for x
  proof (cases "x \<in> set rs")
    case True
    then show ?thesis using new m by simp
  next
    case False
    then obtain q where q: "map_of (subs d) (obSubmission x) = Some q" "obState x \<noteq> IngestPending \<longrightarrow> srCompleted q \<noteq> None"
      using x ledger_okD(2) [OF assms(2), of x] by auto
    then have "q = r" if "obSubmission x = ?i" using that base by (simp split: if_splits)
    then show ?thesis using q ok(2) m by (cases "obSubmission x = ?i") auto
  qed
  have "\<exists>q. map_of (subs (tsDB s)) (obSubmission x) = Some q \<and> (obState x \<noteq> IngestPending \<longrightarrow> srCompleted q \<noteq> None)"
    if x: "x \<in> set (obs (tsDB s))" for x
  proof -
    obtain y where y: "y \<in> set (obs d @ rs)" and xy: "obSubmission x = obSubmission y"
        "obState x \<noteq> IngestPending \<Longrightarrow> obState y \<noteq> IngestPending \<or> Final c \<and> obSubmission y = ?i"
      using x unfolding o set_map by (fastforce simp: promoted_def split: if_splits)
    obtain q where "map_of (subs (tsDB s)) (obSubmission y) = Some q" "obState y \<noteq> IngestPending \<longrightarrow> srCompleted q \<noteq> None"
      using old [OF y] by blast
    moreover from this(1) m have "q = r'" if "obSubmission y = ?i" using that by simp
    ultimately show ?thesis using xy ok(3) by metis
  qed
  moreover have "distinct (map fst (subs (tsDB s)))"
    using k base ledger_okD(3) [OF assms(2)] by (auto simp: map_of_eq_None_iff split: if_splits)
  moreover have "distinct (obKeys (obs (tsDB s)))" using o ks ledger_okD(4) [OF assms(2)] by (simp del: map_append split: if_splits)
  moreover have "row_ok q" if "map_of (subs (tsDB s)) i = Some q" for i q
    using that m ok(1) ledger_okD(1) [OF assms(2)] by (auto split: if_splits)
  ultimately show ?thesis unfolding ledger_ok_def by blast
qed

text \<open>What one transaction of a connection does to the rows.\<close>

lemma transact_rows:
  assumes "transact E t (n, d) = (n', d')"
  obtains "d' = d"
  | job c b s where "cnPC n = AtTx job c" "cnSub n = Some b" "chunkTx E (cnPeer n) t job c b d = Inr s" "d' = tsDB s"
      "n' = n\<lparr>cnSub := Some (tsSub s), cnPC := AtAck (ackOf c (tsSub s))\<rparr>"
  | c q why where "cnPC n = AtRecord c q why" "d' = Submissions_Quarantine (icSubmission c) q d"
  using assms
  by (auto simp: transact_def txStep_def recordStep_def split: pc.splits option.splits sum.splits prod.splits if_splits)

lemma Submissions_Quarantine_map:
  "map_of (subs (Submissions_Quarantine i q d)) = (map_of (subs d))(i := map_option (markQuarantined q) (map_of (subs d) i))"
  "map fst (subs (Submissions_Quarantine i q d)) = map fst (subs d)" "obs (Submissions_Quarantine i q d) = obs d"
  "core (Submissions_Quarantine i q d) = core d" "zones (Submissions_Quarantine i q d) = zones d"
  by (simp_all add: Submissions_Quarantine_def updSub_map updSub_keys)

lemma markQuarantined_ok: "row_ok r \<Longrightarrow> row_ok (markQuarantined q r)" "srCompleted (markQuarantined q r) = srCompleted r"
  by (auto simp: markQuarantined_def row_ok_def reasonPaired_def)

lemma markQuarantined_same: "srStatus r = SubmitAcceptedQuarantined \<Longrightarrow> markQuarantined q r = r"
  by (simp add: markQuarantined_def)

lemma Submissions_Quarantine_ledger:
  assumes ok: "ledger_ok d"
  shows "ledger_ok (Submissions_Quarantine i q d)"
proof -
  have "row_ok r" if "map_of (subs (Submissions_Quarantine i q d)) k = Some r" for k r
    using that markQuarantined_ok(1) ledger_okD(1) [OF ok] unfolding Submissions_Quarantine_map
    by (metis (no_types, lifting) fun_upd_apply map_option_eq_Some)
  moreover have "\<exists>r. map_of (subs (Submissions_Quarantine i q d)) (obSubmission x) = Some r \<and> (obState x \<noteq> IngestPending \<longrightarrow> srCompleted r \<noteq> None)"
    if x: "x \<in> set (obs d)" for x
    using ledger_okD(2) [OF ok x] by (cases "obSubmission x = i") (auto simp: Submissions_Quarantine_map markQuarantined_ok(2) simp del: map_of_eq_Some_iff)
  ultimately show ?thesis
    using ledger_okD(3,4) [OF ok] unfolding ledger_ok_def Submissions_Quarantine_map(2,3) by blast
qed

lemma Observations_Resolve_Inr:
  assumes "Observations_Resolve i at1 asset d = Inr d'"
  shows "d' = d\<lparr>obs := map (\<lambda>r. if obID r = i \<and> obAt r = at1 then r\<lparr>obAsset := Some asset\<rparr> else r) (obs d)\<rparr>"
  using assms by (simp add: Observations_Resolve_def split: if_splits)

lemma ingest_step_ledger:
  assumes "ingest_step E C s s'" "ledger_ok (isDB s)"
  shows "ledger_ok (isDB s')"
  using assms(1)
proof cases
  case (transacted k n t n' d')
  from transacted(3) show ?thesis
    by (cases rule: transact_rows) (use transacted(1) assms(2) in \<open>auto intro: chunkTx_ledger Submissions_Quarantine_ledger\<close>)
next
  case (resolved i at1 asset d')
  have "obKeys (map (\<lambda>r. if obID r = i \<and> obAt r = at1 then r\<lparr>obAsset := Some asset\<rparr> else r) os) = obKeys os" for os
    by (auto simp: obKeys_def)
  then show ?thesis
    using assms(2) Observations_Resolve_Inr [OF resolved(2)] resolved(1) by (auto simp: ledger_ok_def)
qed (use assms(2) in \<open>auto simp: ledger_ok_def\<close>)

lemma reach_ledger: "ingest_reach E C s \<Longrightarrow> ledger_ok (isDB s)"
  by (induction rule: ingest_reach.induct) (simp add: ledger_ok_def obKeys_def, rule ingest_step_ledger)

section \<open>Nothing is lost\<close>

lemma chunkTx_obs:
  assumes "chunkTx E p t job c b d = Inr s"
  shows "\<exists>rs st. obs (tsDB s) = map (if Final c then promoted (icSubmission c) st else id) (obs d @ rs)"
  by (rule chunkTx_committed [OF assms]) blast

text \<open>The row of an observation later: the same observation, released at most once.\<close>

definition evolves :: "ObservationRow \<Rightarrow> ObservationRow \<Rightarrow> bool" where
  "evolves x y \<longleftrightarrow> y = x\<lparr>obAsset := obAsset y, obState := obState y\<rparr> \<and> (obState x = IngestPending \<or> obState y = obState x)"

definition kept :: "ObservationRow list \<Rightarrow> ObservationRow list \<Rightarrow> bool" where
  "kept os os' \<longleftrightarrow> length os \<le> length os' \<and> (\<forall>k < length os. evolves (os ! k) (os' ! k))"

lemma evolves_refl [simp]: "evolves x x" by (simp add: evolves_def)

lemma evolves_trans: "evolves x y \<Longrightarrow> evolves y z \<Longrightarrow> evolves x z"
proof -
  assume "evolves x y" "evolves y z"
  then show ?thesis unfolding evolves_def
    by (metis (no_types, lifting) ObservationRow.surjective ObservationRow.update_convs(6,11))
qed

lemma kept_refl [simp]: "kept os os" by (simp add: kept_def)

lemma kept_trans: "kept a b \<Longrightarrow> kept b c \<Longrightarrow> kept a c"
  by (auto simp: kept_def intro: evolves_trans)

lemma kept_map: "(\<And>x. evolves x (f x)) \<Longrightarrow> kept os (map f (os @ rs))"
  by (simp add: kept_def nth_append)

lemma ingest_step_kept:
  assumes "ingest_step E C s s'"
  shows "kept (obs (isDB s)) (obs (isDB s'))"
  using assms
proof cases
  case (transacted k n t n' d')
  from transacted(3) show ?thesis
  proof (cases rule: transact_rows)
    case (2 job c b st)
    obtain rs to1 where o: "obs (tsDB st) = map (if Final c then promoted (icSubmission c) to1 else id) (obs (isDB s) @ rs)"
      using chunkTx_obs [OF 2(3)] by blast
    have "kept (obs (isDB s)) (obs (tsDB st))"
      unfolding o by (rule kept_map) (simp add: promoted_def evolves_def)
    then show ?thesis using 2(4) transacted(1) by simp
  qed (use transacted(1) in \<open>auto simp: Submissions_Quarantine_map\<close>)
next
  case (resolved i at1 asset d')
  then show ?thesis
    using kept_map [of "\<lambda>r. if obID r = i \<and> obAt r = at1 then r\<lparr>obAsset := Some asset\<rparr> else r" "obs (isDB s)" "[]"] Observations_Resolve_Inr [OF resolved(2)]
    by (simp add: evolves_def)
qed auto

lemma ingest_steps_kept: "(ingest_step E C)\<^sup>*\<^sup>* s s' \<Longrightarrow> kept (obs (isDB s)) (obs (isDB s'))"
  by (induction rule: rtranclp_induct) (auto intro: kept_trans ingest_step_kept)

section \<open>What is released\<close>

text \<open>The keys of the observations of a submission that the finding pipeline sees.\<close>

definition releasedOf :: "string \<Rightarrow> ObservationRow list \<Rightarrow> (uuid \<times> time) list" where
  "releasedOf i os = obKeys (filter (\<lambda>x. obSubmission x = i \<and> obState x = IngestAccepted) os)"

lemma releasedOf_append: "releasedOf i (xs @ ys) = releasedOf i xs @ releasedOf i ys"
  by (simp add: releasedOf_def obKeys_def)

lemma releasedOf_pending: "\<forall>x \<in> set rs. obState x = IngestPending \<Longrightarrow> releasedOf i rs = []"
  by (auto simp: releasedOf_def obKeys_def filter_empty_conv)

lemma releasedOf_promoted:
  "i \<noteq> j \<or> st = IngestQuarantined \<Longrightarrow> releasedOf i (map (promoted j st) os) = releasedOf i os"
  by (induction os) (auto simp: releasedOf_def obKeys_def promoted_def)

lemma releasedOf_resolved:
  "releasedOf k (map (\<lambda>r. if obID r = i \<and> obAt r = at1 then r\<lparr>obAsset := a\<rparr> else r) os) = releasedOf k os"
  by (induction os) (auto simp: releasedOf_def obKeys_def)

text \<open>
  Because a reason goes with the status of quarantine only, a row that has a reason cannot be completed as
  accepted: a stream that has not noticed the quarantine has its terminal chunk rolled back.
\<close>

lemma row_step_quarantined:
  assumes "row_step t c b r r'" "srStatus r = SubmitAcceptedQuarantined" "srReason r \<noteq> None"
  shows "srStatus r' = SubmitAcceptedQuarantined" "srReason r' \<noteq> None" "Final c \<longrightarrow> sbQuarantined b"
  using assms by (auto simp: row_step_def Let_def recorded_def completed_def quarantinedRow_def reasonPaired_def split: if_splits option.splits)

definition quarantined_row :: "string \<Rightarrow> ingestDB \<Rightarrow> bool" where
  "quarantined_row i d \<longleftrightarrow> (\<exists>r. map_of (subs d) i = Some r \<and> srStatus r = SubmitAcceptedQuarantined \<and> srReason r \<noteq> None)"

lemma quarantined_rowI: "ledger_ok d \<Longrightarrow> map_of (subs d) i = Some r \<Longrightarrow> srStatus r = SubmitAcceptedQuarantined \<Longrightarrow> quarantined_row i d"
  using ledger_okD(1) [of d i r] by (auto simp: quarantined_row_def row_ok_def reasonPaired_def simp del: map_of_eq_Some_iff)

lemma chunkTx_sticky:
  assumes "chunkTx E p t job c b d = Inr s" "quarantined_row i d"
  shows "quarantined_row i (tsDB s) \<and> releasedOf i (obs (tsDB s)) = releasedOf i (obs d)"
proof -
  obtain r0 where r0: "map_of (subs d) i = Some r0" "srStatus r0 = SubmitAcceptedQuarantined" "srReason r0 \<noteq> None"
    using assms(2) by (auto simp: quarantined_row_def simp del: map_of_eq_Some_iff)
  let ?i = "icSubmission c"
  obtain b2 b5 rs r r' where
    rows: "list_all2 (\<lambda>x r. rowOf E p ?i x r \<and> obState r = IngestPending \<and> obAsset r = None) (chObservations c) rs"
    and base: "if sbChunks b = 0 then map_of (subs d) ?i = None \<and> r = begun job c b2 (tnDBNow t) \<and> (sbQuarantined b2 \<longrightarrow> sbReason b2 \<noteq> None)
       else map_of (subs d) ?i = Some r"
    and rw: "row_step t c b5 r r'" and m: "map_of (subs (tsDB s)) = (map_of (subs d))(?i \<mapsto> r')"
    and o: "obs (tsDB s) = map (if Final c then promoted ?i (if sbQuarantined b5 then IngestQuarantined else IngestAccepted) else id) (obs d @ rs)"
    by (rule chunkTx_committed [OF assms(1)])
  have new: "releasedOf i rs = []"
    using rows by (intro releasedOf_pending) (auto simp: list_all2_conv_all_nth in_set_conv_nth)
  have q: "srStatus r' = SubmitAcceptedQuarantined" "srReason r' \<noteq> None" "Final c \<longrightarrow> sbQuarantined b5" if "?i = i"
  proof -
    have "r = r0" using base r0(1) that by (simp split: if_splits del: map_of_eq_Some_iff)
    then show "srStatus r' = SubmitAcceptedQuarantined" "srReason r' \<noteq> None" "Final c \<longrightarrow> sbQuarantined b5"
      using row_step_quarantined [OF rw] r0(2,3) by simp_all
  qed
  have "quarantined_row i (tsDB s)"
    using q(1,2) m r0 unfolding quarantined_row_def by (cases "?i = i") auto
  moreover have "releasedOf i (obs (tsDB s)) = releasedOf i (obs d @ rs)"
    using q(3) o by (cases "Final c") (auto simp: releasedOf_promoted simp del: map_append)
  ultimately show ?thesis using new by (simp add: releasedOf_append)
qed

lemma ingest_step_sticky:
  assumes "ingest_step E C s s'" "quarantined_row i (isDB s)"
  shows "quarantined_row i (isDB s') \<and> releasedOf i (obs (isDB s')) = releasedOf i (obs (isDB s))"
  using assms(1)
proof cases
  case (transacted k n t n' d')
  from transacted(3) show ?thesis
  proof (cases rule: transact_rows)
    case (2 job c b st)
    then show ?thesis using chunkTx_sticky [OF 2(3) assms(2)] transacted(1) by simp
  next
    case (3 c q why)
    then show ?thesis
      using assms(2) transacted(1) by (auto simp: quarantined_row_def Submissions_Quarantine_map markQuarantined_same simp del: map_of_eq_Some_iff)
  qed (use assms(2) transacted(1) in auto)
next
  case (resolved j at1 asset d')
  then show ?thesis
    using assms(2) Observations_Resolve_Inr [OF resolved(2)] by (simp add: quarantined_row_def releasedOf_resolved)
qed (use assms(2) in \<open>auto simp: quarantined_row_def\<close>)

lemma ingest_steps_sticky:
  "(ingest_step E C)\<^sup>*\<^sup>* s s' \<Longrightarrow> quarantined_row i (isDB s) \<Longrightarrow>
    quarantined_row i (isDB s') \<and> releasedOf i (obs (isDB s')) = releasedOf i (obs (isDB s))"
  by (induction rule: rtranclp_induct) (use ingest_step_sticky in \<open>fastforce+\<close>)

section \<open>Every chunk is answered\<close>

subsection \<open>A chunk that fails\<close>

lemma stages_Inl:
  "beginStage t job c s = Inl (e, s') \<Longrightarrow> s' = s \<and> sbChunks (tsSub s) = 0 \<and> (e = EConflictResume \<or> (\<exists>x. e = EStore x))"
  "quarantineStage t c s = Inl (e, s') \<Longrightarrow> s' = s \<and> (\<exists>x. e = EStore x)"
  "insertStage E p t c s = Inl (e, s') \<Longrightarrow> s' = s \<and> e \<noteq> EConflictResume"
  "recordStage t c s = Inl (e, s') \<Longrightarrow> s' = s \<and> (\<exists>x. e = EStore x)"
  by (auto simp: beginStage_def quarantineStage_def insertStage_def recordStage_def andThen_Inl Let_def
      dest!: run_stmt_Inl split: if_splits sum.splits option.splits)

lemma finalStage_Inl: "finalStage p t job c s = Inl (e, s') \<Longrightarrow> tsSub s' = tsSub s \<and> (\<exists>x. e = EStore x)"
  by (auto simp: finalStage_def andThen_Inl Let_def run_stmt_Inr dest!: run_stmt_Inl split: if_splits)

text \<open>The upload after a chunk that failed: the verdict may have changed, and a chunk that failed late counts as received.\<close>

definition disturbed :: "IngestChunk \<Rightarrow> submission \<Rightarrow> submission \<Rightarrow> bool" where
  "disturbed c b b' \<longleftrightarrow> (\<exists>b5. gated b b5 \<and> (b' = b5 \<or> b' = counted c b5 \<or> b' = (counted c b5)\<lparr>sbFinished := True\<rparr>))"

lemma disturbed_counted: "gated b b5 \<Longrightarrow> disturbed c b b5" "gated b b5 \<Longrightarrow> disturbed c b (counted c b5)"
  "gated b b5 \<Longrightarrow> disturbed c b ((counted c b5)\<lparr>sbFinished := True\<rparr>)"
  by (auto simp: disturbed_def)

lemma recorded_failure:
  assumes "andThen (recordStage t c s) (\<lambda>s. andThen (if Final c then finalStage p t job c s else Inr s)
      (\<lambda>s. if tnFault t SCommit then Inl (EStore ErrOther, s) else Inr s)) = Inl (e, s')" "gated b (tsSub s)"
  shows "disturbed c b (tsSub s') \<and> e \<noteq> EConflictResume"
proof (cases "recordStage t c s")
  case (Inl x)
  then show ?thesis using assms stages_Inl(4) [of t c s e s'] disturbed_counted(1) [OF assms(2)] by (auto simp: andThen_def)
next
  case (Inr s8)
  then have b8: "tsSub s8 = counted c (tsSub s)" by (auto elim: recordStage_Inr)
  show ?thesis
  proof (cases "if Final c then finalStage p t job c s8 else Inr s8")
    case (Inl x)
    then show ?thesis
      using assms(1) Inr finalStage_Inl [of p t job c s8 e s'] disturbed_counted(2) [OF assms(2), of c] b8
      by (auto simp: andThen_def split: if_splits)
  next
    case i9: (Inr s9)
    then have "tsSub s9 = counted c (tsSub s) \<or> tsSub s9 = (counted c (tsSub s))\<lparr>sbFinished := True\<rparr>"
      using b8 by (auto split: if_splits elim: finalStage_Inr)
    then show ?thesis
      using assms(1) Inr i9 disturbed_counted(2,3) [OF assms(2), of c] by (auto simp: andThen_def split: if_splits)
  qed
qed

lemma late_failure:
  assumes "andThen (beginStage t job c s2) (\<lambda>s. andThen (taskGate E t job c s) (\<lambda>s. andThen (packageGate E t job c s) (\<lambda>s.
      andThen (quarantineStage t c s) (\<lambda>s. andThen (insertStage E p t c s) (\<lambda>s. andThen (recordStage t c s) (\<lambda>s.
      andThen (if Final c then finalStage p t job c s else Inr s) (\<lambda>s. if tnFault t SCommit then Inl (EStore ErrOther, s) else Inr s))))))) = Inl (e, s')"
    "gated b (tsSub s2)"
  shows "disturbed c b (tsSub s') \<and> (e = EConflictResume \<longrightarrow> sbChunks b = 0 \<and> gated b (tsSub s'))"
proof -
  note rest = assms(1) [unfolded andThen_Inl]
  have stop: "disturbed c b (tsSub x) \<and> (e = EConflictResume \<longrightarrow> sbChunks b = 0 \<and> gated b (tsSub x))"
    if "gated b (tsSub x)" "e \<noteq> EConflictResume" for x
    using that disturbed_counted(1) by simp
  from rest consider "beginStage t job c s2 = Inl (e, s')"
    | s3 where "beginStage t job c s2 = Inr s3" "taskGate E t job c s3 = Inl (e, s')"
    | s3 s4 where "beginStage t job c s2 = Inr s3" "taskGate E t job c s3 = Inr s4" "packageGate E t job c s4 = Inl (e, s')"
    | s3 s4 s5 where "beginStage t job c s2 = Inr s3" "taskGate E t job c s3 = Inr s4" "packageGate E t job c s4 = Inr s5"
        "quarantineStage t c s5 = Inl (e, s')"
    | s3 s4 s5 s6 where "beginStage t job c s2 = Inr s3" "taskGate E t job c s3 = Inr s4" "packageGate E t job c s4 = Inr s5"
        "quarantineStage t c s5 = Inr s6" "insertStage E p t c s6 = Inl (e, s')"
    | s3 s4 s5 s6 s7 where "beginStage t job c s2 = Inr s3" "taskGate E t job c s3 = Inr s4" "packageGate E t job c s4 = Inr s5"
        "quarantineStage t c s5 = Inr s6" "insertStage E p t c s6 = Inr s7"
        "andThen (recordStage t c s7) (\<lambda>s. andThen (if Final c then finalStage p t job c s else Inr s)
           (\<lambda>s. if tnFault t SCommit then Inl (EStore ErrOther, s) else Inr s)) = Inl (e, s')"
    unfolding andThen_Inl by blast
  then show ?thesis
  proof cases
    case 1
    then show ?thesis
      using stages_Inl(1) [OF 1] assms(2) gated_keeps [OF assms(2)] disturbed_counted(1) by auto
  next
    case (2 s3)
    then show ?thesis using stop [of s'] gates_Inl(3) beginStage_Inr assms(2) by fastforce
  next
    case (3 s3 s4)
    then have "tsSub s3 = tsSub s2" "gated (tsSub s3) (tsSub s4)" "s' = s4" "e \<noteq> EConflictResume"
      using beginStage_Inr [OF 3(1)] gates_Inr(3) [OF 3(2)] gates_Inl(4) [OF 3(3)] by auto
    then show ?thesis using stop [of s'] assms(2) gated_trans by metis
  next
    case (4 s3 s4 s5)
    then have "tsSub s3 = tsSub s2" "gated (tsSub s3) (tsSub s4)" "gated (tsSub s4) (tsSub s5)" "s' = s5" "e \<noteq> EConflictResume"
      using beginStage_Inr [OF 4(1)] gates_Inr(3) [OF 4(2)] gates_Inr(4) [OF 4(3)] stages_Inl(2) [OF 4(4)] by auto
    then show ?thesis using stop [of s'] assms(2) gated_trans by metis
  next
    case (5 s3 s4 s5 s6)
    then have "tsSub s3 = tsSub s2" "gated (tsSub s3) (tsSub s4)" "gated (tsSub s4) (tsSub s5)" "tsSub s6 = tsSub s5" "s' = s6" "e \<noteq> EConflictResume"
      using beginStage_Inr [OF 5(1)] gates_Inr(3) [OF 5(2)] gates_Inr(4) [OF 5(3)] quarantineStage_row(1) [OF 5(4)] stages_Inl(3) [OF 5(5)] by auto
    then show ?thesis using stop [of s'] assms(2) gated_trans by metis
  next
    case (6 s3 s4 s5 s6 s7)
    have "tsSub s7 = tsSub s6" using 6(5) by (auto elim: insertStage_Inr)
    then have "tsSub s3 = tsSub s2" "gated (tsSub s3) (tsSub s4)" "gated (tsSub s4) (tsSub s7)"
      using beginStage_Inr [OF 6(1)] gates_Inr(3) [OF 6(2)] gates_Inr(4) [OF 6(3)] quarantineStage_row(1) [OF 6(4)] by auto
    then have "gated b (tsSub s7)" using assms(2) gated_trans by metis
    then show ?thesis using recorded_failure [OF 6(6)] by blast
  qed
qed

lemma chunkTx_failed:
  assumes "chunkTx E p t job c b d = Inl (e, s)"
  shows "disturbed c b (tsSub s)" "e = EConflictResume \<Longrightarrow> sbChunks b = 0 \<and> gated b (tsSub s)"
proof -
  let ?s0 = "\<lparr>tsSub = b, tsDB = d, tsRaised = None\<rparr>"
  have "disturbed c b (tsSub s) \<and> (e = EConflictResume \<longrightarrow> sbChunks b = 0 \<and> gated b (tsSub s))"
  proof (cases "epochGate p t job c ?s0")
    case (Inl x)
    then show ?thesis using assms gates_Inl(1) [of p t job c ?s0 e s] disturbed_counted(1) [of b b c]
      by (auto simp: chunkTx_def andThen_def gated_def)
  next
    case (Inr s1)
    note 1 = gates_Inr(1) [OF Inr]
    show ?thesis
    proof (cases "zoneGate E p c s1")
      case (Inl x)
      then show ?thesis by (simp add: zoneGate_def split: if_splits)
    next
      case i2: (Inr s2)
      note 2 = gates_Inr(2) [OF i2]
      have g2: "gated b (tsSub s2)" using 1 2 gated_trans by auto
      have rest: "andThen (beginStage t job c s2) (\<lambda>s. andThen (taskGate E t job c s) (\<lambda>s. andThen (packageGate E t job c s) (\<lambda>s.
          andThen (quarantineStage t c s) (\<lambda>s. andThen (insertStage E p t c s) (\<lambda>s. andThen (recordStage t c s) (\<lambda>s.
          andThen (if Final c then finalStage p t job c s else Inr s) (\<lambda>s. if tnFault t SCommit then Inl (EStore ErrOther, s) else Inr s))))))) = Inl (e, s)"
        using assms Inr i2 by (simp add: chunkTx_def andThen_def)
      show ?thesis by (rule late_failure [OF rest g2])
    qed
  qed
  then show "disturbed c b (tsSub s)" "e = EConflictResume \<Longrightarrow> sbChunks b = 0 \<and> gated b (tsSub s)" by simp_all
qed

end
