(* ===== verification/Core_Results.thy ===== *)
theory Core_Results
  imports Core_Ledger
begin

text \<open>
  What taking results in guarantees: rows that are never lost, a release that is fenced by the lease,
  a quarantine that stays, an answer to every chunk, and what the checks do not cover.
\<close>

section \<open>Connections\<close>

text \<open>A connection that works on a chunk has the upload the chunk belongs to; a quarantine has a reason.\<close>

definition works_on :: "conn \<Rightarrow> uuid \<Rightarrow> IngestChunk \<Rightarrow> bool" where
  "works_on n job c \<longleftrightarrow> (\<exists>b. cnSub n = Some b \<and> sbID b = icSubmission c \<and> sbJob b = job \<and> sbEpoch b = icEpoch c)"

definition conn_ok :: "conn \<Rightarrow> bool" where
  "conn_ok n \<longleftrightarrow> (\<forall>b. cnSub n = Some b \<longrightarrow> sbQuarantined b \<longrightarrow> sbReason b \<noteq> None) \<and> (\<forall>b. cnSub n = Some b \<longrightarrow> 0 \<le> sbChunks b)
     \<and> (\<forall>job c. cnPC n = AtTx job c \<or> cnPC n = AtResume job c \<longrightarrow> works_on n job c)"

definition sub_ok :: "submission \<Rightarrow> bool" where
  "sub_ok b \<longleftrightarrow> (sbQuarantined b \<longrightarrow> sbReason b \<noteq> None) \<and> 0 \<le> sbChunks b"

lemma disturbed_ok: "disturbed c b b' \<Longrightarrow> sub_ok b \<Longrightarrow> sub_ok b'"
  by (auto simp: disturbed_def sub_ok_def gated_def counted_def)

lemma chunkTx_sub:
  assumes "chunkTx E p t job c b d = Inr s"
  shows "disturbed c b (tsSub s)"
  by (rule chunkTx_committed [OF assms]) (metis disturbed_counted(2,3) gated_trans)

lemma enterChunk_cases:
  assumes "enterChunk E c sb = (sb', r)"
  obtains a where "sb' = sb" "r = Inl a"
  | b0 a job where "b0 = (case sb of None \<Rightarrow> newSubmission (icSubmission c) job (icEpoch c) | Some b \<Rightarrow> b)"
      "sb' = Some b0 \<or> sb' = Some (b0\<lparr>sbIncomplete := sbIncomplete b0 \<or> icIncomplete c\<rparr>)" "r = Inl a"
  | b0 job where "b0 = (case sb of None \<Rightarrow> newSubmission (icSubmission c) job (icEpoch c) | Some b \<Rightarrow> b)"
      "sb' = Some (b0\<lparr>sbIncomplete := sbIncomplete b0 \<or> icIncomplete c\<rparr>)" "r = Inr job"
      "sbID b0 = icSubmission c" "sbJob b0 = job" "sbEpoch b0 = icEpoch c" "\<not> sbFinished b0" "ieParse E (icJob c) = Some job"
proof (cases "icSubmission c = [] \<or> length (icSubmission c) > 200 \<or> length (chObservations c) > maxObservationsPerChunk \<or> ieParse E (icJob c) = None")
  case True
  then have "sb' = sb \<and> (\<exists>a. r = Inl a)" using assms by (auto simp: enterChunk_def Let_def split: if_splits)
  then show ?thesis using that(1) by blast
next
  case False
  then obtain job where job: "ieParse E (icJob c) = Some job" by auto
  define b where "b = (case sb of None \<Rightarrow> newSubmission (icSubmission c) job (icEpoch c) | Some b \<Rightarrow> b)"
  let ?b' = "b\<lparr>sbIncomplete := sbIncomplete b \<or> icIncomplete c\<rparr>"
  have eq: "(sb', r) = (if sbID b \<noteq> icSubmission c then (Some b, Inl (malformed (icSubmission c) MOneSubmission))
     else if sbFinished b then (Some b, Inl (malformed (icSubmission c) MAfterFinal))
     else if job \<noteq> sbJob b \<or> icEpoch c \<noteq> sbEpoch b then (Some ?b', Inl (malformed (icSubmission c) MJobChanged)) else (Some ?b', Inr job))"
    using False job unfolding assms(1) [symmetric] b_def by (simp add: enterChunk_def Let_def)
  show ?thesis
  proof (cases "sbID b = icSubmission c \<and> \<not> sbFinished b \<and> job = sbJob b \<and> icEpoch c = sbEpoch b")
    case True
    then show ?thesis using eq by (intro that(3) [OF b_def]) (simp_all add: job)
  next
    case no: False
    then have "(sb' = Some b \<or> sb' = Some ?b') \<and> (\<exists>a. r = Inl a)" using eq by (simp split: if_splits)
    then show ?thesis using that(2) [OF b_def] by blast
  qed
qed

lemma enterChunk_ok:
  assumes "enterChunk E c sb = (sb', r)" "\<forall>b. sb = Some b \<longrightarrow> sub_ok b"
  shows "\<forall>b. sb' = Some b \<longrightarrow> sub_ok b" "r = Inr job \<Longrightarrow> \<exists>b. sb' = Some b \<and> sbID b = icSubmission c \<and> sbJob b = job \<and> sbEpoch b = icEpoch c
    \<and> (\<forall>b0. sb = Some b0 \<longrightarrow> sbChunks b = sbChunks b0)"
proof -
  have new: "sub_ok (newSubmission i j e)" for i j e by (simp add: sub_ok_def newSubmission_def)
  have inc: "sub_ok (b\<lparr>sbIncomplete := x\<rparr>) = sub_ok b" for b x by (simp add: sub_ok_def)
  from assms(1) show "\<forall>b. sb' = Some b \<longrightarrow> sub_ok b"
    by (cases rule: enterChunk_cases) (use assms(2) new inc in \<open>auto split: option.splits\<close>)
  assume r: "r = Inr job"
  from assms(1) show "\<exists>b. sb' = Some b \<and> sbID b = icSubmission c \<and> sbJob b = job \<and> sbEpoch b = icEpoch c
      \<and> (\<forall>b0. sb = Some b0 \<longrightarrow> sbChunks b = sbChunks b0)"
    by (cases rule: enterChunk_cases) (use r in \<open>auto split: option.splits\<close>)
qed

lemma conn_okI:
  assumes "\<forall>b. cnSub n = Some b \<longrightarrow> sub_ok b" "\<And>job c. cnPC n = AtTx job c \<or> cnPC n = AtResume job c \<Longrightarrow> works_on n job c"
  shows "conn_ok n"
  using assms unfolding conn_ok_def sub_ok_def by blast

lemma conn_okD:
  assumes "conn_ok n"
  shows "cnSub n = Some b \<Longrightarrow> sub_ok b" "cnPC n = AtTx job c \<Longrightarrow> works_on n job c" "cnPC n = AtResume job c \<Longrightarrow> works_on n job c"
  using assms unfolding conn_ok_def sub_ok_def by blast+

lemma entered_ok:
  assumes "enterChunk E c sb = (sb', r)" "\<forall>b. sb = Some b \<longrightarrow> sub_ok b"
  shows "conn_ok (n\<lparr>cnSub := sb', cnPC := (case r of Inl a \<Rightarrow> AtAck a | Inr job \<Rightarrow> AtTx job c)\<rparr>)"
  using enterChunk_ok [OF assms] by (intro conn_okI) (auto simp: works_on_def split: sum.splits)

lemma receive_eq: "receive E c n = (case enterChunk E c (cnSub n) of (sb, r) \<Rightarrow>
    n\<lparr>cnSub := sb, cnPC := (case r of Inl a \<Rightarrow> AtAck a | Inr job \<Rightarrow> AtTx job c)\<rparr>)"
  by (simp add: receive_def split: prod.splits sum.splits)

lemma reenter_eq: "reenter E c b n = (case enterChunk E c (Some b) of (sb, r) \<Rightarrow>
    n\<lparr>cnSub := sb, cnPC := (case r of Inl a \<Rightarrow> AtAck a | Inr job \<Rightarrow> AtTx job c)\<rparr>)"
  by (simp add: reenter_def split: prod.splits sum.splits)

lemma receive_ok: "conn_ok n \<Longrightarrow> conn_ok (receive E c n)"
  using entered_ok [of E c "cnSub n"] conn_okD(1) [of n] by (auto simp: receive_eq split: prod.splits)

lemma rehydrate_ok:
  assumes "row_ok r" "sub_ok b"
  shows "sub_ok (rehydrate r b)" "sbChunks (rehydrate r b) = srChunks r"
  using assms by (auto simp: rehydrate_def Let_def sub_ok_def row_ok_def reasonPaired_def)

text \<open>
  After \<open>resume\<close>: an answer, or the transaction of the chunk again with the counter of the ledger.
\<close>

lemma resumeStep_cases:
  assumes "ledger_ok d" "cnSub n = Some b" "sub_ok b"
  obtains a where "cnPC (resumeStep E f c b n d) = AtAck a" "\<forall>x. cnSub (resumeStep E f c b n d) = Some x \<longrightarrow> sub_ok x"
  | b0 where "resumeStep E f c b n d = reenter E c b0 n" "sub_ok b0" "1 \<le> sbChunks b0"
proof (cases "if f then None else map_of (subs d) (sbID b)")
  case None
  then show ?thesis using that(1) assms by (simp add: resumeStep_def)
next
  case (Some r)
  then have ok: "row_ok r" using ledger_okD(1) [OF assms(1)] by (simp split: if_splits del: map_of_eq_Some_iff)
  then obtain v where v: "srLast r = Some v" "0 \<le> v" "v \<le> maxInt4" "1 \<le> srChunks r" by (auto simp: row_ok_def)
  note rh = rehydrate_ok [OF ok assms(3)]
  let ?b = "(rehydrate r b)\<lparr>sbLast := nat v, sbHas := True\<rparr>"
  have rb: "sub_ok ?b" "sbChunks ?b = srChunks r" using rh by (simp_all add: sub_ok_def)
  have "v \<le> 4294967295" using v(3) by (simp add: maxInt4_def)
  then have live: "resumeStep E f c b n d = (if ChunkIndex c \<le> nat v
      then n\<lparr>cnSub := Some ?b, cnPC := AtAck \<lparr>saSubmission = sbID ?b, saLast = nat v, saStatus = ACCEPTED, saRetryMs = 0, saDetail = DAlready\<rparr>\<rparr>
      else reenter E c ?b n)" if "srCompleted r = None"
    using that Some v(1,2) by (simp add: resumeStep_def Let_def)
  show ?thesis
  proof (cases "srCompleted r = None \<and> \<not> ChunkIndex c \<le> nat v")
    case True
    then show ?thesis using that(2) [of ?b] live rb v(4) by simp
  next
    case False
    then show ?thesis
      using that(1) live rb Some assms(2,3) by (cases "srCompleted r") (auto simp: resumeStep_def)
  qed
qed

lemma txStep_ok:
  assumes "cnSub n = Some b" "sub_ok b" "works_on n job c"
  shows "conn_ok (fst (txStep E t job c b n d))"
proof (cases "chunkTx E (cnPeer n) t job c b d")
  case (Inr s)
  then show ?thesis using disturbed_ok [OF chunkTx_sub [OF Inr] assms(2)] by (intro conn_okI) (auto simp: txStep_def)
next
  case (Inl x)
  obtain e s where x: "x = (e, s)" by (cases x)
  note f = chunkTx_failed [OF Inl [unfolded x]]
  have ok: "sub_ok (tsSub s)" by (rule disturbed_ok [OF f(1) assms(2)])
  have "sbID (tsSub s) = icSubmission c \<and> sbJob (tsSub s) = job \<and> sbEpoch (tsSub s) = icEpoch c" if "e = EConflictResume"
    using f(2) [OF that] gated_keeps [of b "tsSub s"] assms(1,3) by (auto simp: works_on_def)
  then show ?thesis
    using ok Inl x by (intro conn_okI) (auto simp: txStep_def works_on_def split: ingestError.splits option.splits)
qed

lemma transact_ok:
  assumes "conn_ok n" "ledger_ok d" "transact E t (n, d) = (n', d')"
  shows "conn_ok n'"
proof (cases "cnPC n")
  case (AtTx job c)
  obtain b where b: "cnSub n = Some b" using conn_okD(2) [OF assms(1) AtTx] by (auto simp: works_on_def)
  then show ?thesis
    using assms(3) AtTx txStep_ok [OF b conn_okD(1) [OF assms(1) b] conn_okD(2) [OF assms(1) AtTx], of E t d] by (simp add: transact_def)
next
  case (AtResume job c)
  obtain b where b: "cnSub n = Some b" using conn_okD(3) [OF assms(1) AtResume] by (auto simp: works_on_def)
  have n': "n' = resumeStep E (tnFault t SCurrent) c b n d" using arg_cong [OF assms(3), of fst] AtResume b by (simp add: transact_def)
  show ?thesis
  proof (cases rule: resumeStep_cases [OF assms(2) b conn_okD(1) [OF assms(1) b], of E "tnFault t SCurrent" c])
    case (1 a)
    then show ?thesis unfolding n' by (intro conn_okI) auto
  next
    case (2 b0)
    then show ?thesis unfolding n' using entered_ok [of E c "Some b0"] by (auto simp: reenter_eq split: prod.splits)
  qed
next
  case (AtRecord c q why)
  then show ?thesis using assms(1,3) conn_okD(1) [OF assms(1)] by (intro conn_okI) (auto simp: transact_def recordStep_def)
qed (use assms in \<open>auto simp: transact_def\<close>)

lemma reach_conns: "ingest_reach E C s \<Longrightarrow> isConns s k = Some n \<Longrightarrow> conn_ok n"
proof (induction arbitrary: k n rule: ingest_reach.induct)
  case (stepped s s')
  note ok = reach_ledger [OF stepped(1)]
  from stepped(2) show ?case
  proof cases
    case (opened fp n1 j)
    have "conn_ok n1" using opened(2) by (intro conn_okI) (auto simp: openStream_def)
    then show ?thesis using stepped(3,4) opened(1) by (auto split: if_splits)
  next
    case (received j n1 c)
    then show ?thesis using stepped(3,4) receive_ok by (auto split: if_splits)
  next
    case (transacted j n1 t n2 d')
    then show ?thesis using stepped(3,4) transact_ok [OF _ ok transacted(3)] by (auto split: if_splits)
  next
    case (answered j n1 a)
    have "conn_ok (n1\<lparr>cnPC := AtReceive\<rparr>)" using stepped(3) [OF answered(2)] conn_okD(1) by (intro conn_okI) auto
    then show ?thesis using stepped(3,4) answered(1) by (auto split: if_splits)
  qed (use stepped(3,4) in \<open>auto split: if_splits\<close>)
qed simp

section \<open>Results are kept\<close>

text \<open>
  C19. The rows in every reachable state: submission ids are unique, every submission has at least one chunk, a
  last chunk index that the wire can carry, and a quarantine reason exactly when it is quarantined; every
  observation is unique and belongs to a submission, and only those of a completed one are released or
  quarantined.
\<close>

theorem ledger_well_formed:
  assumes "ingest_reach E C s"
  shows "ledger_ok (isDB s)"
  using assms by (rule reach_ledger)


text \<open>
  C8. Once the ledger says that a submission is quarantined it stays so, with a reason, and no further
  observation of it is ever released, whatever its streams hold in memory: also a stream that resumed
  before the quarantine cannot complete it as accepted.
\<close>

theorem quarantine_sticky:
  assumes "ingest_reach E C s" "map_of (subs (isDB s)) i = Some r" "srStatus r = SubmitAcceptedQuarantined"
    "(ingest_step E C)\<^sup>*\<^sup>* s s'"
  shows "(\<exists>r'. map_of (subs (isDB s')) i = Some r' \<and> srStatus r' = SubmitAcceptedQuarantined \<and> srReason r' \<noteq> None)
    \<and> releasedOf i (obs (isDB s')) = releasedOf i (obs (isDB s))"
  using ingest_steps_sticky [OF assms(4) quarantined_rowI [OF reach_ledger [OF assms(1)] assms(2,3)]]
  unfolding quarantined_row_def by blast

section \<open>Release is fenced\<close>

lemma checkEpoch_None:
  "checkEpoch sp job e d = None \<longleftrightarrow> (\<exists>l. Option.bind (map_of (jobs d) job) Current = Some l \<and> Epoch l = e \<and> HolderID l = sp)"
  by (auto simp: checkEpoch_def split: option.splits if_splits)

lemma releasedOf_iff: "(i, a) \<in> set (releasedOf j os) \<longleftrightarrow> (\<exists>x \<in> set os. obID x = i \<and> obAt x = a \<and> obSubmission x = j \<and> obState x = IngestAccepted)"
  by (auto simp: releasedOf_def obKeys_def)

text \<open>
  C7. Only the transaction of a terminal chunk releases observations: those of its own submission, when the
  newest lease of the job the chunk names has the epoch of the chunk and is held by the authenticated scan
  point, when no chunk of this stream was quarantined, all zones, tasks and packages of the chunk itself
  are what they must be, and when the ledger did not say quarantined.
\<close>

theorem release_fenced:
  assumes "ingest_reach E C s" "ingest_step E C s s'" "releasedOf i (obs (isDB s')) \<noteq> releasedOf i (obs (isDB s))"
  shows "\<exists>k n job c b l. isConns s k = Some n \<and> cnPC n = AtTx job c \<and> cnSub n = Some b \<and> icSubmission c = i \<and> Final c
    \<and> Option.bind (map_of (jobs (core (isDB s))) job) Current = Some l \<and> Epoch l = icEpoch c \<and> HolderID l = prPoint (cnPeer n)
    \<and> \<not> sbQuarantined b \<and> sbJob b = job
    \<and> zoneCheck E (prZone (cnPeer n)) (chObservations c) = None \<and> tasksBelongToJob E job (chObservations c) (core (isDB s)) = Inr True
    \<and> packageObservationsAreCredentialed E job (chObservations c) (core (isDB s)) = Inr None
    \<and> (\<forall>r. map_of (subs (isDB s)) i = Some r \<longrightarrow> srStatus r \<noteq> SubmitAcceptedQuarantined)
    \<and> (\<exists>r'. map_of (subs (isDB s')) i = Some r' \<and> srStatus r' = SubmitAccepted \<and> srCompleted r' \<noteq> None)"
  using assms(2)
proof cases
  case (transacted k n t n' d')
  from transacted(3) show ?thesis
  proof (cases rule: transact_rows)
    case (2 job c b st)
    obtain b2 b5 rs r r' where g: "gated b b2" "gated b2 b5"
      and c1: "sbQuarantined b2 \<or> checkEpoch (prPoint (cnPeer n)) job (icEpoch c) (core (isDB s)) = None \<and> zoneCheck E (prZone (cnPeer n)) (chObservations c) = None"
      and c2: "sbQuarantined b5 \<or> tasksBelongToJob E job (chObservations c) (core (isDB s)) = Inr True
         \<and> packageObservationsAreCredentialed E job (chObservations c) (core (isDB s)) = Inr None"
      and rows: "list_all2 (\<lambda>x r. rowOf E (cnPeer n) (icSubmission c) x r \<and> obState r = IngestPending \<and> obAsset r = None) (chObservations c) rs"
      and rw: "row_step t c b5 r r'" "map_of (subs (tsDB st)) = (map_of (subs (isDB s)))(icSubmission c \<mapsto> r')"
      and o: "obs (tsDB st) = map (if Final c then promoted (icSubmission c) (if sbQuarantined b5 then IngestQuarantined else IngestAccepted) else id) (obs (isDB s) @ rs)"
      by (rule chunkTx_committed [OF 2(3)])
    have new: "releasedOf i rs = []"
      using rows by (intro releasedOf_pending) (auto simp: list_all2_conv_all_nth in_set_conv_nth)
    have o': "obs (isDB s') = obs (tsDB st)" using transacted(1) 2(4) by simp
    have fin: "Final c" "icSubmission c = i" "\<not> sbQuarantined b5"
    proof -
      have "releasedOf i (obs (tsDB st)) \<noteq> releasedOf i (obs (isDB s) @ rs)" using assms(3) o' new by (simp add: releasedOf_append)
      then have "Final c" and ne: "releasedOf i (map (promoted (icSubmission c) (if sbQuarantined b5 then IngestQuarantined else IngestAccepted)) (obs (isDB s) @ rs))
          \<noteq> releasedOf i (obs (isDB s) @ rs)"
        unfolding o by (auto split: if_splits)
      then show "Final c" "icSubmission c = i" "\<not> sbQuarantined b5"
        using releasedOf_promoted [of i "icSubmission c"] by (metis, metis, metis)
    qed
    then have nq: "\<not> sbQuarantined b2" "\<not> sbQuarantined b" using gated_keeps [OF g(1)] gated_keeps [OF g(2)] by auto
    have "\<not> quarantined_row i (isDB s)"
      using chunkTx_sticky [OF 2(3), of i] assms(3) o' by auto
    then have "\<forall>r. map_of (subs (isDB s)) i = Some r \<longrightarrow> srStatus r \<noteq> SubmitAcceptedQuarantined"
      using quarantined_rowI [OF reach_ledger [OF assms(1)]] by blast
    moreover have "srStatus r' = SubmitAccepted \<and> srCompleted r' \<noteq> None"
      using rw(1) fin by (auto simp: row_step_def Let_def completed_def)
    moreover have "map_of (subs (isDB s')) i = Some r'" using rw(2) fin transacted(1) 2(4) by simp
    moreover have "sbJob b = job" using conn_okD(2) [OF reach_conns [OF assms(1) transacted(2)] 2(1)] 2(2) by (auto simp: works_on_def)
    ultimately show ?thesis
      using transacted(2) 2(1,2) fin nq c1 c2 by (simp add: checkEpoch_None) blast
  qed (use assms(3) transacted(1) in \<open>auto simp: Submissions_Quarantine_map\<close>)
next
  case (resolved j at1 asset d')
  then show ?thesis using assms(3) Observations_Resolve_Inr [OF resolved(2)] by (simp add: releasedOf_resolved)
qed (use assms(3) in auto)

section \<open>Every chunk is answered\<close>

text \<open>The transactions a connection may still need before it has an answer.\<close>

definition connRank :: "conn \<Rightarrow> nat" where
  "connRank n = (case cnPC n of
       AtTx job c \<Rightarrow> (case cnSub n of Some b \<Rightarrow> if sbChunks b = 0 then 4 else 2 | None \<Rightarrow> 0)
     | AtResume job c \<Rightarrow> 3
     | AtRecord c q why \<Rightarrow> 1
     | _ \<Rightarrow> 0)"

lemma txStep_rank:
  assumes "cnSub n = Some b" "cnPC n = AtTx job c"
  shows "connRank (fst (txStep E t job c b n d)) < connRank n \<and> cnPC (fst (txStep E t job c b n d)) \<noteq> AtEnd"
proof (cases "chunkTx E (cnPeer n) t job c b d")
  case (Inl x)
  obtain e s where x: "x = (e, s)" by (cases x)
  then show ?thesis
    using chunkTx_failed(2) [OF Inl [unfolded x]] Inl assms
    by (auto simp: txStep_def connRank_def split: ingestError.splits option.splits)
qed (use assms in \<open>simp add: txStep_def connRank_def\<close>)

text \<open>
  C20. Every transaction brings a connection nearer to the answer to its chunk, so that after at most four of
  its transactions, whatever fails in them and whatever others do in between, it has one; in particular
  the retry of \<open>resume\<close> does not come back to \<open>resume\<close>, and the stream never ends because of what the
  ledger holds.
\<close>

theorem chunk_answered:
  assumes "ingest_reach E C s" "isConns s k = Some n" "\<exists>job c q why. cnPC n \<in> {AtTx job c, AtResume job c, AtRecord c q why}"
    "transact E t (n, isDB s) = (n', d')"
  shows "connRank n' < connRank n \<and> connRank n \<le> 4 \<and> cnPC n' \<noteq> AtEnd \<and> (connRank n' = 0 \<longrightarrow> (\<exists>a. cnPC n' = AtAck a))"
proof -
  note ok = reach_conns [OF assms(1,2)] and led = reach_ledger [OF assms(1)]
  have ok': "conn_ok n'" by (rule transact_ok [OF ok led assms(4)])
  have le: "connRank n \<le> 4" by (simp add: connRank_def split: pc.splits option.splits)
  have n': "n' = fst (transact E t (n, isDB s))" using assms(4) by simp
  have "connRank n' < connRank n \<and> cnPC n' \<noteq> AtEnd \<and> cnPC n' \<noteq> AtReceive"
  proof (cases "cnPC n")
    case (AtTx job c)
    then obtain b where b: "cnSub n = Some b" using conn_okD(2) [OF ok AtTx] by (auto simp: works_on_def)
    have "cnPC (fst (txStep E t job c b n (isDB s))) \<noteq> AtReceive"
      by (auto simp: txStep_def split: sum.splits prod.splits ingestError.splits option.splits)
    then show ?thesis using txStep_rank [OF b AtTx, of E t "isDB s"] AtTx b n' by (simp add: transact_def)
  next
    case (AtResume job c)
    then obtain b where b: "cnSub n = Some b" using conn_okD(3) [OF ok AtResume] by (auto simp: works_on_def)
    have n2: "n' = resumeStep E (tnFault t SCurrent) c b n (isDB s)" using n' AtResume b by (simp add: transact_def)
    show ?thesis
    proof (cases rule: resumeStep_cases [OF led b conn_okD(1) [OF ok b], of E "tnFault t SCurrent" c])
      case (1 a)
      then show ?thesis unfolding n2 by (simp add: connRank_def AtResume)
    next
      case (2 b0)
      obtain sb r where e: "enterChunk E c (Some b0) = (sb, r)" by (cases "enterChunk E c (Some b0)")
      have "sbChunks x \<noteq> 0" if "r = Inr job'" "sb = Some x" for job' x
        using enterChunk_ok(2) [OF e _ that(1)] 2(2,3) that(2) by auto
      then show ?thesis unfolding n2 2(1) by (auto simp: reenter_eq e connRank_def AtResume split: sum.splits option.splits)
    qed
  next
    case (AtRecord c q why)
    then show ?thesis using n' by (simp add: transact_def recordStep_def connRank_def)
  qed (use assms(3) in auto)
  moreover from this ok' have "connRank n' = 0 \<longrightarrow> (\<exists>a. cnPC n' = AtAck a)"
    using conn_okD(2) [OF ok'] by (cases "cnPC n'") (auto simp: connRank_def works_on_def split: option.splits if_splits)
  ultimately show ?thesis using le by blast
qed

end
