(* ===== verification/Core_Laundering.thy ===== *)
theory Core_Laundering
  imports Core_Results
begin

text \<open>
  Two runs that the checks of a chunk let pass, as complete sequences of transactions of one honest
  system: the verdict on a first chunk that is lost with its stream, and a submission that is resumed under
  another job. The witnesses of \<open>Core_Results\<close> are states of the same runs.
\<close>

section \<open>A tenant with two jobs\<close>

definition ig_env :: ingestEnv where
  "ig_env = \<lparr>ieParse = map_of [(''j1'', 10), (''j2'', 11), (''t1'', 20), (''t2'', 21), (''o1'', 30), (''o2'', 31)],
     ieText = (\<lambda>u. if u = 20 then ''t1'' else if u = 21 then ''t2'' else ''z''), ieJsonb = (\<lambda>_. True)\<rparr>"

definition ig_job :: "uuid \<Rightarrow> Job" where
  "ig_job t = \<lparr>ScanID = 2, ScanPointID = Some 7, Engine = ''discovery'', Status = JobRunning, Attempt = 1, ReassignSafe = False, Reason = None,
     CreatedAt = 0, CompletedAt = None,
     jobTasks = [\<lparr>taskID = t, taskTarget = ''ab'', taskFragile = False, taskStatus = TaskRunning, targetID = None, hasAccepted = False\<rparr>],
     leases = [\<lparr>Epoch = 1, HolderID = 7, State = LeaseGranted, GrantedAt = 0, ExpiresAt = 100, RenewedAt = None\<rparr>]\<rparr>"

definition ig_point :: ScanPoint where
  "ig_point = \<lparr>spZone = 1, spFingerprint = ''f'', spStatus = ScanPointOnline, spLastHeartbeat = None, spCaps = []\<rparr>"

definition ig_core :: tenantDB where
  "ig_core = \<lparr>scans = [], jobs = [(10, ig_job 20), (11, ig_job 21)], policies = [], kills = [], cancels = [], points = [(7, ig_point)],
     sshProfiles = [], grants = [], audit = []\<rparr>"

definition ig_db :: ingestDB where
  "ig_db = \<lparr>core = ig_core, zones = [1], subs = [], obs = []\<rparr>"

definition ig_turn :: turn where
  "ig_turn = \<lparr>tnFault = (\<lambda>_. False), tnDBNow = 50, tnNow = (\<lambda>_. 50)\<rparr>"

definition ig_ob :: "string \<Rightarrow> string \<Rightarrow> string \<Rightarrow> Observation" where
  "ig_ob i t ty = \<lparr>ObservationId = i, TaskId = t, ZoneId = [], ObservationType = ty, Payload = ''{}'', Confidence = Finite 1, ObservedAtUnix = 0\<rparr>"

definition ig_chunk :: "nat \<Rightarrow> bool \<Rightarrow> string \<Rightarrow> Observation list \<Rightarrow> IngestChunk" where
  "ig_chunk n fin job os = \<lparr>ChunkIndex = n, Final = fin, chObservations = os, icSubmission = ''s'', icJob = job, icEpoch = 1, icIncomplete = False,
     icTermination = W_COMPLETED\<rparr>"

definition ig_conn :: conn where
  "ig_conn = \<lparr>cnPeer = \<lparr>prPoint = 7, prZone = 1\<rparr>, cnSub = None, cnPC = AtReceive\<rparr>"

definition ig_row :: "uuid \<Rightarrow> uuid \<Rightarrow> string \<Rightarrow> IngestState \<Rightarrow> ObservationRow" where
  "ig_row i t ty st = \<lparr>obID = i, obSubmission = ''s'', obTask = t, obPoint = 7, obZone = 1, obAsset = None, obType = ty, obPayload = ''{}'',
     obConfidence = 1, obAt = 50, obState = st\<rparr>"

definition ig_sub :: "int \<Rightarrow> int option \<Rightarrow> SubmissionRow" where
  "ig_sub n l = \<lparr>srJob = 10, srEpoch = 1, srStatus = SubmitAccepted, srChunks = n, srLast = l, srIncomplete = False, srTermination = None,
     srReason = None, srReceived = 50, srCompleted = None\<rparr>"

text \<open>The upload on a stream that has taken \<open>n\<close> chunks.\<close>

definition ig_up :: "uuid \<Rightarrow> int \<Rightarrow> bool \<Rightarrow> quarantineReason option \<Rightarrow> submission" where
  "ig_up job n q r = \<lparr>sbID = ''s'', sbJob = job, sbEpoch = 1, sbChunks = n, sbLast = 0, sbHas = (n > 0), sbQuarantined = q, sbReason = r,
     sbFinished = False, sbIncomplete = False\<rparr>"

lemma ig_fields [simp]:
  "ChunkIndex (ig_chunk n fin job os) = n" "Final (ig_chunk n fin job os) = fin" "chObservations (ig_chunk n fin job os) = os"
  "icSubmission (ig_chunk n fin job os) = ''s''" "icJob (ig_chunk n fin job os) = job" "icEpoch (ig_chunk n fin job os) = 1"
  "icIncomplete (ig_chunk n fin job os) = False" "icTermination (ig_chunk n fin job os) = W_COMPLETED"
  "tnFault ig_turn st = False" "tnDBNow ig_turn = 50" "tnNow ig_turn = (\<lambda>_. 50)"
  "cnPeer ig_conn = \<lparr>prPoint = 7, prZone = 1\<rparr>" "cnSub ig_conn = None"
  "core ig_db = ig_core" "zones ig_db = [1]" "subs ig_db = []" "obs ig_db = []"
  "ZoneId (ig_ob i t ty) = []" "TaskId (ig_ob i t ty) = t" "ObservationType (ig_ob i t ty) = ty"
  by (simp_all add: ig_chunk_def ig_turn_def ig_conn_def ig_db_def ig_ob_def)

lemma ig_up_fields [simp]:
  "sbID (ig_up job n q r) = ''s''" "sbJob (ig_up job n q r) = job" "sbEpoch (ig_up job n q r) = 1" "sbChunks (ig_up job n q r) = n"
  "sbQuarantined (ig_up job n q r) = q" "sbReason (ig_up job n q r) = r" "sbFinished (ig_up job n q r) = False" "sbIncomplete (ig_up job n q r) = False"
  by (simp_all add: ig_up_def)

lemma ig_receiving: "cnPC ig_conn = AtReceive"
  by (simp add: ig_conn_def)

lemma ig_parse [simp]: "ieParse ig_env ''j1'' = Some 10" "ieParse ig_env ''j2'' = Some 11"
  "ieParse ig_env ''o1'' = Some 30" "ieParse ig_env ''o2'' = Some 31" "ieParse ig_env ''t1'' = Some 20" "ieParse ig_env ''t2'' = Some 21"
  by (simp_all add: ig_env_def)

lemma ig_valid: "jsonValid ''{}''" "\<not> hasNULEscape ''{}''"
  using ex_json(1) by (simp_all add: hasNULEscape.simps)

lemma ig_open: "core d = ig_core \<Longrightarrow> openStream ''f'' d = Some ig_conn"
  by (simp add: openStream_def GetByFingerprint_def ig_core_def ig_point_def ig_conn_def)

lemma ig_Current: "Current (ig_job t) = Some \<lparr>Epoch = 1, HolderID = 7, State = LeaseGranted, GrantedAt = 0, ExpiresAt = 100, RenewedAt = None\<rparr>"
  by (simp add: Current_def ig_job_def)

lemma ig_epoch: "checkEpoch 7 10 1 ig_core = None" "checkEpoch 7 11 1 ig_core = None"
  by (simp_all add: checkEpoch_def ig_core_def ig_Current)

lemma ig_receive:
  assumes "length os \<le> 1" "ieParse ig_env j = Some job"
  shows "receive ig_env (ig_chunk n fin j os) ig_conn = ig_conn\<lparr>cnSub := Some (ig_up job 0 False None), cnPC := AtTx job (ig_chunk n fin j os)\<rparr>"
proof -
  have "\<not> maxObservationsPerChunk < length os" using assms(1) by (simp add: maxObservationsPerChunk_def)
  then show ?thesis using assms(2) by (simp add: receive_def enterChunk_def Let_def newSubmission_def ig_up_def)
qed

lemma transact_committed:
  assumes "cnPC n = AtTx job c" "cnSub n = Some b" "chunkTx E (cnPeer n) t job c b d = Inr s"
  shows "transact E t (n, d) = (n\<lparr>cnSub := Some (tsSub s), cnPC := AtAck (ackOf c (tsSub s))\<rparr>, tsDB s)"
  using assms by (simp add: transact_def txStep_def)

lemma ig_tasks: "Jobs_Tasks 10 ig_core = Inr (jobTasks (ig_job 20))" "Jobs_Tasks 11 ig_core = Inr (jobTasks (ig_job 21))"
  by (simp_all add: Jobs_Tasks_def ig_core_def ig_job_def MaxTasksPerAssignment_def)

definition ig_verdict :: "string \<Rightarrow> quarantineReason option" where
  "ig_verdict ty = (if ty = ''package'' then Some PackageNotCredentialed else None)"

lemma ig_packages:
  assumes "job = 10 \<or> job = 11"
  shows "packageObservationsAreCredentialed ig_env job [ig_ob i t ty] ig_core = Inr (ig_verdict ty)"
  using assms by (auto simp: ig_verdict_def packageObservationsAreCredentialed_def ig_core_def ig_job_def)

lemma ig_rows:
  assumes "ValidObservationType ty" "ieParse ig_env i = Some u" "ieParse ig_env t = Some v"
  shows "toObservations ig_env 7 1 ''s'' (\<lambda>_. 50) 0 [ig_ob i t ty] = Inr [ig_row u v ty IngestPending]"
  using assms by (simp add: toObservation_def ig_ob_def ig_valid ig_row_def)

lemma ig_insert:
  assumes "ValidObservationType ty" "v = 20 \<or> v = 21" "core d = ig_core" "zones d = [1]" "map_of (subs d) ''s'' \<noteq> None" "u \<notin> obID ` set (obs d)"
  shows "InsertBatch ig_env [ig_row u v ty IngestPending] IngestPending d = Inr (d\<lparr>obs := obs d @ [ig_row u v ty IngestPending]\<rparr>)"
proof -
  have "\<not> list_ex (\<lambda>x. obID x = u \<and> obAt x = 50) (obs d)" using assms(6) by (auto simp: list_ex_iff)
  then show ?thesis
    using assms by (auto simp: InsertBatch_def insertable_def ig_row_def ig_env_def ig_core_def ig_job_def)
qed

text \<open>The first chunk of a submission for the first job, with one observation.\<close>

lemma ig_first:
  assumes "ValidObservationType ty"
  shows "transact ig_env ig_turn (receive ig_env (ig_chunk 0 False ''j1'' [ig_ob ''o1'' ''t1'' ty]) ig_conn, ig_db) =
    (ig_conn\<lparr>cnSub := Some (ig_up 10 1 (ig_verdict ty \<noteq> None) (ig_verdict ty)),
       cnPC := AtAck \<lparr>saSubmission = ''s'', saLast = 0, saStatus = ACCEPTED, saRetryMs = 0, saDetail = DNone\<rparr>\<rparr>,
     ig_db\<lparr>subs := [(''s'', ig_sub 1 (Some 0))], obs := [ig_row 30 20 ty IngestPending]\<rparr>)"
proof -
  let ?c = "ig_chunk 0 False ''j1'' [ig_ob ''o1'' ''t1'' ty]" and ?p = "\<lparr>prPoint = 7, prZone = 1\<rparr>"
  let ?q = "ig_verdict ty \<noteq> None" and ?r = "ig_verdict ty"
  let ?s0 = "\<lparr>tsSub = ig_up 10 0 False None, tsDB = ig_db, tsRaised = None\<rparr>"
  let ?d1 = "ig_db\<lparr>subs := [(''s'', ig_sub 0 None)]\<rparr>"
  let ?d2 = "?d1\<lparr>obs := [ig_row 30 20 ty IngestPending]\<rparr>"
  have 1: "epochGate ?p ig_turn 10 ?c ?s0 = Inr ?s0" by (simp add: epochGate_def ig_epoch raiseQ_def)
  have 2: "zoneGate ig_env ?p ?c ?s0 = Inr ?s0" by (simp add: zoneGate_def zoneCheck_def raiseQ_def)
  have 3: "beginStage ig_turn 10 ?c ?s0 = Inr (?s0\<lparr>tsDB := ?d1\<rparr>)"
    by (simp add: beginStage_def Submissions_Begin_def reasonPaired_def ig_sub_def) (simp add: ig_core_def)
  have 4: "taskGate ig_env ig_turn 10 ?c (?s0\<lparr>tsDB := ?d1\<rparr>) = Inr (?s0\<lparr>tsDB := ?d1\<rparr>)"
    by (simp add: taskGate_def tasksBelongToJob_def ig_tasks raiseQ_def) (simp add: ig_job_def ig_env_def)
  have 5: "packageGate ig_env ig_turn 10 ?c (?s0\<lparr>tsDB := ?d1\<rparr>) = Inr (?s0\<lparr>tsDB := ?d1, tsSub := ig_up 10 0 ?q ?r\<rparr>)"
    by (simp add: packageGate_def ig_packages raiseQ_def split: option.splits) (simp add: ig_up_def)
  have 6: "quarantineStage ig_turn ?c (?s0\<lparr>tsDB := ?d1, tsSub := ig_up 10 0 ?q ?r\<rparr>) = Inr (?s0\<lparr>tsDB := ?d1, tsSub := ig_up 10 0 ?q ?r\<rparr>)"
    by (simp add: quarantineStage_def)
  have 7: "insertStage ig_env ?p ig_turn ?c (?s0\<lparr>tsDB := ?d1, tsSub := ig_up 10 0 ?q ?r\<rparr>) = Inr (?s0\<lparr>tsDB := ?d2, tsSub := ig_up 10 0 ?q ?r\<rparr>)"
    by (simp add: insertStage_def ig_rows [OF assms, of "''o1''" 30 "''t1''" 20] run_stmt_def ig_insert [OF assms, of 20] del: toObservations.simps)
  have 8: "recordStage ig_turn ?c (?s0\<lparr>tsDB := ?d2, tsSub := ig_up 10 0 ?q ?r\<rparr>)
      = Inr (?s0\<lparr>tsDB := ?d2\<lparr>subs := [(''s'', ig_sub 1 (Some 0))]\<rparr>, tsSub := ig_up 10 1 ?q ?r\<rparr>)"
    by (simp add: recordStage_def andThen_def run_stmt_def Submissions_RecordChunk_def maxInt4_def updSub_def recorded_def counted_def ig_sub_def ig_up_def)
  have "chunkTx ig_env ?p ig_turn 10 ?c (ig_up 10 0 False None) ig_db
      = Inr (?s0\<lparr>tsDB := ?d2\<lparr>subs := [(''s'', ig_sub 1 (Some 0))]\<rparr>, tsSub := ig_up 10 1 ?q ?r\<rparr>)"
    unfolding chunkTx_def andThen_def 1 2 3 4 5 6 7 8 sum.case by simp
  then show ?thesis
    using transact_committed [of "receive ig_env ?c ig_conn" 10 ?c "ig_up 10 0 False None" ig_env ig_turn ig_db] by (simp add: ig_receive ackOf_def)
qed

section \<open>A second stream\<close>

text \<open>The rows after the first chunk, and a terminal chunk on a new stream, for either job.\<close>

definition ig_db1 :: "string \<Rightarrow> ingestDB" where
  "ig_db1 ty = ig_db\<lparr>subs := [(''s'', ig_sub 1 (Some 0))], obs := [ig_row 30 20 ty IngestPending]\<rparr>"

lemma ig_db1_fields [simp]:
  "core (ig_db1 ty) = ig_core" "zones (ig_db1 ty) = [1]" "subs (ig_db1 ty) = [(''s'', ig_sub 1 (Some 0))]" "obs (ig_db1 ty) = [ig_row 30 20 ty IngestPending]"
  by (simp_all add: ig_db1_def)

lemma ig_conflict:
  assumes "job = 10 \<or> job = 11" "length os \<le> 1" "ieParse ig_env j = Some job" "\<forall>x \<in> set os. ZoneId x = []"
  shows "transact ig_env ig_turn (receive ig_env (ig_chunk 1 True j os) ig_conn, ig_db1 ty) =
    (ig_conn\<lparr>cnSub := Some (ig_up job 0 False None), cnPC := AtResume job (ig_chunk 1 True j os)\<rparr>, ig_db1 ty)"
proof -
  have z: "zoneCheck ig_env 1 os = None" using assms(4) by (auto simp: zoneCheck_def list_ex_iff)
  have e: "checkEpoch 7 job 1 ig_core = None" using assms(1) ig_epoch by auto
  show ?thesis
    by (simp add: ig_receive [OF assms(2,3)] transact_def txStep_def chunkTx_def andThen_def epochGate_def e raiseQ_def zoneGate_def z
        beginStage_def Submissions_Begin_def reasonPaired_def)
qed

lemma ig_resume:
  assumes "length os \<le> 1" "ieParse ig_env j = Some job"
  shows "transact ig_env ig_turn (ig_conn\<lparr>cnSub := Some (ig_up job 0 False None), cnPC := AtResume job (ig_chunk 1 True j os)\<rparr>, ig_db1 ty) =
    (ig_conn\<lparr>cnSub := Some (ig_up job 1 False None), cnPC := AtTx job (ig_chunk 1 True j os)\<rparr>, ig_db1 ty)"
proof -
  have m: "\<not> maxObservationsPerChunk < length os" using assms(1) by (simp add: maxObservationsPerChunk_def)
  have r: "rehydrate (ig_sub 1 (Some 0)) (ig_up job 0 False None) = ig_up job 1 False None\<lparr>sbHas := False\<rparr>"
    by (simp add: rehydrate_def ig_sub_def ig_up_def)
  have b: "(ig_up job 1 False None\<lparr>sbHas := False\<rparr>)\<lparr>sbLast := 0, sbHas := True\<rparr> = ig_up job 1 False None" by (simp add: ig_up_def)
  have i: "(ig_up job 1 False None)\<lparr>sbIncomplete := False\<rparr> = ig_up job 1 False None" by (simp add: ig_up_def)
  have "resumeStep ig_env False (ig_chunk 1 True j os) (ig_up job 0 False None) n (ig_db1 ty)
      = reenter ig_env (ig_chunk 1 True j os) (ig_up job 1 False None) n" for n
    by (simp add: resumeStep_def r) (simp add: ig_sub_def b [simplified])
  then show ?thesis
    using m assms(2) by (simp add: transact_def reenter_def enterChunk_def Let_def i)
qed

lemma ig_last:
  assumes "(job, j, os, rs) \<in> {(10, ''j1'', [], []), (11, ''j2'', [ig_ob ''o2'' ''t2'' ''host''], [ig_row 31 21 ''host'' IngestPending])}"
  obtains n' d' r where "transact ig_env ig_turn (ig_conn\<lparr>cnSub := Some (ig_up job 1 False None), cnPC := AtTx job (ig_chunk 1 True j os)\<rparr>, ig_db1 ty) = (n', d')"
    "obs d' = map (promoted ''s'' IngestAccepted) (ig_row 30 20 ty IngestPending # rs)"
    "map_of (subs d') ''s'' = Some r" "srJob r = 10" "srStatus r = SubmitAccepted" "srCompleted r \<noteq> None"
    "map (\<lambda>(i, x). (i, Engine x, map taskID (jobTasks x))) (jobs (core d')) = [(10, ''discovery'', [20]), (11, ''discovery'', [21])]"
proof -
  let ?c = "ig_chunk 1 True j os" and ?p = "\<lparr>prPoint = 7, prZone = 1\<rparr>"
  let ?s0 = "\<lparr>tsSub = ig_up job 1 False None, tsDB = ig_db1 ty, tsRaised = None\<rparr>"
  let ?d1 = "(ig_db1 ty)\<lparr>obs := ig_row 30 20 ty IngestPending # rs\<rparr>"
  have e: "checkEpoch 7 job 1 ig_core = None" using assms ig_epoch by auto
  have 1: "epochGate ?p ig_turn job ?c ?s0 = Inr ?s0" by (simp add: epochGate_def e raiseQ_def)
  have 2: "zoneGate ig_env ?p ?c ?s0 = Inr ?s0" using assms by (auto simp: zoneGate_def zoneCheck_def raiseQ_def)
  have 3: "beginStage ig_turn job ?c ?s0 = Inr ?s0" by (simp add: beginStage_def)
  have 4: "taskGate ig_env ig_turn job ?c ?s0 = Inr ?s0"
    using assms by (auto simp: taskGate_def tasksBelongToJob_def ig_tasks raiseQ_def ig_job_def ig_env_def)
  have pk: "packageObservationsAreCredentialed ig_env job os ig_core = Inr None"
    using assms by (auto simp: ig_packages ig_verdict_def) (simp add: packageObservationsAreCredentialed_def)
  have 5: "packageGate ig_env ig_turn job ?c ?s0 = Inr ?s0" by (simp add: packageGate_def pk raiseQ_def)
  have 6: "quarantineStage ig_turn ?c ?s0 = Inr ?s0" by (simp add: quarantineStage_def)
  have v: "ValidObservationType ''host''" by (simp add: ValidObservationType_def validObservationTypes_def)
  have 7: "insertStage ig_env ?p ig_turn ?c ?s0 = Inr (?s0\<lparr>tsDB := ?d1\<rparr>)"
  proof (cases "os = []")
    case True
    then show ?thesis using assms by (auto simp: insertStage_def run_stmt_def InsertBatch_def ig_db1_def)
  next
    case False
    then have os: "os = [ig_ob ''o2'' ''t2'' ''host'']" "rs = [ig_row 31 21 ''host'' IngestPending]" using assms by auto
    have "31 \<notin> obID ` set (obs (ig_db1 ty))" by (simp add: ig_row_def)
    then show ?thesis
      using ig_rows [OF v, of "''o2''" 31 "''t2''" 21] ig_insert [OF v, of 21 "ig_db1 ty" 31]
      unfolding os by (simp add: insertStage_def run_stmt_def del: toObservations.simps)
  qed
  let ?d2 = "?d1\<lparr>subs := [(''s'', ig_sub 2 (Some 1))]\<rparr>" and ?b2 = "counted ?c (ig_up job 1 False None)"
  have 8: "recordStage ig_turn ?c (?s0\<lparr>tsDB := ?d1\<rparr>) = Inr (?s0\<lparr>tsDB := ?d2, tsSub := ?b2\<rparr>)"
    by (simp add: recordStage_def andThen_def run_stmt_def Submissions_RecordChunk_def maxInt4_def updSub_def recorded_def ig_sub_def)
  let ?os = "map (promoted ''s'' IngestAccepted) (ig_row 30 20 ty IngestPending # rs)"
  let ?r = "completed SubmitAccepted (terminationReason W_COMPLETED) None 50 (ig_sub 2 (Some 1))"
  let ?d3 = "?d2\<lparr>obs := ?os, core := ig_core\<lparr>jobs := markRows (named_by ?os) (jobs ig_core)\<rparr>, subs := [(''s'', ?r)]\<rparr>"
  let ?d4 = "?d3\<lparr>core := (core ?d3)\<lparr>jobs := updateRow job (\<lambda>x. Some (ReconcileTasksWithResults x)) (jobs (core ?d3))\<rparr>\<rparr>"
  have q: "sbQuarantined (counted c b) = sbQuarantined b" "sbReason (counted c b) = sbReason b" "sbJob (counted c b) = sbJob b" for c b
    by (simp_all add: counted_def)
  have 9: "finalStage ?p ig_turn job ?c (?s0\<lparr>tsDB := ?d2, tsSub := ?b2\<rparr>) = Inr (?s0\<lparr>tsDB := ?d4, tsSub := ?b2\<lparr>sbFinished := True\<rparr>\<rparr>)"
    by (simp add: finalStage_def Let_def andThen_def run_stmt_def Promote_def q Submissions_Complete_def completed_def reasonPaired_def updSub_def ig_sub_def)
  have tx: "chunkTx ig_env ?p ig_turn job ?c (ig_up job 1 False None) (ig_db1 ty) = Inr (?s0\<lparr>tsDB := ?d4, tsSub := ?b2\<lparr>sbFinished := True\<rparr>\<rparr>)"
    unfolding chunkTx_def andThen_def 1 2 3 4 5 6 7 8 sum.case by (simp add: 9 [simplified])
  show ?thesis
  proof (rule that)
    show "transact ig_env ig_turn (ig_conn\<lparr>cnSub := Some (ig_up job 1 False None), cnPC := AtTx job ?c\<rparr>, ig_db1 ty)
        = (ig_conn\<lparr>cnSub := Some (?b2\<lparr>sbFinished := True\<rparr>), cnPC := AtAck (ackOf ?c (?b2\<lparr>sbFinished := True\<rparr>))\<rparr>, ?d4)"
      using transact_committed [of "ig_conn\<lparr>cnSub := Some (ig_up job 1 False None), cnPC := AtTx job ?c\<rparr>" job ?c "ig_up job 1 False None" ig_env ig_turn "ig_db1 ty"] tx
      by simp
    show "map_of (subs ?d4) ''s'' = Some ?r" by simp
    show "map (\<lambda>(i, x). (i, Engine x, map taskID (jobTasks x))) (jobs (core ?d4)) = [(10, ''discovery'', [20]), (11, ''discovery'', [21])]"
      by (simp add: markRows_def updateRow_def markObserved_def ReconcileTasksWithResults_def ig_core_def ig_job_def)
  qed (simp_all add: completed_def ig_sub_def)
qed

section \<open>The runs\<close>

abbreviation ig_sys :: "ingestDB \<Rightarrow> (nat \<Rightarrow> conn option) \<Rightarrow> ingestSys" where
  "ig_sys d cs \<equiv> \<lparr>isDB = d, isConns = cs\<rparr>"

lemma ig_opened: "core d = ig_core \<Longrightarrow> ingest_step ig_env C (ig_sys d Map.empty) (ig_sys d [k \<mapsto> ig_conn])"
  using ingest_step.opened [of "''f''" "ig_sys d Map.empty" ig_conn k ig_env C] ig_open by simp

lemma ig_received: "cnPC n = AtReceive \<Longrightarrow> ingest_step ig_env C (ig_sys d [k \<mapsto> n]) (ig_sys d [k \<mapsto> receive ig_env c n])"
  using ingest_step.received [of "ig_sys d [k \<mapsto> n]" k n ig_env C c] by simp

lemma ig_transacted: "transact ig_env ig_turn (n, d) = (n', d') \<Longrightarrow> ingest_step ig_env C (ig_sys d [k \<mapsto> n]) (ig_sys d' [k \<mapsto> n'])"
  using ingest_step.transacted [of "ig_sys d [k \<mapsto> n]" k n ig_env ig_turn n' d' C] by simp

lemma ig_ended: "ingest_step ig_env C (ig_sys d [k \<mapsto> n]) (ig_sys d Map.empty)"
  using ingest_step.ended [of ig_env C "ig_sys d [k \<mapsto> n]" k] by simp

lemma ig_fresh: "ingest_reach ig_env C (ig_sys ig_db [0 \<mapsto> receive ig_env c ig_conn])"
proof -
  have "ingest_reach ig_env C (ig_sys ig_db Map.empty)" using ingest_reach.start [of ig_env C ig_core "[1]"] by (simp add: ig_db_def)
  then show ?thesis
    using ig_opened ig_received [of ig_conn] by (meson ig_fields(14) ingest_reach.stepped ig_receiving)
qed

lemma ig_stored_chunk:
  assumes "ValidObservationType ty"
  shows "ingest_reach ig_env C (ig_sys (ig_db1 ty)
    [0 \<mapsto> ig_conn\<lparr>cnSub := Some (ig_up 10 1 (ig_verdict ty \<noteq> None) (ig_verdict ty)),
       cnPC := AtAck \<lparr>saSubmission = ''s'', saLast = 0, saStatus = ACCEPTED, saRetryMs = 0, saDetail = DNone\<rparr>\<rparr>])"
  by (rule ingest_reach.stepped [OF ig_fresh ig_transacted]) (use ig_first [OF assms] in \<open>simp add: ig_db1_def\<close>)

text \<open>The first stream ends after its chunk; a second one resumes.\<close>

lemma ig_resumed:
  assumes "ValidObservationType ty"
    "(job, j, os, rs) \<in> {(10, ''j1'', [], []), (11, ''j2'', [ig_ob ''o2'' ''t2'' ''host''], [ig_row 31 21 ''host'' IngestPending])}"
  shows "ingest_reach ig_env C (ig_sys (ig_db1 ty) [1 \<mapsto> ig_conn\<lparr>cnSub := Some (ig_up job 1 False None), cnPC := AtTx job (ig_chunk 1 True j os)\<rparr>])"
proof -
  have a: "job = 10 \<or> job = 11" "length os \<le> 1" "ieParse ig_env j = Some job" "\<forall>x \<in> set os. ZoneId x = []" using assms(2) by auto
  have 1: "ingest_reach ig_env C (ig_sys (ig_db1 ty) Map.empty)"
    by (rule ingest_reach.stepped [OF ig_stored_chunk [OF assms(1)] ig_ended])
  have 2: "ingest_reach ig_env C (ig_sys (ig_db1 ty) [1 \<mapsto> ig_conn])"
    by (rule ingest_reach.stepped [OF 1 ig_opened]) simp
  have 3: "ingest_reach ig_env C (ig_sys (ig_db1 ty) [1 \<mapsto> receive ig_env (ig_chunk 1 True j os) ig_conn])"
    by (rule ingest_reach.stepped [OF 2 ig_received]) (simp add: ig_receiving)
  note 4 = ingest_reach.stepped [OF 3 ig_transacted [OF ig_conflict [OF a]]]
  show ?thesis by (rule ingest_reach.stepped [OF 4 ig_transacted [OF ig_resume [OF a(2,3)]]])
qed

section \<open>What the checks do not cover\<close>

lemma ig_host: "ValidObservationType ''host''" "ValidObservationType ''package''"
  by (simp_all add: ValidObservationType_def validObservationTypes_def)

text \<open>
  C37. The verdict of the task and package checks on a first chunk is not written to the ledger: the row was
  begun before them, and later chunks only write it on the same stream. A scan point that drops the
  stream after such a chunk and ends the submission on a new one has it released: a reachable
  state has a released \<open>package\<close> observation although no job of the tenant is credentialed.
\<close>

theorem first_verdict_lost:
  "\<exists>s. ingest_reach ig_env C s \<and> (\<exists>x \<in> set (obs (isDB s)). obType x = ''package'' \<and> obState x = IngestAccepted)
     \<and> list_all (\<lambda>(i, j). Engine j \<noteq> ''host'') (jobs (core (isDB s)))"
proof -
  have v: "(10, ''j1'', [], []) \<in> {(10, ''j1'', [], []), (11 :: uuid, ''j2'', [ig_ob ''o2'' ''t2'' ''host''], [ig_row 31 21 ''host'' IngestPending])}" by simp
  obtain n' d' r where t: "transact ig_env ig_turn (ig_conn\<lparr>cnSub := Some (ig_up 10 1 False None), cnPC := AtTx 10 (ig_chunk 1 True ''j1'' [])\<rparr>, ig_db1 ''package'') = (n', d')"
    and o: "obs d' = map (promoted ''s'' IngestAccepted) [ig_row 30 20 ''package'' IngestPending]"
    and j: "map (\<lambda>(i, x). (i, Engine x, map taskID (jobTasks x))) (jobs (core d')) = [(10, ''discovery'', [20]), (11, ''discovery'', [21])]"
    by (rule ig_last [OF v])
  have "ingest_reach ig_env C (ig_sys d' [1 \<mapsto> n'])" by (rule ingest_reach.stepped [OF ig_resumed [OF ig_host(2) v] ig_transacted [OF t]])
  moreover have "\<exists>x \<in> set (obs d'). obType x = ''package'' \<and> obState x = IngestAccepted" unfolding o by (simp add: promoted_def ig_row_def)
  moreover have "Engine y \<noteq> ''host''" if "(i, y) \<in> set (jobs (core d'))" for i y
    using j that by (auto simp: map_eq_Cons_conv)
  ultimately show ?thesis by (intro exI [of _ "ig_sys d' [1 \<mapsto> n']"]) (auto simp: list_all_iff)
qed

text \<open>
  C38. A chunk that resumes a submission is not compared with the job and the epoch the ledger has for it:
  the second stream may name another job of the scan point, whose lease is then the one that is checked.
  A reachable state has a completed, accepted submission with a released observation of a task that
  does not belong to the job of the submission.
\<close>

theorem resumed_under_other_job:
  "\<exists>s x r j. ingest_reach ig_env C s \<and> x \<in> set (obs (isDB s)) \<and> obState x = IngestAccepted \<and> map_of (subs (isDB s)) (obSubmission x) = Some r
     \<and> srStatus r = SubmitAccepted \<and> map_of (jobs (core (isDB s))) (srJob r) = Some j \<and> obTask x \<notin> set (map taskID (jobTasks j))"
proof -
  have v: "(11, ''j2'', [ig_ob ''o2'' ''t2'' ''host''], [ig_row 31 21 ''host'' IngestPending])
     \<in> {(10 :: uuid, ''j1'', [], []), (11, ''j2'', [ig_ob ''o2'' ''t2'' ''host''], [ig_row 31 21 ''host'' IngestPending])}" by simp
  obtain n' d' r where t: "transact ig_env ig_turn (ig_conn\<lparr>cnSub := Some (ig_up 11 1 False None),
        cnPC := AtTx 11 (ig_chunk 1 True ''j2'' [ig_ob ''o2'' ''t2'' ''host''])\<rparr>, ig_db1 ''host'') = (n', d')"
    and o: "obs d' = map (promoted ''s'' IngestAccepted) [ig_row 30 20 ''host'' IngestPending, ig_row 31 21 ''host'' IngestPending]"
    and r: "map_of (subs d') ''s'' = Some r" "srJob r = 10" "srStatus r = SubmitAccepted"
    and j: "map (\<lambda>(i, x). (i, Engine x, map taskID (jobTasks x))) (jobs (core d')) = [(10, ''discovery'', [20]), (11, ''discovery'', [21])]"
    by (rule ig_last [OF v])
  have re: "ingest_reach ig_env C (ig_sys d' [1 \<mapsto> n'])" by (rule ingest_reach.stepped [OF ig_resumed [OF ig_host(1) v] ig_transacted [OF t]])
  obtain y where y: "map_of (jobs (core d')) 10 = Some y" "map taskID (jobTasks y) = [20]"
    using j by (auto simp: map_eq_Cons_conv)
  let ?x = "ig_row 31 21 ''host'' IngestAccepted"
  have x: "?x \<in> set (obs d')" "obSubmission ?x = ''s''" "obState ?x = IngestAccepted" "obTask ?x = 21"
    unfolding o by (simp_all add: promoted_def ig_row_def)
  show ?thesis
    by (rule exI [of _ "ig_sys d' [1 \<mapsto> n']"], rule exI [of _ ?x], rule exI [of _ r], rule exI [of _ y]) (use re x r y in simp)
qed

section \<open>Witnesses\<close>

theorem ledger_well_formed_witness: "ledger_ok (ig_db1 ''host'')"
  using ledger_well_formed [OF ig_stored_chunk [OF ig_host(1), of ex_env]] by simp

text \<open>The terminal chunk of a submission for its own job.\<close>

lemma ig_release:
  obtains d' n' where "ingest_step ig_env C (ig_sys (ig_db1 ''host'') [1 \<mapsto> ig_conn\<lparr>cnSub := Some (ig_up 10 1 False None),
      cnPC := AtTx 10 (ig_chunk 1 True ''j1'' [])\<rparr>]) (ig_sys d' [1 \<mapsto> n'])" "obs d' = [ig_row 30 20 ''host'' IngestAccepted]"
    "ingest_reach ig_env C (ig_sys (ig_db1 ''host'') [1 \<mapsto> ig_conn\<lparr>cnSub := Some (ig_up 10 1 False None), cnPC := AtTx 10 (ig_chunk 1 True ''j1'' [])\<rparr>])"
proof -
  have v: "(10, ''j1'', [], []) \<in> {(10, ''j1'', [], []), (11 :: uuid, ''j2'', [ig_ob ''o2'' ''t2'' ''host''], [ig_row 31 21 ''host'' IngestPending])}" by simp
  obtain n' d' where t: "transact ig_env ig_turn (ig_conn\<lparr>cnSub := Some (ig_up 10 1 False None), cnPC := AtTx 10 (ig_chunk 1 True ''j1'' [])\<rparr>, ig_db1 ''host'') = (n', d')"
    "obs d' = map (promoted ''s'' IngestAccepted) [ig_row 30 20 ''host'' IngestPending]"
    by (rule ig_last [OF v])
  show ?thesis
    by (rule that [OF ig_transacted [OF t(1)] _ ig_resumed [OF ig_host(1) v]]) (simp add: t(2) promoted_def ig_row_def)
qed


theorem release_fenced_witness:
  "\<exists>(n :: conn) l. cnPC n = AtTx 10 (ig_chunk 1 True ''j1'' []) \<and> Option.bind (map_of (jobs ig_core) 10) Current = Some l \<and> HolderID l = prPoint (cnPeer n)"
proof -
  obtain d' n' where d: "ingest_step ig_env ex_env (ig_sys (ig_db1 ''host'') [1 \<mapsto> ig_conn\<lparr>cnSub := Some (ig_up 10 1 False None),
      cnPC := AtTx 10 (ig_chunk 1 True ''j1'' [])\<rparr>]) (ig_sys d' [1 \<mapsto> n'])" "obs d' = [ig_row 30 20 ''host'' IngestAccepted]"
    "ingest_reach ig_env ex_env (ig_sys (ig_db1 ''host'') [1 \<mapsto> ig_conn\<lparr>cnSub := Some (ig_up 10 1 False None), cnPC := AtTx 10 (ig_chunk 1 True ''j1'' [])\<rparr>])"
    by (rule ig_release)
  have "releasedOf ''s'' (obs d') \<noteq> releasedOf ''s'' (obs (ig_db1 ''host''))" using d(2) by (simp add: releasedOf_def obKeys_def ig_row_def)
  then obtain k :: nat and n job c l where n: "([1 \<mapsto> ig_conn\<lparr>cnSub := Some (ig_up 10 1 False None), cnPC := AtTx 10 (ig_chunk 1 True ''j1'' [])\<rparr>]) k = Some n"
      "cnPC n = AtTx job c" "Option.bind (map_of (jobs ig_core) job) Current = Some l" "HolderID l = prPoint (cnPeer n)"
    using release_fenced [OF d(3,1), of "''s''"] by auto
  then have "n = ig_conn\<lparr>cnSub := Some (ig_up 10 1 False None), cnPC := AtTx 10 (ig_chunk 1 True ''j1'' [])\<rparr>" by (auto split: if_splits)
  then show ?thesis using n(2-4) by (intro exI [of _ n] exI [of _ l]) simp
qed

theorem chunk_answered_witness:
  "\<exists>n' d'. transact ig_env ig_turn (receive ig_env (ig_chunk 0 False ''j1'' [ig_ob ''o1'' ''t1'' ''host'']) ig_conn, ig_db) = (n', d')
     \<and> connRank n' < connRank (receive ig_env (ig_chunk 0 False ''j1'' [ig_ob ''o1'' ''t1'' ''host'']) ig_conn) \<and> cnPC n' \<noteq> AtEnd"
proof -
  let ?n = "receive ig_env (ig_chunk 0 False ''j1'' [ig_ob ''o1'' ''t1'' ''host'']) ig_conn"
  have "\<exists>job c q why. cnPC ?n \<in> {AtTx job c, AtResume job c, AtRecord c q why}" by (auto simp: ig_receive)
  then show ?thesis
    using chunk_answered [OF ig_fresh [where C = ex_env], where k = 0 and n = ?n] ig_first [OF ig_host(1)] by fastforce
qed

lemma ig_pc: "cnPC (n\<lparr>cnSub := b, cnPC := p\<rparr>) = p"
  by simp

text \<open>The next chunk on the stream of a quarantined upload writes the quarantine to the ledger.\<close>

lemma ig_quarantined:
  obtains d' n' r where "ingest_reach ig_env C (ig_sys d' [0 \<mapsto> n'])" "map_of (subs d') ''s'' = Some r" "srStatus r = SubmitAcceptedQuarantined"
proof -
  let ?b = "ig_up 10 1 True (Some PackageNotCredentialed)" and ?c = "ig_chunk 1 False ''j1'' []"
  let ?a = "\<lparr>saSubmission = ''s'', saLast = 0, saStatus = ACCEPTED, saRetryMs = 0, saDetail = DNone\<rparr>"
  let ?n = "ig_conn\<lparr>cnSub := Some ?b, cnPC := AtReceive\<rparr>"
  have "ingest_reach ig_env C (ig_sys (ig_db1 ''package'') [0 \<mapsto> ig_conn\<lparr>cnSub := Some ?b, cnPC := AtAck ?a\<rparr>])"
    using ig_stored_chunk [OF ig_host(2)] by (simp add: ig_verdict_def)
  moreover have "ingest_step ig_env C (ig_sys (ig_db1 ''package'') [0 \<mapsto> ig_conn\<lparr>cnSub := Some ?b, cnPC := AtAck ?a\<rparr>]) (ig_sys (ig_db1 ''package'') [0 \<mapsto> ?n])"
    using ingest_step.answered [of "ig_sys (ig_db1 ''package'') [0 \<mapsto> ig_conn\<lparr>cnSub := Some ?b, cnPC := AtAck ?a\<rparr>]" 0 _ ?a ig_env C] by simp
  ultimately have 0: "ingest_reach ig_env C (ig_sys (ig_db1 ''package'') [0 \<mapsto> ?n])" by (rule ingest_reach.stepped)
  have 1: "ingest_reach ig_env C (ig_sys (ig_db1 ''package'') [0 \<mapsto> receive ig_env ?c ?n])"
    by (rule ingest_reach.stepped [OF 0 ig_received]) simp
  have i: "?b\<lparr>sbIncomplete := False\<rparr> = ?b" by (simp add: ig_up_def)
  have n: "receive ig_env ?c ?n = ?n\<lparr>cnPC := AtTx 10 ?c\<rparr>"
    by (simp add: receive_def enterChunk_def Let_def i maxObservationsPerChunk_def)
  let ?s0 = "\<lparr>tsSub = ?b, tsDB = ig_db1 ''package'', tsRaised = None\<rparr>"
  have "\<exists>s. chunkTx ig_env \<lparr>prPoint = 7, prZone = 1\<rparr> ig_turn 10 ?c ?b (ig_db1 ''package'') = Inr s \<and>
      (\<exists>r. map_of (subs (tsDB s)) ''s'' = Some r \<and> srStatus r = SubmitAcceptedQuarantined)"
    by (simp add: chunkTx_def andThen_def epochGate_def zoneGate_def beginStage_def taskGate_def packageGate_def quarantineStage_def insertStage_def
        run_stmt_def InsertBatch_def recordStage_def Submissions_RecordChunk_def Submissions_Quarantine_def updSub_def markQuarantined_def ig_sub_def maxInt4_def recorded_def)
  then obtain s r where s: "chunkTx ig_env \<lparr>prPoint = 7, prZone = 1\<rparr> ig_turn 10 ?c ?b (ig_db1 ''package'') = Inr s"
    "map_of (subs (tsDB s)) ''s'' = Some r" "srStatus r = SubmitAcceptedQuarantined" by blast
  have "transact ig_env ig_turn (receive ig_env ?c ?n, ig_db1 ''package'') =
      ((receive ig_env ?c ?n)\<lparr>cnSub := Some (tsSub s), cnPC := AtAck (ackOf ?c (tsSub s))\<rparr>, tsDB s)"
    by (rule transact_committed [of _ 10 _ ?b]) (unfold n, use s(1) in simp_all)
  then show ?thesis using that [OF ingest_reach.stepped [OF 1 ig_transacted] s(2,3)] by blast
qed

theorem quarantine_sticky_witness:
  "\<exists>s s' r'. ingest_step ig_env ex_env s s' \<and> map_of (subs (isDB s')) ''s'' = Some r' \<and> srStatus r' = SubmitAcceptedQuarantined
     \<and> releasedOf ''s'' (obs (isDB s')) = releasedOf ''s'' (obs (isDB s))"
proof -
  obtain d n r where r: "ingest_reach ig_env ex_env (ig_sys d [0 \<mapsto> n])" "map_of (subs d) ''s'' = Some r" "srStatus r = SubmitAcceptedQuarantined"
    by (rule ig_quarantined)
  have e: "ingest_step ig_env ex_env (ig_sys d [0 \<mapsto> n]) (ig_sys d Map.empty)" by (rule ig_ended)
  then have "(ingest_step ig_env ex_env)\<^sup>*\<^sup>* (ig_sys d [0 \<mapsto> n]) (ig_sys d Map.empty)" by blast
  from quarantine_sticky [OF r(1) _ _ this, of "''s''" r] show ?thesis using r(2,3) e by fastforce
qed

end
