(* ===== verification/Spec2Isabelle.thy ===== *)
theory Spec2Isabelle
  imports Version_Compare Identity_Rules Release Attribution Kernel Presence Scan_Lifecycle Engine_Output Scan_Runtime Core_Stream Core_Laundering
begin

text \<open>
  \<^bold>\<open>A verification of the scanning platform cvap.\<close>

  \<^bold>\<open>The program.\<close> cvap has a control plane (Core), which keeps scans, policies, jobs, leases and results in
  a database per tenant, and scan points, which run the scan engines inside the customer's networks. An
  operator creates a scan under a policy; the planner of Core turns it into jobs of canonical targets; the
  dispatch stream of a scan point is offered a job under a lease, with its constraints, its scope and, when
  the policy asks for it, a sealed credential; the scan point checks everything again, runs an engine under
  a packet budget, buffers what the engine reports and submits it in chunks; Core fences every message by
  the lease epoch, stages the chunks and releases them when the submission ends. A sweeper
  expires leases; operators kill or cancel. What was reported is attributed to assets by the resolver and
  compared with advisories by package version. The theories follow that path. All paths below are under
  \<open>src/internal/\<close>.

  \<^bold>\<open>Shared theories.\<close> \<open>Go_Prelude\<close> has the Go values and library functions the code calls (strings are byte
  lists, \<open>int64\<close> arithmetic is 64-bit words where it can wrap), the theorem collections and the
  list lemmas; \<open>Go_Text\<close> more of package \<open>strings\<close>; \<open>Netip\<close> and \<open>Netip_Text\<close> package \<open>net/netip\<close>, parsers and
  printers; \<open>Go_Json\<close> what \<open>encoding/json\<close> accepts and decodes; \<open>Three_Way\<close> the contract of a Go comparison
  function, as a locale.

  \<^bold>\<open>Deciding what a fact means.\<close>
  \<^item> \<open>Version_Dpkg\<close>, \<open>Version_Rpm\<close>, \<open>Version_Compare\<close>: \<open>version/\<close>. The comparator loops on the
    suffixes still to be read, equal to a comparison of rank and number lists; CompareDpkg an ordering; the
    affected ranges are intervals of it (through \<open>Three_Way\<close>).
  \<^item> \<open>Identity\<close>, \<open>Identity_Rules\<close>: \<open>domain/identity.go\<close>. The resolver as written, and the abstract
    judgement of a candidate it refines; merges are sound, weak evidence never merges, order is irrelevant.
  \<^item> \<open>Release\<close>, \<open>Attribution\<close>, \<open>Kernel\<close>, \<open>Presence\<close>: the other verdicts of \<open>domain/\<close>.

  \<^bold>\<open>What may be scanned.\<close>
  \<^item> \<open>Target\<close>, \<open>Canonical_Target\<close>: \<open>target/\<close>. Canonical forms, the IPv4 hosts an IPv6 address carries, and
    the endpoints of Core that must never be reached.
  \<^item> \<open>Scope\<close>: \<open>scope/scope.go\<close>. Exclusions cover a host under every name it has.
  \<^item> \<open>Core_Constraints\<close>: \<open>dispatch/windows.go\<close>, \<open>dispatch/scope.go\<close> and the constraint building of
    \<open>dispatch/dispatch.go\<close>. Windows equal their schedule, a policy only lowers the ceilings.

  \<^bold>\<open>The scan point.\<close>
  \<^item> \<open>Rate_Budget\<close>: \<open>engines/enginerate\<close>. The token bucket under arbitrary interleavings of its callers.
  \<^item> \<open>Scanpoint_Budget\<close>: \<open>scanpoint/allocator.go\<close>, \<open>convert.go\<close> and the budget of a job.
  \<^item> \<open>Scan_Job\<close>, \<open>Scan_Lifecycle\<close>: \<open>scanpoint/job.go\<close>, \<open>creds.go\<close>, \<open>credagent.go\<close>. The goroutines of one job
    as a step relation, with invariants over all interleavings.
  \<^item> \<open>Engine_Output\<close>, \<open>Result_Buffer\<close>: \<open>scanpoint/enginehost.go\<close>, \<open>submit.go\<close>. What an engine says reaches
    the buffer or the submission is marked incomplete; chunking round trips; nothing leaves the buffer
    before a final verdict.
  \<^item> \<open>Host_Key_Trust\<close>, \<open>Scan_Runtime\<close>: \<open>hostkeytrust/\<close>, \<open>scanpoint/runtime.go\<close>, \<open>engineset.go\<close>. The job table
    and every handler of a message from Core.

  \<^bold>\<open>Core.\<close>
  \<^item> \<open>Core_Leases\<close>, \<open>Core_Fencing\<close>: the transactions on one job (\<open>store/jobs.go\<close>, \<open>leases.go\<close>) as a step
    relation; they implement a fencing token, stated as a locale and interpreted on them.
  \<^item> \<open>Core_Scans\<close>, \<open>Core_Stops\<close>: the rows of a tenant and the statements on them (\<open>store/scans.go\<close>,
    \<open>policies.go\<close>, \<open>audit.go\<close>, \<open>kill.go\<close>, \<open>cancel.go\<close>, \<open>scanpoints.go\<close>, \<open>credentials.go\<close>).
  \<^item> \<open>Core_Expand\<close>, \<open>Core_Planner\<close>: \<open>dispatch/planner.go\<close>.
  \<^item> \<open>Core_Dispatch\<close>, \<open>Core_Handlers\<close>: \<open>dispatch/dispatch.go\<close>, \<open>credgrant.go\<close>, \<open>sweeper.go\<close>, one function per
    handler or pass, on the rows and the state of the stream.
  \<^item> \<open>Core_System\<close>: all of these as one step relation on the rows of a tenant, and its refinement
    to the lease protocol. \<open>Core_Wellformed\<close>: the invariants of the rows. \<open>Core_Offers\<close>: what an offer
    of work guarantees. \<open>Core_Stream\<close>: renewals, stops and the order of the two channels.
  \<^item> \<open>Core_Ingest\<close>: \<open>dispatch/ingest.go\<close>, \<open>store/submissions.go\<close>, \<open>store/observations.go\<close>. A chunk is a few
    transactions of a connection, which is a record with a program counter; the stages of a transaction are
    functions on the rows and the memory of the stream, composed as an error monad. \<open>Core_Ledger\<close>:
    all connections with every other transaction of the tenant as one step relation, and what one step
    keeps. \<open>Core_Results\<close>: results are kept, release is fenced, quarantine is
    sticky, every chunk is answered. \<open>Core_Laundering\<close>: complete runs, the witnesses, and two of them
    that the checks let pass although they should not.

  \<^bold>\<open>How state, errors and time appear.\<close> A transaction is a function from the rows to the rows and an answer;
  an answer is a sum or an option with one constructor per error of the code, and a transaction that fails
  leaves the rows as they were. Failures the code cannot foresee (a statement, a commit, a send) are
  flags or lists of outcomes among the arguments, so that theorems hold for every choice of them. Time is a
  number of nanoseconds passed in. Concurrency is interleaving: of goroutine steps at the scan point, of
  transactions at Core, where row locks make one transaction one step. Identifiers are drawn outside the
  model and passed in; where the code relies on their being fresh the theorems say so.

  \<^bold>\<open>Bounds and fuel.\<close> Only the parser of \<open>Go_Json\<close> takes fuel: twice the length of the text and one, enough
  because every two nested calls consume a byte. Loops whose recursion is not structural (the comparators,
  the text parsers, the expansion of a prefix) have termination proofs, or, for the expansion of a
  declared target, are partial functions that are proved to return. The one loop that the code leaves to the
  peer, the delivery of a submission, recurses on the list of answers the peer gives. Limits are the
  constants of the code: 65536 targets of one scan, 32 tasks of a job, five attempts, chunks of 2000
  observations or 1 MiB at the scan point and of at most 5000 observations at Core.

  \<^bold>\<open>Not modelled.\<close> The wire (gRPC, TLS, protobuf), PostgreSQL itself and the SQL text: a statement is
  the function on rows that it computes, row-level security and locking being what make one tenant and one
  transaction the unit of the model. The engines' own packet and parsing code, processes and sandboxing, the
  HTTP API with its sessions and OIDC, enrolment and certificates, password hashing, SSH, the read-only
  listings of the store, the user interface, and logging: they are input and output around the logic above,
  or call cryptographic and network libraries whose behaviour would be the whole content of a model.
\<close>

end
